(* ===== verification/Prelude.thy ===== *)
theory Prelude
  imports Main "HOL-Library.Word" "HOL-Library.List_Lexorder" "HOL-Library.Char_ord"
begin

text \<open>
  What every component of the development shares: the two collections of rewrite rules,
  evaluation of a fallible function along a list (\<open>traverse\<close>, the range pipelines of the
  C++ code), and \<open>std::map\<close> as an association list kept strictly increasing in its keys
  (\<open>om_find\<close>, \<open>om_put\<close>), so that iterating over the list is iterating in key order.
  \<open>std::string\<close> is \<^typ>\<open>string\<close>; its order is the bytewise lexicographic one, which
  \<open>List_Lexorder\<close> and \<open>Char_ord\<close> give.
\<close>

named_theorems omap_simps \<open>lookup, membership and order of ordered maps\<close>
named_theorems traverse_simps \<open>success and failure of a fallible traversal\<close>

named_theorems exn_simps \<open>results of a computation that may throw\<close>

section \<open>Sequencing computations that may throw\<close>

text \<open>
  A call that may throw, followed by code that uses its value, is a case distinction whose
  \<open>Inl\<close> branch passes the exception on.
\<close>

lemma throw_Inr_iff [exn_simps]:
  "(case x of Inl e \<Rightarrow> Inl e | Inr t \<Rightarrow> f t) = Inr y \<longleftrightarrow> (\<exists>t. x = Inr t \<and> f t = Inr y)"
  by (cases x) auto

lemma throw_Inl_iff [exn_simps]:
  "(case x of Inl e \<Rightarrow> Inl e | Inr t \<Rightarrow> f t) = Inl d \<longleftrightarrow>
     x = Inl d \<or> (\<exists>t. x = Inr t \<and> f t = Inl d)"
  by (cases x) auto

section \<open>Fallible traversals\<close>

text \<open>
  \<open>xs | std::views::transform(f) | std::ranges::to<vector>()\<close> with an \<open>f\<close> that may throw:
  elements are visited in order and the first exception leaves the pipeline.
\<close>

fun traverse :: "('a \<Rightarrow> 'e + 'b) \<Rightarrow> 'a list \<Rightarrow> 'e + 'b list" where
  "traverse f [] = Inr []"
| "traverse f (x # xs) =
     (case f x of
        Inl e \<Rightarrow> Inl e
      | Inr y \<Rightarrow> (case traverse f xs of Inl e \<Rightarrow> Inl e | Inr ys \<Rightarrow> Inr (y # ys)))"

lemma traverse_cong [fundef_cong]:
  "xs = ys \<Longrightarrow> (\<And>y. y \<in> set ys \<Longrightarrow> f y = g y) \<Longrightarrow> traverse f xs = traverse g ys"
proof (induction xs arbitrary: ys)
  case (Cons x xs)
  then show ?case by (cases ys) (auto split: sum.splits)
qed simp

lemma traverse_Inr_iff [traverse_simps]:
  "traverse f xs = Inr ys \<longleftrightarrow> list_all2 (\<lambda>x y. f x = Inr y) xs ys"
proof (induction xs arbitrary: ys)
  case (Cons x xs)
  have "traverse f (x # xs) = Inr ys \<longleftrightarrow>
      (\<exists>y zs. ys = y # zs \<and> f x = Inr y \<and> traverse f xs = Inr zs)"
    by (auto split: sum.splits)
  then show ?case
    by (simp add: Cons.IH list_all2_Cons1)
qed auto

lemma traverse_ex_Inr [traverse_simps]:
  "(\<exists>ys. traverse f xs = Inr ys) \<longleftrightarrow> (\<forall>x \<in> set xs. \<exists>y. f x = Inr y)"
proof (induction xs)
  case (Cons x xs)
  then show ?case by (cases "f x"; cases "traverse f xs") auto
qed simp

lemma traverse_Inl_in_set:
  "traverse f xs = Inl e \<Longrightarrow> \<exists>x \<in> set xs. f x = Inl e"
  by (induction xs) (auto split: sum.splits)

text \<open>Two texts that end in a separator and a part without it split in one way.\<close>

lemma append_separator_eq:
  "c \<notin> set ys \<Longrightarrow> c \<notin> set ys' \<Longrightarrow> xs @ c # ys = xs' @ c # ys' \<longleftrightarrow> xs = xs' \<and> ys = ys'"
  by (auto simp: append_eq_append_conv2 Cons_eq_append_conv append_eq_Cons_conv)

section \<open>Ordered maps\<close>

type_synonym ('k, 'v) omap = "('k \<times> 'v) list"

definition om_ok :: "('k::linorder, 'v) omap \<Rightarrow> bool" where
  "om_ok m \<longleftrightarrow> sorted_wrt (<) (map fst m)"

text \<open>\<open>std::map::find\<close>.\<close>

definition om_find :: "('k::linorder, 'v) omap \<Rightarrow> 'k \<Rightarrow> 'v option" where
  "om_find m k = map_of m k"

text \<open>\<open>std::map::insert_or_assign\<close>, and \<open>m[k] = v\<close>.\<close>

fun om_put :: "'k::linorder \<Rightarrow> 'v \<Rightarrow> ('k, 'v) omap \<Rightarrow> ('k, 'v) omap" where
  "om_put k v [] = [(k, v)]"
| "om_put k v (p # m) =
     (if fst p < k then p # om_put k v m
      else if k < fst p then (k, v) # p # m
      else (k, v) # m)"

lemma om_ok_Nil [simp, intro]: "om_ok []"
  by (simp add: om_ok_def)

lemma om_find_Nil [simp]: "om_find [] k = None"
  by (simp add: om_find_def)

lemma om_ok_Cons [omap_simps]: "om_ok (p # m) \<longleftrightarrow> (\<forall>q \<in> set m. fst p < fst q) \<and> om_ok m"
  by (auto simp: om_ok_def)

lemma om_find_Cons [omap_simps]:
  "om_find (p # m) k = (if fst p = k then Some (snd p) else om_find m k)"
  by (cases p) (auto simp: om_find_def)

lemma om_put_keys [simp]: "fst ` set (om_put k v m) = insert k (fst ` set m)"
  by (induction m) auto

lemma om_ok_put [simp, intro]: "om_ok m \<Longrightarrow> om_ok (om_put k v m)"
proof (induction m)
  case (Cons p m)
  then have "om_ok (om_put k v m)" by (simp add: omap_simps)
  moreover have "\<forall>q \<in> set (om_put k v m). fst q \<in> insert k (fst ` set m)"
    using om_put_keys [of k v m] by blast
  ultimately show ?case
    using Cons.prems by (fastforce simp: omap_simps not_less)
qed (simp add: omap_simps)

lemma om_find_put [omap_simps]:
  "om_find (om_put k v m) k' = (if k' = k then Some v else om_find m k')"
  by (induction m) (auto simp: omap_simps)

lemma om_find_None_iff [omap_simps]: "om_find m k = None \<longleftrightarrow> k \<notin> fst ` set m"
  by (simp add: om_find_def map_of_eq_None_iff)

lemma om_find_Some_in: "om_find m k = Some v \<Longrightarrow> (k, v) \<in> set m"
  by (simp add: om_find_def map_of_SomeD)

lemma om_find_iff: "om_ok m \<Longrightarrow> (k, v) \<in> set m \<longleftrightarrow> om_find m k = Some v"
proof (induction m)
  case (Cons p m)
  then show ?case by (cases p) (fastforce simp: omap_simps dest: om_find_Some_in)
qed simp

text \<open>Two ordered maps with the same lookups are the same list: iteration order is determined.\<close>

lemma om_rebuild: "om_ok m \<Longrightarrow> map (\<lambda>k. (k, the (om_find m k))) (map fst m) = m"
  using om_find_iff [of m] by (auto intro!: nth_equalityI simp: prod_eq_iff) (metis nth_mem option.sel prod.collapse)

lemma om_ext:
  assumes ok: "om_ok m" "om_ok n" and eq: "\<And>k. om_find m k = om_find n k"
  shows "m = n"
proof -
  have "k \<in> fst ` set m \<longleftrightarrow> k \<in> fst ` set n" for k
    using eq [of k] om_find_None_iff [of m k] om_find_None_iff [of n k] by metis
  then have "fst ` set m = fst ` set n"
    by (rule set_eqI)
  then have keys: "map fst m = map fst n"
    using ok by (metis om_ok_def set_map strict_sorted_equal)
  have "m = map (\<lambda>k. (k, the (om_find m k))) (map fst m)"
    by (rule om_rebuild [OF ok(1), symmetric])
  also have "\<dots> = map (\<lambda>k. (k, the (om_find n k))) (map fst n)"
    by (simp only: keys eq)
  also have "\<dots> = n"
    by (rule om_rebuild [OF ok(2)])
  finally show ?thesis .
qed

lemma om_put_idem: "om_ok m \<Longrightarrow> om_find m k = Some v \<Longrightarrow> om_put k v m = m"
  by (rule om_ext) (auto simp: omap_simps)

section \<open>Repeatable answers\<close>

text \<open>
  The contract of a component that caches answers for a transaction: it changes by steps, a lookup is
  such a step, an answer that is returned is settled, steps keep what is settled, and a settled lookup
  answers from the state alone. A client may then rely on getting every answer again.
\<close>

locale repeatable =
  fixes step :: "'s \<Rightarrow> 's \<Rightarrow> bool"
    and ok :: "'s \<Rightarrow> bool"
    and lookup :: "'k \<Rightarrow> 's \<Rightarrow> ('e + 'r) \<times> 's"
    and settled :: "'s \<Rightarrow> 'k \<Rightarrow> 'r \<Rightarrow> bool"
  assumes step_ok: "step s s' \<Longrightarrow> ok s \<Longrightarrow> ok s'"
    and step_settled: "step s s' \<Longrightarrow> ok s \<Longrightarrow> settled s k r \<Longrightarrow> settled s' k r"
    and lookup_ok: "ok s \<Longrightarrow> lookup k s = (Inr r, s') \<Longrightarrow> ok s'"
    and lookup_settles: "ok s \<Longrightarrow> lookup k s = (Inr r, s') \<Longrightarrow> settled s' k r"
    and settled_lookup: "ok s \<Longrightarrow> settled s k r \<Longrightarrow> lookup k s = (Inr r, s)"
begin

lemma steps_settled: "step\<^sup>*\<^sup>* s s' \<Longrightarrow> ok s \<Longrightarrow> settled s k r \<Longrightarrow> ok s' \<and> settled s' k r"
  by (induction rule: rtranclp_induct) (auto intro: step_ok step_settled)

lemma lookup_again:
  "ok s \<Longrightarrow> lookup k s = (Inr r, s1) \<Longrightarrow> step\<^sup>*\<^sup>* s1 s2 \<Longrightarrow> lookup k s2 = (Inr r, s2)"
  using steps_settled [of s1 s2 k r] by (blast intro: lookup_ok lookup_settles settled_lookup)

lemma settled_once: "ok s \<Longrightarrow> settled s k r \<Longrightarrow> settled s k r' \<Longrightarrow> r = r'"
  using settled_lookup [of s k r] settled_lookup [of s k r'] by simp

end

section \<open>Runs of calls\<close>

text \<open>A client's calls one after another: their answers, and the state they leave.\<close>

fun run_all :: "('c \<Rightarrow> 's \<Rightarrow> 'a \<times> 's) \<Rightarrow> 'c list \<Rightarrow> 's \<Rightarrow> 'a list \<times> 's" where
  "run_all call [] s = ([], s)"
| "run_all call (c # cs) s =
     (case call c s of (a, s) \<Rightarrow> (case run_all call cs s of (as, s) \<Rightarrow> (a # as, s)))"

lemma run_all_ConsE:
  assumes "run_all call (c # cs) s = (as, s')"
  obtains a s1 as1 where "call c s = (a, s1)" "run_all call cs s1 = (as1, s')" "as = a # as1"
  using assms by (auto split: prod.splits)

lemma run_all_length: "run_all call cs s = (as, s') \<Longrightarrow> length as = length cs"
  by (induction cs arbitrary: s as) (auto elim!: run_all_ConsE simp del: run_all.simps(2))

lemma run_all_append:
  assumes "run_all call cs s = (as, s1)"
  shows "run_all call (cs @ ds) s = (case run_all call ds s1 of (bs, s2) \<Rightarrow> (as @ bs, s2))"
  using assms
proof (induction cs arbitrary: s as)
  case (Cons c cs)
  from Cons.prems obtain a s2 as2 where "call c s = (a, s2)" "run_all call cs s2 = (as2, s1)" "as = a # as2"
    by (rule run_all_ConsE)
  with Cons.IH [of s2 as2] show ?case by (simp split: prod.split)
qed simp

text \<open>A relation between the calls answered so far and the state, kept by every call, holds of every run.\<close>

lemma run_all_trace:
  assumes "run_all call cs s = (as, s')" and "P tr s"
    and "\<And>tr s c a s'. P tr s \<Longrightarrow> call c s = (a, s') \<Longrightarrow> P (tr @ [(c, a)]) s'"
  shows "P (tr @ zip cs as) s'"
  using assms(1,2)
proof (induction cs arbitrary: tr s as)
  case (Cons c cs)
  from Cons.prems(1) obtain a s1 as1 where "call c s = (a, s1)" "run_all call cs s1 = (as1, s')"
    "as = a # as1" by (rule run_all_ConsE)
  with Cons.IH [of s1 as1 "tr @ [(c, a)]"] assms(3) [OF Cons.prems(2)] show ?case by simp
qed simp

text \<open>
  The contract of a component that is called: every call keeps its invariant. An answer in a run was
  then given in a good state, and the run went on from what the call left.
\<close>

locale call_system =
  fixes call :: "'c \<Rightarrow> 's \<Rightarrow> 'a \<times> 's" and ok :: "'s \<Rightarrow> bool"
  assumes call_ok: "ok s \<Longrightarrow> call c s = (a, s') \<Longrightarrow> ok s'"
begin

lemma run_ok: "ok s \<Longrightarrow> run_all call cs s = (as, s') \<Longrightarrow> ok s'"
  by (induction cs arbitrary: s as) (auto elim!: run_all_ConsE simp del: run_all.simps(2) intro: call_ok)

lemma run_answer:
  "ok s \<Longrightarrow> run_all call cs s = (as, s') \<Longrightarrow> (c, a) \<in> set (zip cs as) \<Longrightarrow>
   \<exists>s0 s1 cs1 as1. ok s0 \<and> call c s0 = (a, s1) \<and> ok s1 \<and> run_all call cs1 s1 = (as1, s')"
proof (induction cs arbitrary: s as)
  case (Cons d cs)
  from Cons.prems(2) obtain b s1 as1 where run: "call d s = (b, s1)" "run_all call cs s1 = (as1, s')"
    "as = b # as1" by (rule run_all_ConsE)
  have ok1: "ok s1" using call_ok [OF Cons.prems(1) run(1)] .
  show ?case
  proof (cases "(c, a) = (d, b)")
    case True
    with Cons.prems(1) ok1 run(1,2) show ?thesis by blast
  next
    case False
    with Cons.prems(3) run(3) have "(c, a) \<in> set (zip cs as1)" by auto
    then show ?thesis by (rule Cons.IH [OF ok1 run(2)])
  qed
qed simp

end

text \<open>
  A component that asks another one and remembers the answer: a call asks at most once, and not at all
  when the answer is known; after asking, the answer is known unless the call failed.
\<close>

locale asks_once = call_system call ok
  for call :: "'c \<Rightarrow> 's \<Rightarrow> 'a \<times> 's" and ok :: "'s \<Rightarrow> bool" +
  fixes asked :: "'s \<Rightarrow> nat" and known :: "'s \<Rightarrow> bool" and failed :: "'c \<Rightarrow> 'a \<Rightarrow> bool"
  assumes call_asked: "ok s \<Longrightarrow> call c s = (a, s') \<Longrightarrow>
    asked s' + of_bool (\<not> known s') \<le> asked s + of_bool (\<not> known s) + of_bool (failed c a)"
begin

lemma run_asked:
  "ok s \<Longrightarrow> run_all call cs s = (as, s') \<Longrightarrow>
   asked s' + of_bool (\<not> known s') \<le>
     asked s + of_bool (\<not> known s) + length (filter (case_prod failed) (zip cs as))"
proof (induction cs arbitrary: s as)
  case (Cons d cs)
  from Cons.prems(2) obtain b s1 as1 where run: "call d s = (b, s1)" "run_all call cs s1 = (as1, s')"
    "as = b # as1" by (rule run_all_ConsE)
  from Cons.IH [OF call_ok [OF Cons.prems(1) run(1)] run(2)] call_asked [OF Cons.prems(1) run(1)]
  show ?case by (auto simp: run(3) split: if_splits)
qed simp

lemma run_asked_bound:
  assumes "ok s" and "run_all call cs s = (as, s')"
  shows "asked s' \<le> asked s + 1 + length (filter (case_prod failed) (zip cs as))"
  using run_asked [OF assms] by (cases "known s"; cases "known s'") simp_all

end

end
