(* ===== verification/Errors.thy ===== *)
theory Errors
  imports Prelude
begin

text \<open>
  Exceptions and results. The C++ code reports errors in two ways: it throws DuckDB exceptions
  (\<open>exception\<close>, with the message it builds), and it receives \<open>iceberg::Result\<close> values
  (\<open>ice_result\<close>). \<open>UnwrapOrThrow\<close> (src/src/include/unwrap.hpp) turns the second into the
  first. Also here: \<open>std::to_string\<close>, with which messages and secret names are built.
\<close>

section \<open>Exceptions and results\<close>

text \<open>
  The DuckDB exception classes the source throws. \<open>ExternalException\<close> stands for whatever
  code outside the repository throws through it.
\<close>

datatype exception =
    IOException string
  | InvalidInputException string
  | NotImplementedException string
  | BinderException string
  | CatalogException string
  | TransactionException string
  | InternalException string
  | InvalidConfigurationException string
  | ExternalException string

type_synonym 'a throws = "exception + 'a"

text \<open>\<open>iceberg::ErrorKind\<close>: the kinds the source tells apart, and the others.\<close>

datatype error_kind = kNoSuchNamespace | kNoSuchTable | kNotImplemented | kOtherKind nat

record ice_error =
  err_kind :: error_kind
  err_message :: string

type_synonym 'a ice_result = "ice_error + 'a"

text \<open>
  \<open>UnwrapOrThrow<Exc>(result, fmt, args...)\<close>: \<open>Exc\<close> is the exception's constructor
  (\<open>IOException\<close> by default) and \<open>prefix\<close> is \<open>fmt\<close> with \<open>args\<close> filled in.
\<close>

definition UnwrapOrThrow :: "(string \<Rightarrow> exception) \<Rightarrow> 'a ice_result \<Rightarrow> string \<Rightarrow> 'a throws" where
  "UnwrapOrThrow Exc result prefix =
     (case result of
        Inl err \<Rightarrow> Inl (Exc (prefix @ '': '' @ err_message err))
      | Inr v \<Rightarrow> Inr v)"

lemma UnwrapOrThrow_Inr_iff [simp]: "UnwrapOrThrow E r p = Inr v \<longleftrightarrow> r = Inr v"
  by (simp add: UnwrapOrThrow_def split: sum.splits)

lemma UnwrapOrThrow_Inr [simp]: "UnwrapOrThrow E (Inr v) p = Inr v"
  by simp

lemma UnwrapOrThrow_Inl [simp]:
  "UnwrapOrThrow E (Inl err) p = Inl (E (p @ '': '' @ err_message err))"
  by (simp add: UnwrapOrThrow_def)

section \<open>Decimal strings\<close>

definition digit_char :: "nat \<Rightarrow> char" where
  "digit_char d = char_of (48 + d)"

text \<open>\<open>std::to_string\<close> of an unsigned integer.\<close>

fun to_string :: "nat \<Rightarrow> string" where
  "to_string n = (if n < 10 then [digit_char n] else to_string (n div 10) @ [digit_char (n mod 10)])"

declare to_string.simps [simp del]

text \<open>The same for a signed one, as \<open>%lld\<close> prints it.\<close>

definition to_string_int :: "int \<Rightarrow> string" where
  "to_string_int i = (if i < 0 then CHR ''-'' # to_string (nat (- i)) else to_string (nat i))"

lemma of_digit_char: "d < 10 \<Longrightarrow> (of_char (digit_char d) :: nat) = 48 + d"
  unfolding digit_char_def of_char_of by simp

lemma digit_char_inj: "d < 10 \<Longrightarrow> e < 10 \<Longrightarrow> digit_char d = digit_char e \<longleftrightarrow> d = e"
  by (metis add_left_cancel of_digit_char)

lemma digit_char_not_underscore: "d < 10 \<Longrightarrow> digit_char d \<noteq> CHR ''_''"
proof
  assume "d < 10" and "digit_char d = CHR ''_''"
  with of_digit_char [of d] have "(of_char (CHR ''_'') :: nat) = 48 + d" by simp
  then have "95 = 48 + d" by simp
  with \<open>d < 10\<close> show False by simp
qed

lemma to_string_not_Nil [simp]: "to_string n \<noteq> []" "[] \<noteq> to_string n"
  by (subst to_string.simps, simp)+

lemma to_string_no_underscore: "CHR ''_'' \<notin> set (to_string n)"
proof (induction n rule: to_string.induct)
  case (1 n)
  then show ?case
    using digit_char_not_underscore [of n] digit_char_not_underscore [of "n mod 10"]
    by (subst to_string.simps) (auto simp: eq_commute [of "CHR ''_''"])
qed

text \<open>Different numbers print differently.\<close>

lemma to_string_inj: "to_string m = to_string n \<Longrightarrow> m = n"
proof (induction m arbitrary: n rule: to_string.induct)
  case (1 m)
  show ?case
  proof (cases "m < 10 \<or> n < 10")
    case True
    with "1.prems" show ?thesis
      by (auto simp: to_string.simps [of m] to_string.simps [of n] digit_char_inj
          split: if_splits)
  next
    case False
    with "1.prems" have "to_string (m div 10) = to_string (n div 10)"
      and "digit_char (m mod 10) = digit_char (n mod 10)"
      by (auto simp: to_string.simps [of m] to_string.simps [of n])
    with False "1.IH" have "m div 10 = n div 10" and "m mod 10 = n mod 10"
      by (auto simp: digit_char_inj)
    then show ?thesis
      by (metis div_mult_mod_eq)
  qed
qed

lemma to_string_eq_iff [simp]: "to_string m = to_string n \<longleftrightarrow> m = n"
  using to_string_inj by blast

end
