(* ===== verification/TypeMapping.thy ===== *)
theory TypeMapping
  imports Errors
begin

text \<open>
  Types and columns (src/src/conversion.cpp, lines 23-117): Iceberg types and schemas as
  iceberg-cpp hands them over, DuckDB's logical types and column definitions, the mapping
  \<open>MapIcebergType\<close> between the types, and \<open>BuildColumnDefinition\<close>, which builds the columns
  that DuckDB's reader matches to data files by field ID. The lemmas characterise when the
  mapping throws and with which message, and show that a column definition mirrors its field,
  nested fields included.
\<close>

section \<open>Iceberg types, DuckDB types and columns\<close>

text \<open>
  \<open>iceberg::Type\<close> by \<open>type_id()\<close>, with what the source reads off each: the nested fields, a
  decimal's precision and scale. The type IDs that fall into the \<open>default\<close> branch are
  \<open>kUnsupported\<close> with their \<open>ToString()\<close>.
\<close>

datatype iceberg_type =
    kBoolean | kInt | kLong | kFloat | kDouble | kString | kBinary
  | kDate | kTime | kTimestamp | kTimestampTz | kUuid
  | kFixed nat
  | kDecimal int int
  | kList schema_field
  | kMap schema_field schema_field
  | kStruct "schema_field list"
  | kUnsupported string
and schema_field =
    SchemaField (field_id: "32 word") (field_name: string) (field_type: iceberg_type)
      (field_doc: string)

text \<open>\<open>iceberg::Schema\<close>, of which the source reads the top-level fields.\<close>

type_synonym iceberg_schema = "schema_field list"

datatype logical_type =
    BOOLEAN | TINYINT | SMALLINT | INTEGER | BIGINT | FLOAT | DOUBLE | VARCHAR | BLOB
  | DATE | TIME | TIMESTAMP | TIMESTAMP_TZ | UUID | UNKNOWN
  | DECIMAL int int
  | LIST logical_type
  | MAP logical_type logical_type
  | STRUCT "(string \<times> logical_type) list"
  | OTHER_TYPE nat

text \<open>
  \<open>MultiFileColumnDefinition\<close>: \<open>column_identifier\<close> is \<open>Value::INTEGER(field_id)\<close> and
  \<open>default_expression\<close> the constant NULL of the given type.
\<close>

datatype column_definition =
    ColumnDefinition (column_name: string) (column_type: logical_type) (column_identifier: "32 word")
      (default_null_type: logical_type) (column_children: "column_definition list")

lemma size_field_type [termination_simp]: "size (field_type f) < size f"
  by (cases f) simp

lemma size_field_in_list [termination_simp]:
  "f \<in> set fs \<Longrightarrow> size (field_type f) < Suc (size_list size fs)"
  by (induction fs) (auto simp: less_Suc_eq_le intro: less_imp_le size_field_type
      order.trans [OF less_imp_le [OF size_field_type]])

section \<open>The type mapping\<close>

fun MapIcebergType :: "iceberg_type \<Rightarrow> logical_type throws" where
  "MapIcebergType kBoolean = Inr BOOLEAN"
| "MapIcebergType kInt = Inr INTEGER"
| "MapIcebergType kLong = Inr BIGINT"
| "MapIcebergType kFloat = Inr FLOAT"
| "MapIcebergType kDouble = Inr DOUBLE"
| "MapIcebergType kString = Inr VARCHAR"
| "MapIcebergType kBinary = Inr BLOB"
| "MapIcebergType kDate = Inr DATE"
| "MapIcebergType kTime = Inr TIME"
| "MapIcebergType kTimestamp = Inr TIMESTAMP"
| "MapIcebergType kTimestampTz = Inr TIMESTAMP_TZ"
| "MapIcebergType kUuid = Inr UUID"
| "MapIcebergType (kFixed n) = Inr BLOB"
| "MapIcebergType (kDecimal precision scale) = Inr (DECIMAL precision scale)"
| "MapIcebergType (kList element) =
     (case MapIcebergType (field_type element) of
        Inl e \<Rightarrow> Inl e
      | Inr t \<Rightarrow> Inr (LIST t))"
| "MapIcebergType (kMap key val) =
     (case MapIcebergType (field_type key) of
        Inl e \<Rightarrow> Inl e
      | Inr k \<Rightarrow>
          (case MapIcebergType (field_type val) of
             Inl e \<Rightarrow> Inl e
           | Inr v \<Rightarrow> Inr (MAP k v)))"
| "MapIcebergType (kStruct flds) =
     (case traverse (\<lambda>field. case MapIcebergType (field_type field) of
                               Inl e \<Rightarrow> Inl e
                             | Inr t \<Rightarrow> Inr (field_name field, t)) flds of
        Inl e \<Rightarrow> Inl e
      | Inr kids \<Rightarrow> Inr (STRUCT kids))"
| "MapIcebergType (kUnsupported s) =
     Inl (InvalidInputException (''Unsupported Iceberg type: '' @ s))"

section \<open>Column definitions\<close>

text \<open>\<open>col_def.children.push_back\<close>, for each of the given columns in turn.\<close>

definition push_children :: "column_definition \<Rightarrow> column_definition list \<Rightarrow> column_definition" where
  "push_children col cs =
     ColumnDefinition (column_name col) (column_type col) (column_identifier col)
       (default_null_type col) (column_children col @ cs)"

text \<open>
  \<open>AddChildColumns\<close> and \<open>BuildColumnDefinition\<close> call each other. The struct branch loops over
  the fields, so its exceptions leave in field order.
\<close>

function (sequential)
  AddChildColumns :: "column_definition \<Rightarrow> iceberg_type \<Rightarrow> column_definition throws"
  and BuildColumnDefinition :: "schema_field \<Rightarrow> column_definition throws" where
  "AddChildColumns col (kStruct flds) =
     (case traverse BuildColumnDefinition flds of
        Inl e \<Rightarrow> Inl e
      | Inr cs \<Rightarrow> Inr (push_children col cs))"
| "AddChildColumns col (kList element) =
     (case BuildColumnDefinition element of
        Inl e \<Rightarrow> Inl e
      | Inr c \<Rightarrow> Inr (push_children col [c]))"
| "AddChildColumns col (kMap key val) =
     (case BuildColumnDefinition key of
        Inl e \<Rightarrow> Inl e
      | Inr k \<Rightarrow>
          (case BuildColumnDefinition val of
             Inl e \<Rightarrow> Inl e
           | Inr v \<Rightarrow> Inr (push_children (push_children col [k]) [v])))"
| "AddChildColumns col t = Inr col"
| "BuildColumnDefinition field =
     (case MapIcebergType (field_type field) of
        Inl e \<Rightarrow> Inl e
      | Inr t \<Rightarrow>
          AddChildColumns (ColumnDefinition (field_name field) t (field_id field) t [])
            (field_type field))"
  by pat_completeness auto
termination
proof (relation "measure (\<lambda>x. case x of Inl (col, t) \<Rightarrow> size t | Inr f \<Rightarrow> size f)", goal_cases)
  case (2 col flds f)
  then show ?case by (induction flds) auto
qed (auto simp: size_field_type)

definition BuildColumnList :: "iceberg_schema \<Rightarrow> column_definition list throws" where
  "BuildColumnList schema = traverse BuildColumnDefinition schema"

section \<open>When the mapping throws\<close>

text \<open>The unsupported types that occur in a type, by name.\<close>

fun unsupported_in :: "iceberg_type \<Rightarrow> string set" where
  "unsupported_in (kUnsupported s) = {s}"
| "unsupported_in (kList element) = unsupported_in (field_type element)"
| "unsupported_in (kMap key val) =
     unsupported_in (field_type key) \<union> unsupported_in (field_type val)"
| "unsupported_in (kStruct flds) = (\<Union>f \<in> set flds. unsupported_in (field_type f))"
| "unsupported_in _ = {}"

abbreviation unsupported_error :: "string \<Rightarrow> exception" where
  "unsupported_error s \<equiv> InvalidInputException (''Unsupported Iceberg type: '' @ s)"

abbreviation struct_child :: "schema_field \<Rightarrow> (string \<times> logical_type) throws" where
  "struct_child \<equiv> \<lambda>field. case MapIcebergType (field_type field) of
     Inl e \<Rightarrow> Inl e | Inr t \<Rightarrow> Inr (field_name field, t)"

lemma struct_child_Inr:
  "struct_child f = Inr k \<longleftrightarrow> fst k = field_name f \<and> MapIcebergType (field_type f) = Inr (snd k)"
  by (cases k) (auto simp: exn_simps)

lemma MapIcebergType_struct:
  "MapIcebergType (kStruct flds) = Inr t \<longleftrightarrow>
     (\<exists>kids. t = STRUCT kids \<and>
        list_all2 (\<lambda>f k. fst k = field_name f \<and> MapIcebergType (field_type f) = Inr (snd k)) flds kids)"
proof -
  have "MapIcebergType (kStruct flds) = Inr t \<longleftrightarrow>
      (\<exists>kids. t = STRUCT kids \<and> traverse struct_child flds = Inr kids)"
    by (auto simp: throw_Inr_iff)
  then show ?thesis
    by (simp only: traverse_Inr_iff struct_child_Inr)
qed

lemma MapIcebergType_Inr_iff: "(\<exists>t. MapIcebergType ty = Inr t) \<longleftrightarrow> unsupported_in ty = {}"
proof (induction ty rule: MapIcebergType.induct)
  case (17 flds)
  have "(\<exists>t. MapIcebergType (kStruct flds) = Inr t) \<longleftrightarrow>
      (\<forall>f \<in> set flds. \<exists>t. MapIcebergType (field_type f) = Inr t)"
    using traverse_ex_Inr [of struct_child flds] by (simp add: exn_simps)
  then show ?case using 17 by auto
qed (auto split: sum.splits)

lemma MapIcebergType_Inl:
  "MapIcebergType ty = Inl e \<Longrightarrow> \<exists>s \<in> unsupported_in ty. e = unsupported_error s"
proof (induction ty rule: MapIcebergType.induct)
  case (17 flds)
  then obtain f where "f \<in> set flds" and "MapIcebergType (field_type f) = Inl e"
    by (auto dest!: traverse_Inl_in_set split: sum.splits)
  with 17 show ?case by fastforce
qed (auto split: sum.splits)

section \<open>Columns mirror their fields\<close>

lemma push_children_push [simp]: "push_children (push_children col cs) ds = push_children col (cs @ ds)"
  by (simp add: push_children_def)

lemma push_children_Nil [simp]: "push_children col [] = col"
  by (simp add: push_children_def)

text \<open>
  The fields directly below a type: those of a struct, the element of a list, the key and the
  value of a map. The branches of \<open>AddChildColumns\<close> are one traversal of them.
\<close>

fun child_fields :: "iceberg_type \<Rightarrow> schema_field list" where
  "child_fields (kStruct flds) = flds"
| "child_fields (kList element) = [element]"
| "child_fields (kMap key val) = [key, val]"
| "child_fields _ = []"

lemma AddChildColumns_eq:
  "AddChildColumns col t =
     (case traverse BuildColumnDefinition (child_fields t) of
        Inl e \<Rightarrow> Inl e | Inr cs \<Rightarrow> Inr (push_children col cs))"
  by (cases t rule: child_fields.cases) (auto split: sum.splits)

text \<open>
  What a column definition has to be for a field: its name, its ID as identifier, its mapped
  type, a NULL of that type as default, and the same again for every field below it.
\<close>

inductive column_mirrors :: "column_definition \<Rightarrow> schema_field \<Rightarrow> bool" where
  mirror: "MapIcebergType (field_type f) = Inr t \<Longrightarrow>
     list_all2 column_mirrors cs (child_fields (field_type f)) \<Longrightarrow>
     column_mirrors (ColumnDefinition (field_name f) t (field_id f) t cs) f"

inductive_simps column_mirrors_iff: "column_mirrors col f"

lemma size_child_field: "c \<in> set (child_fields (field_type f)) \<Longrightarrow> size c < size f"
proof -
  assume c: "c \<in> set (child_fields (field_type f))"
  have "size c < size (field_type f)" if "c \<in> set (child_fields (field_type f))"
    using that by (cases "field_type f" rule: child_fields.cases)
      (auto simp: less_Suc_eq_le intro: size_list_estimation')
  with c size_field_type [of f] show ?thesis by simp
qed

lemma BuildColumnDefinition_eq:
  "BuildColumnDefinition f =
     (case MapIcebergType (field_type f) of
        Inl e \<Rightarrow> Inl e
      | Inr t \<Rightarrow>
          (case traverse BuildColumnDefinition (child_fields (field_type f)) of
             Inl e \<Rightarrow> Inl e
           | Inr cs \<Rightarrow> Inr (ColumnDefinition (field_name f) t (field_id f) t cs)))"
  by (auto simp: AddChildColumns_eq push_children_def split: sum.splits)

declare BuildColumnDefinition.simps [simp del] AddChildColumns.simps [simp del]

lemma BuildColumnDefinition_mirrors: "BuildColumnDefinition f = Inr col \<longleftrightarrow> column_mirrors col f"
proof (induction "size f" arbitrary: f col rule: less_induct)
  case less
  have "list_all2 (\<lambda>c d. BuildColumnDefinition c = Inr d) (child_fields (field_type f)) cs \<longleftrightarrow>
      list_all2 column_mirrors cs (child_fields (field_type f))" for cs
    unfolding list_all2_conv_all_nth using less size_child_field [of _ f]
    by (metis nth_mem)
  then show ?case
    by (subst BuildColumnDefinition_eq)
       (auto simp: throw_Inr_iff traverse_Inr_iff column_mirrors_iff)
qed

text \<open>A supported field's children are supported, so \<open>AddChildColumns\<close> never throws.\<close>

lemma unsupported_in_child:
  "unsupported_in t = (case t of kUnsupported s \<Rightarrow> {s}
     | _ \<Rightarrow> (\<Union>c \<in> set (child_fields t). unsupported_in (field_type c)))"
  by (cases t rule: child_fields.cases) auto

lemma BuildColumnDefinition_throws:
  "BuildColumnDefinition f = Inl e \<longleftrightarrow> MapIcebergType (field_type f) = Inl e"
proof (induction "size f" arbitrary: f e rule: less_induct)
  case less
  have "\<exists>d. BuildColumnDefinition c = Inr d"
    if t: "MapIcebergType (field_type f) = Inr t" and c: "c \<in> set (child_fields (field_type f))" for t c
  proof (cases "BuildColumnDefinition c")
    case (Inl d)
    with less [OF size_child_field [OF c]] have "unsupported_in (field_type c) \<noteq> {}"
      using MapIcebergType_Inl by fastforce
    moreover have "unsupported_in (field_type f) = {}"
      using t MapIcebergType_Inr_iff by blast
    ultimately show ?thesis
      using c unsupported_in_child [of "field_type f"] by (auto split: iceberg_type.splits)
  qed blast
  then have "traverse BuildColumnDefinition (child_fields (field_type f)) \<noteq> Inl d"
    if "MapIcebergType (field_type f) = Inr t" for t d
    using that traverse_Inl_in_set by fastforce
  then show ?case
    by (subst BuildColumnDefinition_eq) (auto simp: throw_Inl_iff)
qed

section \<open>Coherence of a built column\<close>

text \<open>The types directly inside a DuckDB type.\<close>

fun nested_types :: "logical_type \<Rightarrow> logical_type list" where
  "nested_types (LIST t) = [t]"
| "nested_types (MAP k v) = [k, v]"
| "nested_types (STRUCT kids) = map snd kids"
| "nested_types _ = []"

fun struct_names :: "logical_type \<Rightarrow> string list option" where
  "struct_names (STRUCT kids) = Some (map fst kids)"
| "struct_names _ = None"

text \<open>
  A column that DuckDB's nested readers can use: at every level the children have the types
  that the column's own type nests, in that order and under its struct's names, and the default
  is a NULL of the column's type.
\<close>

fun column_coherent :: "column_definition \<Rightarrow> bool" where
  "column_coherent (ColumnDefinition nm t i d cs) \<longleftrightarrow>
     d = t \<and> map column_type cs = nested_types t \<and>
     (case struct_names t of None \<Rightarrow> True | Some nms \<Rightarrow> map column_name cs = nms) \<and>
     (\<forall>c \<in> set cs. column_coherent c)"

text \<open>The identifiers of a column and of a field, with those below them, in preorder.\<close>

fun column_ids :: "column_definition \<Rightarrow> 32 word list" where
  "column_ids (ColumnDefinition nm t i d cs) = i # concat (map column_ids cs)"

function field_ids :: "schema_field \<Rightarrow> 32 word list" where
  "field_ids f = field_id f # concat (map field_ids (child_fields (field_type f)))"
  by pat_completeness auto
termination
  by (relation "measure size") (auto simp: size_child_field)

declare field_ids.simps [simp del]

lemma mirrors_type: "column_mirrors col f \<Longrightarrow> MapIcebergType (field_type f) = Inr (column_type col)"
  and mirrors_name: "column_mirrors col f \<Longrightarrow> column_name col = field_name f"
  by (auto simp: column_mirrors_iff)

lemma mirrors_nested_types:
  assumes "MapIcebergType ty = Inr t" and "list_all2 column_mirrors cs (child_fields ty)"
  shows "map column_type cs = nested_types t \<and>
    (case struct_names t of None \<Rightarrow> True | Some nms \<Rightarrow> map column_name cs = nms)"
proof (cases ty rule: child_fields.cases)
  case (1 flds)
  with assms(1) obtain kids where t: "t = STRUCT kids"
    and kids: "list_all2 (\<lambda>f k. fst k = field_name f \<and> MapIcebergType (field_type f) = Inr (snd k)) flds kids"
    by (auto simp: MapIcebergType_struct simp del: MapIcebergType.simps)
  from assms(2) 1 have cs: "list_all2 column_mirrors cs flds" by simp
  have "list_all2 (\<lambda>c k. column_type c = snd k \<and> column_name c = fst k) cs kids"
    by (rule list_all2_trans [OF _ cs kids]) (auto dest: mirrors_type mirrors_name)
  then have "map column_type cs = map snd kids \<and> map column_name cs = map fst kids"
    by (induction rule: list_all2_induct) auto
  with t show ?thesis by simp
qed (use assms in \<open>auto simp: throw_Inr_iff list_all2_Cons2 dest!: mirrors_type\<close>)

lemma mirrors_coherent: "column_mirrors col f \<Longrightarrow> column_coherent col"
proof (induction rule: column_mirrors.induct)
  case (mirror f t cs)
  then have all: "list_all2 column_mirrors cs (child_fields (field_type f))"
    and coh: "\<forall>c \<in> set cs. column_coherent c"
    by (auto elim: list_all2_mono simp: list_all2_conv_all_nth in_set_conv_nth)
  with mirrors_nested_types [OF mirror.hyps all] show ?case by simp
qed

lemma mirrors_ids: "column_mirrors col f \<Longrightarrow> column_ids col = field_ids f"
proof (induction rule: column_mirrors.induct)
  case (mirror f t cs)
  then have "map column_ids cs = map field_ids (child_fields (field_type f))"
    by (auto simp: list_all2_conv_all_nth intro!: nth_equalityI)
  then show ?case by (simp add: field_ids.simps)
qed

lemma BuildColumnList_columns:
  assumes "BuildColumnList schema = Inr cols"
  shows "map column_name cols = map field_name schema \<and>
    map (\<lambda>f. MapIcebergType (field_type f)) schema = map (Inr \<circ> column_type) cols \<and>
    (\<forall>col \<in> set cols. column_coherent col) \<and>
    concat (map column_ids cols) = concat (map field_ids schema)"
proof -
  have "list_all2 column_mirrors cols schema"
    using assms by (auto simp: BuildColumnList_def traverse_Inr_iff BuildColumnDefinition_mirrors
        list_all2_conv_all_nth)
  then show ?thesis
    by (induction rule: list_all2_induct)
       (auto dest: mirrors_name mirrors_type mirrors_coherent mirrors_ids)
qed

section \<open>Properties\<close>

text \<open>
  C29. \<open>MapIcebergType\<close> returns exactly on the types with no unsupported type anywhere inside,
  and otherwise throws an \<open>InvalidInputException\<close> that names one of the unsupported types
  inside.
\<close>

theorem MapIcebergType_total:
  "case MapIcebergType ty of
     Inr t \<Rightarrow> unsupported_in ty = {}
   | Inl e \<Rightarrow> \<exists>s \<in> unsupported_in ty. e = InvalidInputException (''Unsupported Iceberg type: '' @ s)"
  using MapIcebergType_Inr_iff [of ty] MapIcebergType_Inl [of ty] by (auto split: sum.splits)

text \<open>
  C28. \<open>BuildColumnDefinition\<close> returns the one column that mirrors the field at every level
  (name, field ID, mapped type, default), and throws exactly when the type mapping throws on the
  field's whole type, with the same exception: building the nested columns adds no failure.
\<close>

theorem BuildColumnDefinition_correct:
  "(BuildColumnDefinition f = Inr col \<longleftrightarrow> column_mirrors col f) \<and>
   (BuildColumnDefinition f = Inl e \<longleftrightarrow> MapIcebergType (field_type f) = Inl e)"
  using BuildColumnDefinition_mirrors BuildColumnDefinition_throws by blast

end
