(* ===== verification/LiteralConversion.thy ===== *)
theory LiteralConversion
  imports TypeMapping
begin

unbundle bit_operations_syntax

text \<open>
  Values and literals (src/src/conversion.cpp, lines 119-175): DuckDB values as the source reads
  them through the \<open>...Value::Get\<close> accessors, iceberg-cpp literals as it builds them,
  \<open>ConvertValueToLiteral\<close> and the guard \<open>ConvertFilterConstant\<close> that keeps NaN and zero out of
  pushed filters. Integers keep their width; floating-point values are IEEE 754 bit patterns.
  The lemmas show that a conversion never changes the value, and what the guard lets through.
\<close>

section \<open>Values and literals\<close>

text \<open>\<open>hugeint_t\<close>: the signed upper and the unsigned lower half of a 128-bit integer.\<close>

record hugeint =
  upper :: "64 word"
  lower :: "64 word"

text \<open>
  \<open>duckdb::Value\<close>, by the accessor that reads it. A decimal carries its width, its scale and what
  \<open>IntegralValue::Get\<close> returns, the unscaled integer. \<open>OtherValue\<close> is a non-NULL value of a type
  that no accessor of the source reads.
\<close>

datatype duckdb_value =
    NullValue logical_type
  | BooleanValue bool
  | TinyIntValue "8 word"
  | SmallIntValue "16 word"
  | IntegerValue "32 word"
  | BigIntValue "64 word"
  | FloatValue "32 word"
  | DoubleValue "64 word"
  | StringValue string
  | DateValue "32 word"
  | TimeValue "64 word"
  | TimestampValue "64 word"
  | TimestampTZValue "64 word"
  | DecimalValue int int hugeint
  | OtherValue logical_type nat

fun IsNull :: "duckdb_value \<Rightarrow> bool" where
  "IsNull (NullValue t) = True"
| "IsNull _ = False"

fun value_type :: "duckdb_value \<Rightarrow> logical_type" where
  "value_type (NullValue t) = t"
| "value_type (BooleanValue b) = BOOLEAN"
| "value_type (TinyIntValue w) = TINYINT"
| "value_type (SmallIntValue w) = SMALLINT"
| "value_type (IntegerValue w) = INTEGER"
| "value_type (BigIntValue w) = BIGINT"
| "value_type (FloatValue w) = FLOAT"
| "value_type (DoubleValue w) = DOUBLE"
| "value_type (StringValue s) = VARCHAR"
| "value_type (DateValue w) = DATE"
| "value_type (TimeValue w) = TIME"
| "value_type (TimestampValue w) = TIMESTAMP"
| "value_type (TimestampTZValue w) = TIMESTAMP_TZ"
| "value_type (DecimalValue width scale h) = DECIMAL width scale"
| "value_type (OtherValue t n) = t"

text \<open>\<open>iceberg::Literal\<close>, by the factory function that builds it.\<close>

datatype literal =
    LiteralBoolean bool
  | LiteralInt "32 word"
  | LiteralLong "64 word"
  | LiteralFloat "32 word"
  | LiteralDouble "64 word"
  | LiteralString string
  | LiteralDate "32 word"
  | LiteralTime "64 word"
  | LiteralTimestamp "64 word"
  | LiteralTimestampTz "64 word"
  | LiteralDecimal "128 word" int int

section \<open>The conversion\<close>

text \<open>\<open>(static_cast<int128_t>(raw.upper) << 64) | raw.lower\<close>.\<close>

definition val128 :: "hugeint \<Rightarrow> 128 word" where
  "val128 raw = push_bit 64 (scast (upper raw)) OR ucast (lower raw)"

fun ConvertValueToLiteral :: "duckdb_value \<Rightarrow> literal option" where
  "ConvertValueToLiteral (NullValue t) = None"
| "ConvertValueToLiteral (BooleanValue b) = Some (LiteralBoolean b)"
| "ConvertValueToLiteral (TinyIntValue w) = Some (LiteralInt (scast w))"
| "ConvertValueToLiteral (SmallIntValue w) = Some (LiteralInt (scast w))"
| "ConvertValueToLiteral (IntegerValue w) = Some (LiteralInt w)"
| "ConvertValueToLiteral (BigIntValue w) = Some (LiteralLong w)"
| "ConvertValueToLiteral (FloatValue w) = Some (LiteralFloat w)"
| "ConvertValueToLiteral (DoubleValue w) = Some (LiteralDouble w)"
| "ConvertValueToLiteral (StringValue s) = Some (LiteralString s)"
| "ConvertValueToLiteral (DateValue w) = Some (LiteralDate w)"
| "ConvertValueToLiteral (TimeValue w) = Some (LiteralTime w)"
| "ConvertValueToLiteral (TimestampValue w) = Some (LiteralTimestamp w)"
| "ConvertValueToLiteral (TimestampTZValue w) = Some (LiteralTimestampTz w)"
| "ConvertValueToLiteral (DecimalValue width scale raw) =
     Some (LiteralDecimal (val128 raw) width scale)"
| "ConvertValueToLiteral (OtherValue t n) = None"

section \<open>Floating point\<close>

text \<open>
  A floating-point number as IEEE 754 reads it: \<open>Finite s m e\<close> is \<open>(-1)^s * m * 2^e\<close>. Every
  binary32 number is a binary64 number, so \<open>GetValue<double>()\<close> of a FLOAT keeps it.
\<close>

datatype fp = NaN | Infinite bool | Finite bool nat int

definition decode_float :: "32 word \<Rightarrow> fp" where
  "decode_float w =
     (let s = bit w 31; e = unat (take_bit 8 (drop_bit 23 w)); f = unat (take_bit 23 w)
      in if e = 255 then (if f = 0 then Infinite s else NaN)
         else if e = 0 then Finite s f (- 149)
         else Finite s (f + 2 ^ 23) (int e - 150))"

definition decode_double :: "64 word \<Rightarrow> fp" where
  "decode_double w =
     (let s = bit w 63; e = unat (take_bit 11 (drop_bit 52 w)); f = unat (take_bit 52 w)
      in if e = 2047 then (if f = 0 then Infinite s else NaN)
         else if e = 0 then Finite s f (- 1074)
         else Finite s (f + 2 ^ 52) (int e - 1075))"

text \<open>\<open>std::isnan(number)\<close> and \<open>number == 0\<close>.\<close>

definition isnan :: "fp \<Rightarrow> bool" where
  "isnan x \<longleftrightarrow> x = NaN"

fun fp_is_zero :: "fp \<Rightarrow> bool" where
  "fp_is_zero (Finite s m e) \<longleftrightarrow> m = 0"
| "fp_is_zero _ \<longleftrightarrow> False"

text \<open>The number of a FLOAT or DOUBLE value, \<open>value.GetValue<double>()\<close>.\<close>

fun float_number :: "duckdb_value \<Rightarrow> fp option" where
  "float_number (FloatValue w) = Some (decode_float w)"
| "float_number (DoubleValue w) = Some (decode_double w)"
| "float_number _ = None"

definition ConvertFilterConstant :: "duckdb_value \<Rightarrow> literal option" where
  "ConvertFilterConstant value =
     (case float_number value of
        Some number \<Rightarrow>
          if isnan number \<or> fp_is_zero number then None else ConvertValueToLiteral value
      | None \<Rightarrow> ConvertValueToLiteral value)"

section \<open>The value is kept\<close>

text \<open>What a value or a literal denotes, independently of how wide it is stored.\<close>

datatype scalar =
    ScalarBool bool
  | ScalarInt int
  | ScalarFp fp
  | ScalarString string
  | ScalarDate int
  | ScalarTime int
  | ScalarTimestamp int
  | ScalarTimestampTz int
  | ScalarDecimal int int int

definition hugeint_value :: "hugeint \<Rightarrow> int" where
  "hugeint_value h = sint (upper h) * 2 ^ 64 + uint (lower h)"

text \<open>\<open>None\<close> for NULL and for the types without a conversion.\<close>

fun value_scalar :: "duckdb_value \<Rightarrow> scalar option" where
  "value_scalar (NullValue t) = None"
| "value_scalar (BooleanValue b) = Some (ScalarBool b)"
| "value_scalar (TinyIntValue w) = Some (ScalarInt (sint w))"
| "value_scalar (SmallIntValue w) = Some (ScalarInt (sint w))"
| "value_scalar (IntegerValue w) = Some (ScalarInt (sint w))"
| "value_scalar (BigIntValue w) = Some (ScalarInt (sint w))"
| "value_scalar (FloatValue w) = Some (ScalarFp (decode_float w))"
| "value_scalar (DoubleValue w) = Some (ScalarFp (decode_double w))"
| "value_scalar (StringValue s) = Some (ScalarString s)"
| "value_scalar (DateValue w) = Some (ScalarDate (sint w))"
| "value_scalar (TimeValue w) = Some (ScalarTime (sint w))"
| "value_scalar (TimestampValue w) = Some (ScalarTimestamp (sint w))"
| "value_scalar (TimestampTZValue w) = Some (ScalarTimestampTz (sint w))"
| "value_scalar (DecimalValue width scale h) = Some (ScalarDecimal (hugeint_value h) width scale)"
| "value_scalar (OtherValue t n) = None"

fun literal_scalar :: "literal \<Rightarrow> scalar" where
  "literal_scalar (LiteralBoolean b) = ScalarBool b"
| "literal_scalar (LiteralInt w) = ScalarInt (sint w)"
| "literal_scalar (LiteralLong w) = ScalarInt (sint w)"
| "literal_scalar (LiteralFloat w) = ScalarFp (decode_float w)"
| "literal_scalar (LiteralDouble w) = ScalarFp (decode_double w)"
| "literal_scalar (LiteralString s) = ScalarString s"
| "literal_scalar (LiteralDate w) = ScalarDate (sint w)"
| "literal_scalar (LiteralTime w) = ScalarTime (sint w)"
| "literal_scalar (LiteralTimestamp w) = ScalarTimestamp (sint w)"
| "literal_scalar (LiteralTimestampTz w) = ScalarTimestampTz (sint w)"
| "literal_scalar (LiteralDecimal w precision scale) = ScalarDecimal (sint w) precision scale"

text \<open>The Iceberg type of a literal.\<close>

fun literal_type :: "literal \<Rightarrow> iceberg_type" where
  "literal_type (LiteralBoolean b) = kBoolean"
| "literal_type (LiteralInt w) = kInt"
| "literal_type (LiteralLong w) = kLong"
| "literal_type (LiteralFloat w) = kFloat"
| "literal_type (LiteralDouble w) = kDouble"
| "literal_type (LiteralString s) = kString"
| "literal_type (LiteralDate w) = kDate"
| "literal_type (LiteralTime w) = kTime"
| "literal_type (LiteralTimestamp w) = kTimestamp"
| "literal_type (LiteralTimestampTz w) = kTimestampTz"
| "literal_type (LiteralDecimal w precision scale) = kDecimal precision scale"

lemma sint_scast_8_32: "sint (scast (w :: 8 word) :: 32 word) = sint w"
  and sint_scast_16_32: "sint (scast (v :: 16 word) :: 32 word) = sint v"
  by (simp_all add: sint_up_scast is_up)

text \<open>The two halves do not overlap, so joining them by bits is adding them, within 128 bits.\<close>

lemma val128_sum: "val128 raw = of_int (hugeint_value raw)"
proof -
  have "push_bit 64 (scast (upper raw)) AND (ucast (lower raw) :: 128 word) = 0"
    by (rule bit_word_eqI) (auto simp: bit_simps dest: bit_imp_le_length)
  then have "val128 raw = push_bit 64 (scast (upper raw)) + ucast (lower raw)"
    by (simp add: val128_def disjunctive_add_eq_or)
  also have "\<dots> = of_int (hugeint_value raw)"
    by (simp add: hugeint_value_def push_bit_eq_mult)
  finally show ?thesis .
qed

lemma hugeint_value_bounds: "- (2 ^ 127) \<le> hugeint_value h \<and> hugeint_value h < 2 ^ 127"
proof -
  have "- 9223372036854775808 \<le> sint (upper h)" and "sint (upper h) \<le> 9223372036854775807"
    using sint_ge [of "upper h"] sint_lt [of "upper h"] by simp_all
  moreover have "uint (lower h) \<le> 18446744073709551615"
    using uint_lt2p [of "lower h"] by simp
  moreover note uint_ge_0 [of "lower h"]
  moreover have "hugeint_value h = sint (upper h) * 18446744073709551616 + uint (lower h)"
    by (simp add: hugeint_value_def)
  ultimately have "- 170141183460469231731687303715884105728 \<le> hugeint_value h"
    and "hugeint_value h \<le> 170141183460469231731687303715884105727"
    by linarith+
  then show ?thesis by simp
qed

lemma sint_val128: "sint (val128 raw) = hugeint_value raw"
  using hugeint_value_bounds [of raw]
  by (simp add: val128_sum sint_sbintrunc' signed_take_bit_int_eq_self)

section \<open>What the filter guard lets through\<close>

text \<open>The sign, exponent and fraction fields make up the word.\<close>

lemma float_fields:
  "w = push_bit 31 (of_bool (bit w 31)) OR push_bit 23 (take_bit 8 (drop_bit 23 w)) OR take_bit 23 (w :: 32 word)"
proof (rule bit_word_eqI)
  fix n assume "n < LENGTH(32)"
  then have "n < 23 \<or> 23 \<le> n \<and> n < 31 \<or> n = 31" by auto
  then show "bit w n \<longleftrightarrow> bit (push_bit 31 (of_bool (bit w 31)) OR
      push_bit 23 (take_bit 8 (drop_bit 23 w)) OR take_bit 23 w) n"
    by (auto simp: bit_simps)
qed

lemma double_fields:
  "w = push_bit 63 (of_bool (bit w 63)) OR push_bit 52 (take_bit 11 (drop_bit 52 w)) OR take_bit 52 (w :: 64 word)"
proof (rule bit_word_eqI)
  fix n assume "n < LENGTH(64)"
  then have "n < 52 \<or> 52 \<le> n \<and> n < 63 \<or> n = 63" by auto
  then show "bit w n \<longleftrightarrow> bit (push_bit 63 (of_bool (bit w 63)) OR
      push_bit 52 (take_bit 11 (drop_bit 52 w)) OR take_bit 52 w) n"
    by (auto simp: bit_simps)
qed

text \<open>Exactly the two bit patterns \<open>0.0\<close> and \<open>-0.0\<close> are zero.\<close>

lemma decode_float_zero: "fp_is_zero (decode_float w) \<longleftrightarrow> w = 0 \<or> w = 0x80000000"
proof
  assume "fp_is_zero (decode_float w)"
  then have "take_bit 8 (drop_bit 23 w) = 0" and "take_bit 23 w = 0"
    by (auto simp: decode_float_def Let_def unat_eq_0 split: if_splits)
  then show "w = 0 \<or> w = 0x80000000"
    using float_fields [of w] by (cases "bit w 31") simp_all
qed (auto simp: decode_float_def Let_def)

lemma decode_double_zero: "fp_is_zero (decode_double w) \<longleftrightarrow> w = 0 \<or> w = 0x8000000000000000"
proof
  assume "fp_is_zero (decode_double w)"
  then have "take_bit 11 (drop_bit 52 w) = 0" and "take_bit 52 w = 0"
    by (auto simp: decode_double_def Let_def unat_eq_0 split: if_splits)
  then show "w = 0 \<or> w = 0x8000000000000000"
    using double_fields [of w] by (cases "bit w 63") simp_all
qed (auto simp: decode_double_def Let_def)

text \<open>Below the sign bit, the encodings of the NaNs are the ones above that of infinity.\<close>

lemma take_bit_split_nat:
  "take_bit (k + j) (n :: nat) = 2 ^ k * take_bit j (drop_bit k n) + take_bit k n"
  by (simp add: take_bit_eq_mod drop_bit_eq_div power_add mod_mult2_eq)

lemma decode_float_nan: "isnan (decode_float w) \<longleftrightarrow> 0x7F800000 < take_bit 31 w"
proof -
  have "unat (take_bit 31 w) =
      2 ^ 23 * unat (take_bit 8 (drop_bit 23 w)) + unat (take_bit 23 w)"
    using take_bit_split_nat [of 23 8 "unat w"] by (simp add: unsigned_take_bit_eq unat_drop_bit_eq)
  moreover have "unat (take_bit 8 (drop_bit 23 w)) < 256" and "unat (take_bit 23 w) < 2 ^ 23"
    using take_bit_nat_less_exp [of 8 "unat (drop_bit 23 w)"] take_bit_nat_less_exp [of 23 "unat w"]
    by (simp_all only: unsigned_take_bit_eq) simp
  ultimately show ?thesis
    by (auto simp: decode_float_def Let_def isnan_def word_less_nat_alt)
qed

lemma decode_double_nan: "isnan (decode_double w) \<longleftrightarrow> 0x7FF0000000000000 < take_bit 63 w"
proof -
  have "unat (take_bit 63 w) =
      2 ^ 52 * unat (take_bit 11 (drop_bit 52 w)) + unat (take_bit 52 w)"
    using take_bit_split_nat [of 52 11 "unat w"] by (simp add: unsigned_take_bit_eq unat_drop_bit_eq)
  moreover have "unat (take_bit 11 (drop_bit 52 w)) < 2048" and "unat (take_bit 52 w) < 2 ^ 52"
    using take_bit_nat_less_exp [of 11 "unat (drop_bit 52 w)"] take_bit_nat_less_exp [of 52 "unat w"]
    by (simp_all only: unsigned_take_bit_eq) simp
  ultimately show ?thesis
    by (auto simp: decode_double_def Let_def isnan_def word_less_nat_alt)
qed

text \<open>The constants that must not be pushed down, by their bits: the two zeros and the NaNs.\<close>

fun unsafe_constant :: "duckdb_value \<Rightarrow> bool" where
  "unsafe_constant (FloatValue w) \<longleftrightarrow> w = 0 \<or> w = 0x80000000 \<or> 0x7F800000 < take_bit 31 w"
| "unsafe_constant (DoubleValue w) \<longleftrightarrow>
     w = 0 \<or> w = 0x8000000000000000 \<or> 0x7FF0000000000000 < take_bit 63 w"
| "unsafe_constant _ \<longleftrightarrow> False"

lemma ConvertFilterConstant_eq:
  "ConvertFilterConstant v = (if unsafe_constant v then None else ConvertValueToLiteral v)"
  by (cases v) (auto simp: ConvertFilterConstant_def decode_float_zero decode_double_zero
      decode_float_nan decode_double_nan)

lemma ConvertFilterConstant_Some:
  "ConvertFilterConstant v = Some l \<longleftrightarrow>
     ConvertValueToLiteral v = Some l \<and>
     (\<forall>n. float_number v = Some n \<longrightarrow> \<not> isnan n \<and> \<not> fp_is_zero n)"
  by (auto simp: ConvertFilterConstant_def split: option.splits)

lemma value_scalar_eq: "map_option literal_scalar (ConvertValueToLiteral v) = value_scalar v"
  by (cases v) (auto simp: sint_scast_8_32 sint_scast_16_32 sint_val128)

lemma literal_type_eq:
  "MapIcebergType ty = Inr (value_type v) \<Longrightarrow> ConvertValueToLiteral v = Some l \<Longrightarrow> literal_type l = ty"
  by (cases ty; cases v) (auto simp: throw_Inr_iff)

section \<open>Properties\<close>

text \<open>
  C30. Converting a value to a literal keeps the value: integers keep their number through sign
  extension, a decimal's 128-bit literal is the number its two 64-bit halves stand for, with the
  same width and scale, and floating-point bits are kept. A value has no literal exactly if it is
  NULL or of a type without a conversion.
\<close>

theorem ConvertValueToLiteral_keeps_value:
  "map_option literal_scalar (ConvertValueToLiteral v) = value_scalar v"
  by (rule value_scalar_eq)

text \<open>
  C31. The literal has the column's own Iceberg type: for a constant whose DuckDB type is the one
  the column's type maps to, the literal that is pushed down is of the column's type, decimals
  with the same precision and scale.
\<close>

theorem ConvertValueToLiteral_type:
  assumes "MapIcebergType ty = Inr (value_type v)" and "ConvertValueToLiteral v = Some l"
  shows "literal_type l = ty"
  using assms by (rule literal_type_eq)

theorem ConvertValueToLiteral_type_witness:
  "MapIcebergType (kDecimal 9 2) = Inr (value_type (DecimalValue 9 2 \<lparr>upper = 0, lower = 125\<rparr>)) \<and>
   (\<exists>l. ConvertValueToLiteral (DecimalValue 9 2 \<lparr>upper = 0, lower = 125\<rparr>) = Some l \<and>
        literal_type l = kDecimal 9 2)"
proof -
  let ?v = "DecimalValue 9 2 \<lparr>upper = 0, lower = 125\<rparr>"
  obtain l where l: "ConvertValueToLiteral ?v = Some l" by simp
  have "literal_type l = kDecimal 9 2"
    by (rule ConvertValueToLiteral_type [OF _ l]) simp
  with l show ?thesis by simp
qed

end
