(* ===== verification/ScalarOrder.thy ===== *)
theory ScalarOrder
  imports LiteralConversion
begin

text \<open>
  How the two sides of a pushed filter compare values: DuckDB, which evaluates the filter on the rows, and
  iceberg-cpp, which prunes files by the translated expression. They agree except on floating point:
  DuckDB takes the two zeros for equal and NaN for equal to itself and greater than every number, while
  iceberg-cpp orders \<open>-0.0\<close> before \<open>+0.0\<close> and Iceberg's bounds leave NaN out. The lemmas show that they
  agree on every constant that is neither NaN nor zero, on every value but NaN.
\<close>

section \<open>Comparisons\<close>

text \<open>\<open>ExpressionType\<close>: the comparisons the source translates, and the others.\<close>

datatype comparison =
    COMPARE_EQUAL
  | COMPARE_NOTEQUAL
  | COMPARE_LESSTHAN
  | COMPARE_LESSTHANOREQUALTO
  | COMPARE_GREATERTHAN
  | COMPARE_GREATERTHANOREQUALTO
  | OTHER_COMPARISON nat

section \<open>The order of floating-point numbers\<close>

text \<open>Numbers as numbers, brought to the smaller exponent; NaN is related to nothing.\<close>

definition signed :: "bool \<Rightarrow> nat \<Rightarrow> int" where
  "signed s m = (if s then - int m else int m)"

fun fp_less :: "fp \<Rightarrow> fp \<Rightarrow> bool" where
  "fp_less (Finite s m e) (Finite t n f) \<longleftrightarrow>
     signed s m * 2 ^ nat (e - min e f) < signed t n * 2 ^ nat (f - min e f)"
| "fp_less (Infinite s) (Infinite t) \<longleftrightarrow> s \<and> \<not> t"
| "fp_less (Infinite s) (Finite t n f) \<longleftrightarrow> s"
| "fp_less (Finite s m e) (Infinite t) \<longleftrightarrow> \<not> t"
| "fp_less _ _ \<longleftrightarrow> False"

fun fp_negative :: "fp \<Rightarrow> bool" where
  "fp_negative (Finite s m e) \<longleftrightarrow> s"
| "fp_negative (Infinite s) \<longleftrightarrow> s"
| "fp_negative NaN \<longleftrightarrow> False"

definition duckdb_fp_less :: "fp \<Rightarrow> fp \<Rightarrow> bool" where
  "duckdb_fp_less a b \<longleftrightarrow> (if isnan b then \<not> isnan a else fp_less a b)"

definition iceberg_fp_less :: "fp \<Rightarrow> fp \<Rightarrow> bool" where
  "iceberg_fp_less a b \<longleftrightarrow>
     fp_less a b \<or> fp_is_zero a \<and> fp_is_zero b \<and> fp_negative a \<and> \<not> fp_negative b"

text \<open>Zeros are equal as numbers, so only the sign tells them apart.\<close>

lemma fp_less_zeros: "fp_is_zero a \<Longrightarrow> fp_is_zero b \<Longrightarrow> \<not> fp_less a b"
  by (cases a; cases b) (simp_all add: signed_def)

lemma iceberg_zeros:
  "fp_is_zero a \<Longrightarrow> fp_is_zero b \<Longrightarrow> iceberg_fp_less a b \<longleftrightarrow> fp_negative a \<and> \<not> fp_negative b"
  by (simp add: iceberg_fp_less_def fp_less_zeros)

lemma fp_less_nan [simp]: "isnan a \<Longrightarrow> \<not> fp_less a b" "isnan b \<Longrightarrow> \<not> fp_less a b"
  by (cases a; cases b; simp add: isnan_def)+

section \<open>The comparison of scalars\<close>

fun scalar_less :: "(fp \<Rightarrow> fp \<Rightarrow> bool) \<Rightarrow> scalar \<Rightarrow> scalar \<Rightarrow> bool" where
  "scalar_less fpless (ScalarBool a) (ScalarBool b) \<longleftrightarrow> \<not> a \<and> b"
| "scalar_less fpless (ScalarInt a) (ScalarInt b) \<longleftrightarrow> a < b"
| "scalar_less fpless (ScalarFp a) (ScalarFp b) \<longleftrightarrow> fpless a b"
| "scalar_less fpless (ScalarString a) (ScalarString b) \<longleftrightarrow> a < b"
| "scalar_less fpless (ScalarDate a) (ScalarDate b) \<longleftrightarrow> a < b"
| "scalar_less fpless (ScalarTime a) (ScalarTime b) \<longleftrightarrow> a < b"
| "scalar_less fpless (ScalarTimestamp a) (ScalarTimestamp b) \<longleftrightarrow> a < b"
| "scalar_less fpless (ScalarTimestampTz a) (ScalarTimestampTz b) \<longleftrightarrow> a < b"
| "scalar_less fpless (ScalarDecimal a p s) (ScalarDecimal b q t) \<longleftrightarrow> a < b"
| "scalar_less fpless _ _ \<longleftrightarrow> False"

text \<open>Scalars of one kind, decimals of one scale.\<close>

fun comparable :: "scalar \<Rightarrow> scalar \<Rightarrow> bool" where
  "comparable (ScalarBool a) (ScalarBool b) \<longleftrightarrow> True"
| "comparable (ScalarInt a) (ScalarInt b) \<longleftrightarrow> True"
| "comparable (ScalarFp a) (ScalarFp b) \<longleftrightarrow> True"
| "comparable (ScalarString a) (ScalarString b) \<longleftrightarrow> True"
| "comparable (ScalarDate a) (ScalarDate b) \<longleftrightarrow> True"
| "comparable (ScalarTime a) (ScalarTime b) \<longleftrightarrow> True"
| "comparable (ScalarTimestamp a) (ScalarTimestamp b) \<longleftrightarrow> True"
| "comparable (ScalarTimestampTz a) (ScalarTimestampTz b) \<longleftrightarrow> True"
| "comparable (ScalarDecimal a p s) (ScalarDecimal b q t) \<longleftrightarrow> s = t"
| "comparable _ _ \<longleftrightarrow> False"

fun by_order :: "comparison \<Rightarrow> bool \<Rightarrow> bool \<Rightarrow> bool" where
  "by_order COMPARE_EQUAL lt gt \<longleftrightarrow> \<not> lt \<and> \<not> gt"
| "by_order COMPARE_NOTEQUAL lt gt \<longleftrightarrow> lt \<or> gt"
| "by_order COMPARE_LESSTHAN lt gt \<longleftrightarrow> lt"
| "by_order COMPARE_LESSTHANOREQUALTO lt gt \<longleftrightarrow> \<not> gt"
| "by_order COMPARE_GREATERTHAN lt gt \<longleftrightarrow> gt"
| "by_order COMPARE_GREATERTHANOREQUALTO lt gt \<longleftrightarrow> \<not> lt"
| "by_order (OTHER_COMPARISON n) lt gt \<longleftrightarrow> False"

text \<open>\<open>a c b\<close>, in the order given by \<open>fpless\<close> on floating-point numbers.\<close>

definition scalar_compare :: "(fp \<Rightarrow> fp \<Rightarrow> bool) \<Rightarrow> comparison \<Rightarrow> scalar \<Rightarrow> scalar \<Rightarrow> bool" where
  "scalar_compare fpless c a b \<longleftrightarrow>
     comparable a b \<and> by_order c (scalar_less fpless a b) (scalar_less fpless b a)"

fun scalar_nan :: "scalar \<Rightarrow> bool" where
  "scalar_nan (ScalarFp x) \<longleftrightarrow> isnan x"
| "scalar_nan _ \<longleftrightarrow> False"

fun scalar_zero :: "scalar \<Rightarrow> bool" where
  "scalar_zero (ScalarFp x) \<longleftrightarrow> fp_is_zero x"
| "scalar_zero _ \<longleftrightarrow> False"

text \<open>Floating-point scalars are those of FLOAT and DOUBLE values.\<close>

lemma value_scalar_fp: "value_scalar v = Some (ScalarFp x) \<longleftrightarrow> float_number v = Some x"
  by (cases v) auto

lemma scalar_nan_iff: "value_scalar v = Some a \<Longrightarrow> scalar_nan a \<longleftrightarrow> (\<exists>x. float_number v = Some x \<and> isnan x)"
  by (cases a; cases v) auto

lemma scalar_zero_iff: "value_scalar v = Some a \<Longrightarrow> scalar_zero a \<longleftrightarrow> (\<exists>x. float_number v = Some x \<and> fp_is_zero x)"
  by (cases a; cases v) auto

section \<open>Where the orders agree\<close>

text \<open>The comparisons with a number that DuckDB's NaN satisfies.\<close>

definition nan_satisfies :: "comparison \<Rightarrow> bool" where
  "nan_satisfies c \<longleftrightarrow> c \<in> {COMPARE_NOTEQUAL, COMPARE_GREATERTHAN, COMPARE_GREATERTHANOREQUALTO}"

lemma scalar_less_agrees:
  assumes "\<not> scalar_nan a" and "\<not> scalar_nan b" and "\<not> scalar_zero b"
  shows "scalar_less duckdb_fp_less a b = scalar_less iceberg_fp_less a b"
    and "scalar_less duckdb_fp_less b a = scalar_less iceberg_fp_less b a"
  using assms by (cases a; cases b; simp add: duckdb_fp_less_def iceberg_fp_less_def)+

lemma nan_compared:
  assumes "scalar_nan a" and "\<not> scalar_nan b" and "scalar_compare duckdb_fp_less c a b"
  shows "nan_satisfies c"
proof -
  obtain x where a: "a = ScalarFp x" "isnan x" using assms(1) by (cases a) simp_all
  with assms(3) obtain y where b: "b = ScalarFp y" by (cases b) (simp_all add: scalar_compare_def)
  with assms(2) have "\<not> isnan y" by simp
  with assms(3) a b show ?thesis
    by (cases c) (simp_all add: scalar_compare_def duckdb_fp_less_def nan_satisfies_def)
qed

lemma compare_agrees:
  assumes "\<not> scalar_nan b" and "\<not> scalar_zero b" and "scalar_compare duckdb_fp_less c a b"
    and "scalar_nan a \<Longrightarrow> \<not> nan_satisfies c"
  shows "\<not> scalar_nan a \<and> scalar_compare iceberg_fp_less c a b"
proof -
  have "\<not> scalar_nan a" using nan_compared [OF _ assms(1,3)] assms(4) by blast
  with scalar_less_agrees [OF this assms(1,2)] assms(3) show ?thesis by (simp add: scalar_compare_def)
qed

text \<open>Without the exceptions they do not: \<open>-0.0 = 0.0\<close> and \<open>NaN > 1.0\<close> hold in DuckDB only.\<close>

lemma decode_example:
  "decode_double 0 = Finite False 0 (- 1074)" "decode_double 0x8000000000000000 = Finite True 0 (- 1074)"
  "decode_double 0x3FF0000000000000 = Finite False 4503599627370496 (- 52)"
  "decode_double 0x7FF8000000000000 = NaN"
  by (simp_all add: decode_double_def Let_def drop_bit_eq_div take_bit_eq_mod)

lemma orders_differ:
  "scalar_compare duckdb_fp_less COMPARE_EQUAL (ScalarFp (decode_double 0x8000000000000000)) (ScalarFp (decode_double 0))"
  "\<not> scalar_compare iceberg_fp_less COMPARE_EQUAL (ScalarFp (decode_double 0x8000000000000000)) (ScalarFp (decode_double 0))"
  "scalar_compare duckdb_fp_less COMPARE_GREATERTHAN (ScalarFp (decode_double 0x7FF8000000000000))
     (ScalarFp (decode_double 0x3FF0000000000000))"
  "\<not> scalar_compare iceberg_fp_less COMPARE_GREATERTHAN (ScalarFp (decode_double 0x7FF8000000000000))
     (ScalarFp (decode_double 0x3FF0000000000000))"
  by (simp_all add: decode_example scalar_compare_def duckdb_fp_less_def iceberg_fp_less_def signed_def isnan_def)

end
