(* ===== verification/FilterTranslation.thy ===== *)
theory FilterTranslation
  imports ScalarOrder
begin

text \<open>
  Filter translation (src/src/conversion.cpp, lines 177-278): DuckDB table filters become an
  iceberg-cpp expression, with whatever cannot be translated widened to \<open>AlwaysTrue\<close>.
  iceberg-cpp's expression factory is not part of the repository, so it is a parameter: the
  record \<open>expressions\<close> of its functions. What the source relies on are the laws
  \<open>expression_laws\<close> (And and Or are conjunction and disjunction), \<open>predicate_laws\<close> (what each predicate
  means for a value and a literal, in iceberg-cpp's order) and \<open>simplification_laws\<close> (the factory
  simplifies constants away, as the repository's tests for it show). The lemmas show that no row a
  filter keeps is excluded, that nothing is widened without need, and when planning can prune at all.
\<close>

section \<open>Filters and expressions\<close>

text \<open>\<open>TableFilter\<close> by \<open>filter_type\<close>; \<open>OtherFilter\<close> is any type of the \<open>default\<close> branch.\<close>

datatype table_filter =
    ConstantFilter comparison duckdb_value
  | IsNullFilter
  | IsNotNullFilter
  | InFilter "duckdb_value list"
  | ConjunctionAndFilter "table_filter list"
  | ConjunctionOrFilter "table_filter list"
  | OptionalFilter "table_filter option"
  | OtherFilter nat

text \<open>\<open>TableFilterSet::filters\<close>, a \<open>std::map\<close> from column index to filter.\<close>

type_synonym table_filter_set = "(nat, table_filter) omap"

text \<open>\<open>iceberg::Expression::Operation\<close>.\<close>

datatype operation = kTrue | kOtherOperation nat

text \<open>The functions of \<open>iceberg::Expressions\<close>, and \<open>Expression::op\<close>.\<close>

record 'e expressions =
  AlwaysTrue :: 'e
  AlwaysFalse :: 'e
  And :: "'e \<Rightarrow> 'e \<Rightarrow> 'e"
  Or :: "'e \<Rightarrow> 'e \<Rightarrow> 'e"
  Equal :: "string \<Rightarrow> literal \<Rightarrow> 'e"
  NotEqual :: "string \<Rightarrow> literal \<Rightarrow> 'e"
  LessThan :: "string \<Rightarrow> literal \<Rightarrow> 'e"
  LessThanOrEqual :: "string \<Rightarrow> literal \<Rightarrow> 'e"
  GreaterThan :: "string \<Rightarrow> literal \<Rightarrow> 'e"
  GreaterThanOrEqual :: "string \<Rightarrow> literal \<Rightarrow> 'e"
  In :: "string \<Rightarrow> literal list \<Rightarrow> 'e"
  ColumnIsNull :: "string \<Rightarrow> 'e"
  ColumnNotNull :: "string \<Rightarrow> 'e"
  expression_op :: "'e \<Rightarrow> operation"

section \<open>The translation\<close>

definition TranslateConstantFilter ::
  "'e expressions \<Rightarrow> string \<Rightarrow> comparison \<Rightarrow> duckdb_value \<Rightarrow> 'e" where
  "TranslateConstantFilter E column comparison_type constant =
     (case ConvertFilterConstant constant of
        None \<Rightarrow> AlwaysTrue E
      | Some l \<Rightarrow>
          (case comparison_type of
             COMPARE_EQUAL \<Rightarrow> Equal E column l
           | COMPARE_NOTEQUAL \<Rightarrow> NotEqual E column l
           | COMPARE_LESSTHAN \<Rightarrow> LessThan E column l
           | COMPARE_LESSTHANOREQUALTO \<Rightarrow> LessThanOrEqual E column l
           | COMPARE_GREATERTHAN \<Rightarrow> GreaterThan E column l
           | COMPARE_GREATERTHANOREQUALTO \<Rightarrow> GreaterThanOrEqual E column l
           | OTHER_COMPARISON n \<Rightarrow> AlwaysTrue E))"

text \<open>
  The loop over the values, with the literals gathered so far. The assertion after it, that
  there is a literal, is compiled into debug builds only.
\<close>

fun TranslateInFilter_from ::
  "'e expressions \<Rightarrow> string \<Rightarrow> literal list \<Rightarrow> duckdb_value list \<Rightarrow> 'e" where
  "TranslateInFilter_from E column literals [] = In E column literals"
| "TranslateInFilter_from E column literals (val # vals) =
     (case ConvertFilterConstant val of
        Some lit \<Rightarrow> TranslateInFilter_from E column (literals @ [lit]) vals
      | None \<Rightarrow> AlwaysTrue E)"

definition TranslateInFilter :: "'e expressions \<Rightarrow> string \<Rightarrow> duckdb_value list \<Rightarrow> 'e" where
  "TranslateInFilter E column vals = TranslateInFilter_from E column [] vals"

text \<open>The two folds over translated children.\<close>

definition TranslateConjunctionAnd :: "'e expressions \<Rightarrow> 'e list \<Rightarrow> 'e" where
  "TranslateConjunctionAnd E translated = foldl (And E) (AlwaysTrue E) translated"

definition TranslateConjunctionOr :: "'e expressions \<Rightarrow> 'e list \<Rightarrow> 'e" where
  "TranslateConjunctionOr E translated = foldl (Or E) (AlwaysFalse E) translated"

fun TranslateOrWidenFilter :: "'e expressions \<Rightarrow> table_filter \<Rightarrow> schema_field \<Rightarrow> 'e" where
  "TranslateOrWidenFilter E (ConstantFilter c v) field =
     TranslateConstantFilter E (field_name field) c v"
| "TranslateOrWidenFilter E IsNullFilter field = ColumnIsNull E (field_name field)"
| "TranslateOrWidenFilter E IsNotNullFilter field = ColumnNotNull E (field_name field)"
| "TranslateOrWidenFilter E (InFilter vals) field = TranslateInFilter E (field_name field) vals"
| "TranslateOrWidenFilter E (ConjunctionAndFilter child_filters) field =
     TranslateConjunctionAnd E (map (\<lambda>child. TranslateOrWidenFilter E child field) child_filters)"
| "TranslateOrWidenFilter E (ConjunctionOrFilter child_filters) field =
     TranslateConjunctionOr E (map (\<lambda>child. TranslateOrWidenFilter E child field) child_filters)"
| "TranslateOrWidenFilter E (OptionalFilter (Some child_filter)) field =
     TranslateOrWidenFilter E child_filter field"
| "TranslateOrWidenFilter E (OptionalFilter None) field = AlwaysTrue E"
| "TranslateOrWidenFilter E (OtherFilter n) field = AlwaysTrue E"

definition TranslateOrWidenFilters ::
  "'e expressions \<Rightarrow> table_filter_set \<Rightarrow> iceberg_schema \<Rightarrow> 'e" where
  "TranslateOrWidenFilters E filters schema =
     foldl
       (\<lambda>combined (column_idx, filt).
          if length schema \<le> column_idx then combined
          else And E combined (TranslateOrWidenFilter E filt (schema ! column_idx)))
       (AlwaysTrue E) filters"

section \<open>What filters and expressions mean\<close>

text \<open>
  DuckDB's atomic conditions on the value of a column, of type \<open>'v\<close>, are parameters. A filter
  keeps a value according to its structure; an absent optional filter keeps everything.
\<close>

record 'v filter_semantics =
  compare_keeps :: "comparison \<Rightarrow> duckdb_value \<Rightarrow> 'v \<Rightarrow> bool"
  null_value :: "'v \<Rightarrow> bool"
  other_keeps :: "nat \<Rightarrow> 'v \<Rightarrow> bool"

fun filter_keeps :: "'v filter_semantics \<Rightarrow> table_filter \<Rightarrow> 'v \<Rightarrow> bool" where
  "filter_keeps D (ConstantFilter c v) x = compare_keeps D c v x"
| "filter_keeps D IsNullFilter x = null_value D x"
| "filter_keeps D IsNotNullFilter x = (\<not> null_value D x)"
| "filter_keeps D (InFilter vals) x = (\<exists>v \<in> set vals. compare_keeps D COMPARE_EQUAL v x)"
| "filter_keeps D (ConjunctionAndFilter fs) x = (\<forall>f \<in> set fs. filter_keeps D f x)"
| "filter_keeps D (ConjunctionOrFilter fs) x = (\<exists>f \<in> set fs. filter_keeps D f x)"
| "filter_keeps D (OptionalFilter (Some f)) x = filter_keeps D f x"
| "filter_keeps D (OptionalFilter None) x = True"
| "filter_keeps D (OtherFilter n) x = other_keeps D n x"

text \<open>A row maps column names to values; a set of filters keeps it if each filter on a column of
  the schema does.\<close>

definition filters_keep ::
  "'v filter_semantics \<Rightarrow> table_filter_set \<Rightarrow> iceberg_schema \<Rightarrow> (string \<Rightarrow> 'v) \<Rightarrow> bool" where
  "filters_keep D filters schema r \<longleftrightarrow>
     (\<forall>(i, f) \<in> set filters. i < length schema \<longrightarrow> filter_keeps D f (r (field_name (schema ! i))))"

text \<open>
  DuckDB's own semantics, on rows of DuckDB values: a comparison keeps a value of the constant's kind
  that is so related to it in DuckDB's order, and no NULL. How DuckDB compares with a constant that has no
  scalar, by other comparisons or in other filters does not matter, because all these widen.
\<close>

definition duckdb_semantics ::
  "(comparison \<Rightarrow> duckdb_value \<Rightarrow> duckdb_value \<Rightarrow> bool) \<Rightarrow> (nat \<Rightarrow> duckdb_value \<Rightarrow> bool) \<Rightarrow>
   duckdb_value filter_semantics" where
  "duckdb_semantics other_compare other =
     \<lparr>compare_keeps = (\<lambda>c v x.
        (case (value_scalar v, c) of
           (None, _) \<Rightarrow> other_compare c v x
         | (Some b, OTHER_COMPARISON n) \<Rightarrow> other_compare c v x
         | (Some b, _) \<Rightarrow>
             (case value_scalar x of None \<Rightarrow> False | Some a \<Rightarrow> scalar_compare duckdb_fp_less c a b))),
      null_value = IsNull, other_keeps = other\<rparr>"

text \<open>
  Where a filter may keep NaN that Iceberg's bounds leave out: it has a comparison that DuckDB's NaN
  satisfies with a number. \<open>nan_safe\<close>: the row has no NaN in a column with such a filter.
\<close>

fun may_keep_nan :: "table_filter \<Rightarrow> bool" where
  "may_keep_nan (ConstantFilter c v) \<longleftrightarrow> nan_satisfies c"
| "may_keep_nan (ConjunctionAndFilter fs) \<longleftrightarrow> (\<exists>f \<in> set fs. may_keep_nan f)"
| "may_keep_nan (ConjunctionOrFilter fs) \<longleftrightarrow> (\<exists>f \<in> set fs. may_keep_nan f)"
| "may_keep_nan (OptionalFilter (Some f)) \<longleftrightarrow> may_keep_nan f"
| "may_keep_nan _ \<longleftrightarrow> False"

definition nan_value :: "duckdb_value \<Rightarrow> bool" where
  "nan_value v \<longleftrightarrow> (case float_number v of Some x \<Rightarrow> isnan x | None \<Rightarrow> False)"

definition nan_safe :: "table_filter_set \<Rightarrow> iceberg_schema \<Rightarrow> (string \<Rightarrow> duckdb_value) \<Rightarrow> bool" where
  "nan_safe filters schema r \<longleftrightarrow>
     (\<forall>(i, f) \<in> set filters. i < length schema \<longrightarrow> may_keep_nan f \<longrightarrow> \<not> nan_value (r (field_name (schema ! i))))"

text \<open>iceberg-cpp's side: \<open>holds e r\<close> says that expression \<open>e\<close> is true of row \<open>r\<close>.\<close>

definition expression_laws :: "'e expressions \<Rightarrow> ('e \<Rightarrow> 'r \<Rightarrow> bool) \<Rightarrow> bool" where
  "expression_laws E holds \<longleftrightarrow>
     (\<forall>r. holds (AlwaysTrue E) r \<and> \<not> holds (AlwaysFalse E) r) \<and>
     (\<forall>a b r. holds (And E a b) r \<longleftrightarrow> holds a r \<and> holds b r) \<and>
     (\<forall>a b r. holds (Or E a b) r \<longleftrightarrow> holds a r \<or> holds b r)"

text \<open>The predicate that a comparison is translated to.\<close>

fun predicate_of :: "'e expressions \<Rightarrow> comparison \<Rightarrow> string \<Rightarrow> literal \<Rightarrow> 'e" where
  "predicate_of E COMPARE_EQUAL = Equal E"
| "predicate_of E COMPARE_NOTEQUAL = NotEqual E"
| "predicate_of E COMPARE_LESSTHAN = LessThan E"
| "predicate_of E COMPARE_LESSTHANOREQUALTO = LessThanOrEqual E"
| "predicate_of E COMPARE_GREATERTHAN = GreaterThan E"
| "predicate_of E COMPARE_GREATERTHANOREQUALTO = GreaterThanOrEqual E"
| "predicate_of E (OTHER_COMPARISON n) = (\<lambda>column l. AlwaysTrue E)"

text \<open>
  What the predicates mean, where neither the value nor a literal is NaN: a predicate is true of a value
  that is so related to the literal in iceberg-cpp's order, \<open>In\<close> of one equal to one of the literals, and
  the NULL tests are what they say.
\<close>

definition predicate_laws :: "'e expressions \<Rightarrow> ('e \<Rightarrow> (string \<Rightarrow> duckdb_value) \<Rightarrow> bool) \<Rightarrow> bool" where
  "predicate_laws E holds \<longleftrightarrow>
     (\<forall>c column l r a. value_scalar (r column) = Some a \<longrightarrow> \<not> scalar_nan a \<longrightarrow> \<not> scalar_nan (literal_scalar l) \<longrightarrow>
        scalar_compare iceberg_fp_less c a (literal_scalar l) \<longrightarrow> holds (predicate_of E c column l) r) \<and>
     (\<forall>column ls l r a. value_scalar (r column) = Some a \<longrightarrow> \<not> scalar_nan a \<longrightarrow>
        (\<forall>l \<in> set ls. \<not> scalar_nan (literal_scalar l)) \<longrightarrow> l \<in> set ls \<longrightarrow>
        scalar_compare iceberg_fp_less COMPARE_EQUAL a (literal_scalar l) \<longrightarrow> holds (In E column ls) r) \<and>
     (\<forall>column r. IsNull (r column) \<longrightarrow> holds (ColumnIsNull E column) r) \<and>
     (\<forall>column r. \<not> IsNull (r column) \<longrightarrow> holds (ColumnNotNull E column) r)"

text \<open>
  The factory simplifies constants: an expression's operation is \<open>kTrue\<close> exactly if it is
  \<open>AlwaysTrue\<close>, a conjunction of such, or a disjunction with one (src/test/test_filter_translation.cpp).
\<close>

definition simplification_laws :: "'e expressions \<Rightarrow> bool" where
  "simplification_laws E \<longleftrightarrow>
     expression_op E (AlwaysTrue E) = kTrue \<and> expression_op E (AlwaysFalse E) \<noteq> kTrue \<and>
     (\<forall>a b. expression_op E (And E a b) = kTrue \<longleftrightarrow>
        expression_op E a = kTrue \<and> expression_op E b = kTrue) \<and>
     (\<forall>a b. expression_op E (Or E a b) = kTrue \<longleftrightarrow>
        expression_op E a = kTrue \<or> expression_op E b = kTrue) \<and>
     (\<forall>c column l. expression_op E (predicate_of E c column l) = kTrue \<longleftrightarrow>
        (\<exists>n. c = OTHER_COMPARISON n)) \<and>
     (\<forall>column ls. expression_op E (In E column ls) \<noteq> kTrue) \<and>
     (\<forall>column. expression_op E (ColumnIsNull E column) \<noteq> kTrue) \<and>
     (\<forall>column. expression_op E (ColumnNotNull E column) \<noteq> kTrue)"

text \<open>
  The filters that widen to \<open>AlwaysTrue\<close>: an atom with a constant that has no literal or a
  comparison that has no predicate; a conjunction all of whose children widen, a disjunction one
  of whose children does.
\<close>

fun widens :: "table_filter \<Rightarrow> bool" where
  "widens (ConstantFilter c v) \<longleftrightarrow>
     ConvertFilterConstant v = None \<or> (\<exists>n. c = OTHER_COMPARISON n)"
| "widens IsNullFilter \<longleftrightarrow> False"
| "widens IsNotNullFilter \<longleftrightarrow> False"
| "widens (InFilter vals) \<longleftrightarrow> (\<exists>v \<in> set vals. ConvertFilterConstant v = None)"
| "widens (ConjunctionAndFilter fs) \<longleftrightarrow> (\<forall>f \<in> set fs. widens f)"
| "widens (ConjunctionOrFilter fs) \<longleftrightarrow> (\<exists>f \<in> set fs. widens f)"
| "widens (OptionalFilter (Some f)) \<longleftrightarrow> widens f"
| "widens (OptionalFilter None) \<longleftrightarrow> True"
| "widens (OtherFilter n) \<longleftrightarrow> True"

section \<open>Lemmas\<close>

lemma TranslateConstantFilter_eq:
  "TranslateConstantFilter E column c v =
     (case ConvertFilterConstant v of None \<Rightarrow> AlwaysTrue E | Some l \<Rightarrow> predicate_of E c column l)"
  by (cases c) (auto simp: TranslateConstantFilter_def split: option.splits)

text \<open>The loop over an IN list's values either converts them all, or widens.\<close>

lemma TranslateInFilter_from_eq:
  "TranslateInFilter_from E column ls vals =
     (case those (map ConvertFilterConstant vals) of
        None \<Rightarrow> AlwaysTrue E | Some ms \<Rightarrow> In E column (ls @ ms))"
  by (induction vals arbitrary: ls) (auto split: option.splits)

lemma TranslateInFilter_eq:
  "TranslateInFilter E column vals =
     (case those (map ConvertFilterConstant vals) of
        None \<Rightarrow> AlwaysTrue E | Some ms \<Rightarrow> In E column ms)"
  by (simp add: TranslateInFilter_def TranslateInFilter_from_eq split: option.split)

lemma those_None_iff: "those (map f xs) = None \<longleftrightarrow> (\<exists>x \<in> set xs. f x = None)"
  by (induction xs) (auto split: option.splits)

lemma those_Some_member: "those (map f xs) = Some ys \<Longrightarrow> x \<in> set xs \<Longrightarrow> \<exists>y \<in> set ys. f x = Some y"
  by (induction xs arbitrary: ys) (auto split: option.splits)

lemma those_Some_preimage: "those (map f xs) = Some ys \<Longrightarrow> \<forall>y \<in> set ys. \<exists>x \<in> set xs. f x = Some y"
proof (induction xs arbitrary: ys)
  case (Cons x xs)
  then obtain y zs where "f x = Some y" "those (map f xs) = Some zs" "ys = y # zs"
    by (auto split: option.splits)
  with Cons.IH [of zs] show ?case by auto
qed simp

lemma holds_And_fold:
  "expression_laws E holds \<Longrightarrow>
     holds (TranslateConjunctionAnd E es) r \<longleftrightarrow> (\<forall>e \<in> set es. holds e r)"
proof -
  assume laws: "expression_laws E holds"
  have "holds (foldl (And E) e es) r \<longleftrightarrow> holds e r \<and> (\<forall>e \<in> set es. holds e r)" for e
    using laws by (induction es arbitrary: e) (auto simp: expression_laws_def)
  with laws show ?thesis by (simp add: TranslateConjunctionAnd_def expression_laws_def)
qed

lemma holds_Or_fold:
  "expression_laws E holds \<Longrightarrow>
     holds (TranslateConjunctionOr E es) r \<longleftrightarrow> (\<exists>e \<in> set es. holds e r)"
proof -
  assume laws: "expression_laws E holds"
  have "holds (foldl (Or E) e es) r \<longleftrightarrow> holds e r \<or> (\<exists>e \<in> set es. holds e r)" for e
    using laws by (induction es arbitrary: e) (auto simp: expression_laws_def)
  with laws show ?thesis by (simp add: TranslateConjunctionOr_def expression_laws_def)
qed

lemma TranslateOrWidenFilters_fold:
  "TranslateOrWidenFilters E filters schema =
     TranslateConjunctionAnd E
       (map (\<lambda>(i, f). TranslateOrWidenFilter E f (schema ! i)) (filter (\<lambda>(i, f). i < length schema) filters))"
proof -
  have "foldl (\<lambda>combined (i, f). if length schema \<le> i then combined
          else And E combined (TranslateOrWidenFilter E f (schema ! i))) e filters =
      foldl (And E) e
       (map (\<lambda>(i, f). TranslateOrWidenFilter E f (schema ! i)) (filter (\<lambda>(i, f). i < length schema) filters))" for e
    by (induction filters arbitrary: e) (auto simp: not_le)
  then show ?thesis
    by (simp add: TranslateOrWidenFilters_def TranslateConjunctionAnd_def)
qed

lemmas expression_lawsD =
  expression_laws_def [THEN iffD1, THEN conjunct1, rule_format]
lemmas predicate_lawsD =
  predicate_laws_def [THEN iffD1, THEN conjunct1, rule_format]
  predicate_laws_def [THEN iffD1, THEN conjunct2, THEN conjunct1, rule_format]
  predicate_laws_def [THEN iffD1, THEN conjunct2, THEN conjunct2, THEN conjunct1, rule_format]
  predicate_laws_def [THEN iffD1, THEN conjunct2, THEN conjunct2, THEN conjunct2, rule_format]

text \<open>The guard lets through the scalar of the constant, if it is neither NaN nor zero.\<close>

lemma ConvertFilterConstant_scalar:
  assumes "ConvertFilterConstant v = Some l"
  shows "value_scalar v = Some (literal_scalar l)" and "\<not> scalar_nan (literal_scalar l)"
    and "\<not> scalar_zero (literal_scalar l)"
proof -
  show scalar: "value_scalar v = Some (literal_scalar l)"
    using assms value_scalar_eq [of v] by (simp add: ConvertFilterConstant_Some)
  show "\<not> scalar_nan (literal_scalar l)" and "\<not> scalar_zero (literal_scalar l)"
    using assms scalar_nan_iff [OF scalar] scalar_zero_iff [OF scalar] by (auto simp: ConvertFilterConstant_Some)
qed

text \<open>A value that DuckDB keeps by a comparison that is pushed down, iceberg-cpp's order keeps too.\<close>

lemma pushed_comparison:
  assumes const: "ConvertFilterConstant v = Some l" and keeps: "compare_keeps (duckdb_semantics oc ot) c v x"
    and other: "\<forall>n. c \<noteq> OTHER_COMPARISON n" and nan: "nan_satisfies c \<Longrightarrow> \<not> nan_value x"
  obtains a where "value_scalar x = Some a" "\<not> scalar_nan a"
    "scalar_compare iceberg_fp_less c a (literal_scalar l)"
proof -
  note scalar = ConvertFilterConstant_scalar [OF const]
  obtain a where a: "value_scalar x = Some a" "scalar_compare duckdb_fp_less c a (literal_scalar l)"
    using keeps other scalar(1) by (cases c) (auto simp: duckdb_semantics_def split: option.splits)
  have "scalar_nan a \<Longrightarrow> \<not> nan_satisfies c"
    using nan scalar_nan_iff [OF a(1)] by (auto simp: nan_value_def)
  from compare_agrees [OF scalar(2,3) a(2) this] a(1) that show thesis by blast
qed

lemma Constant_keeps:
  assumes laws: "expression_laws E holds" and preds: "predicate_laws E holds"
    and keeps: "compare_keeps (duckdb_semantics oc ot) c v (r column)"
    and nan: "nan_satisfies c \<Longrightarrow> \<not> nan_value (r column)"
  shows "holds (TranslateConstantFilter E column c v) r"
proof (cases "ConvertFilterConstant v = None \<or> (\<exists>n. c = OTHER_COMPARISON n)")
  case True
  then show ?thesis using expression_lawsD [OF laws] by (auto simp: TranslateConstantFilter_eq split: option.split)
next
  case False
  then obtain l where l: "ConvertFilterConstant v = Some l" by auto
  obtain a where "value_scalar (r column) = Some a" "\<not> scalar_nan a"
    "scalar_compare iceberg_fp_less c a (literal_scalar l)"
    using pushed_comparison [OF l keeps _ nan] False by blast
  then show ?thesis
    using predicate_lawsD(1) [where r = r and column = column, OF preds _ _ ConvertFilterConstant_scalar(2) [OF l]]
    by (simp add: TranslateConstantFilter_eq l)
qed

lemma In_keeps:
  assumes laws: "expression_laws E holds" and preds: "predicate_laws E holds"
    and keeps: "v \<in> set vals" "compare_keeps (duckdb_semantics oc ot) COMPARE_EQUAL v (r column)"
  shows "holds (TranslateInFilter E column vals) r"
proof (cases "those (map ConvertFilterConstant vals)")
  case None
  then show ?thesis using expression_lawsD [OF laws] by (simp add: TranslateInFilter_eq)
next
  case (Some ls)
  then obtain l where l: "l \<in> set ls" "ConvertFilterConstant v = Some l"
    using keeps(1) those_Some_member by metis
  obtain a where a: "value_scalar (r column) = Some a" "\<not> scalar_nan a"
    "scalar_compare iceberg_fp_less COMPARE_EQUAL a (literal_scalar l)"
    by (rule pushed_comparison [OF l(2) keeps(2)]) (simp_all add: nan_satisfies_def)
  have "\<forall>l \<in> set ls. \<not> scalar_nan (literal_scalar l)"
    using those_Some_preimage [OF Some] ConvertFilterConstant_scalar(2) by blast
  then show ?thesis
    using predicate_lawsD(2) [where r = r and column = column, OF preds a(1,2) _ l(1) a(3)]
    by (simp add: TranslateInFilter_eq Some)
qed

text \<open>Soundness of one filter, by induction on its structure.\<close>

lemma filter_sound:
  assumes laws: "expression_laws E holds" and preds: "predicate_laws E holds"
  shows "filter_keeps (duckdb_semantics oc ot) f (r (field_name field)) \<Longrightarrow>
    (may_keep_nan f \<Longrightarrow> \<not> nan_value (r (field_name field))) \<Longrightarrow> holds (TranslateOrWidenFilter E f field) r"
proof (induction f rule: widens.induct)
  case (1 c v)
  then show ?case using Constant_keeps [OF laws preds] by simp
next
  case 2
  then show ?case using predicate_lawsD(3) [OF preds] by (simp add: duckdb_semantics_def)
next
  case 3
  then show ?case using predicate_lawsD(4) [OF preds] by (simp add: duckdb_semantics_def)
next
  case (4 vals)
  then show ?case using In_keeps [OF laws preds] by auto
next
  case (5 fs)
  then show ?case by (auto simp: holds_And_fold [OF laws])
next
  case (6 fs)
  then show ?case by (fastforce simp: holds_Or_fold [OF laws])
qed (use expression_lawsD [OF laws] in simp_all)

lemma op_And_fold:
  assumes "simplification_laws E"
  shows "expression_op E (TranslateConjunctionAnd E es) = kTrue \<longleftrightarrow>
    (\<forall>e \<in> set es. expression_op E e = kTrue)"
proof -
  have "expression_op E (foldl (And E) e es) = kTrue \<longleftrightarrow>
      expression_op E e = kTrue \<and> (\<forall>e \<in> set es. expression_op E e = kTrue)" for e
    using assms by (induction es arbitrary: e) (auto simp: simplification_laws_def)
  with assms show ?thesis by (simp add: TranslateConjunctionAnd_def simplification_laws_def)
qed

lemma op_Or_fold:
  assumes "simplification_laws E"
  shows "expression_op E (TranslateConjunctionOr E es) = kTrue \<longleftrightarrow>
    (\<exists>e \<in> set es. expression_op E e = kTrue)"
proof -
  have "expression_op E (foldl (Or E) e es) = kTrue \<longleftrightarrow>
      expression_op E e = kTrue \<or> (\<exists>e \<in> set es. expression_op E e = kTrue)" for e
    using assms by (induction es arbitrary: e) (auto simp: simplification_laws_def)
  with assms show ?thesis by (simp add: TranslateConjunctionOr_def simplification_laws_def)
qed

lemma filter_widens:
  assumes "simplification_laws E"
  shows "expression_op E (TranslateOrWidenFilter E f field) = kTrue \<longleftrightarrow> widens f"
proof (induction f rule: widens.induct)
  case (4 vals)
  then show ?case
    using assms those_None_iff [of ConvertFilterConstant vals]
    by (cases "those (map ConvertFilterConstant vals)")
       (simp_all add: TranslateInFilter_eq simplification_laws_def)
qed (use assms in \<open>auto simp: op_And_fold op_Or_fold TranslateConstantFilter_eq simplification_laws_def
       split: option.splits\<close>)

lemma filters_sound:
  assumes laws: "expression_laws E holds" and preds: "predicate_laws E holds"
    and keeps: "filters_keep (duckdb_semantics oc ot) filters schema r" and nan: "nan_safe filters schema r"
  shows "holds (TranslateOrWidenFilters E filters schema) r"
  using keeps nan filter_sound [OF laws preds]
  by (fastforce simp: TranslateOrWidenFilters_fold holds_And_fold [OF laws] filters_keep_def nan_safe_def)

lemma filters_widen:
  assumes "simplification_laws E"
  shows "expression_op E (TranslateOrWidenFilters E filters schema) = kTrue \<longleftrightarrow>
    (\<forall>(i, f) \<in> set filters. i < length schema \<longrightarrow> widens f)"
  by (auto simp: TranslateOrWidenFilters_fold op_And_fold [OF assms] filter_widens [OF assms])

section \<open>An instance of the parameters\<close>

text \<open>
  Expressions as trees, built by functions that simplify constants, over rows of DuckDB values: the
  instance of \<open>expressions\<close> and of the meanings of predicates at which the witnesses evaluate the
  properties.
\<close>

datatype tree_expression =
    TreeTrue
  | TreeFalse
  | TreeAnd tree_expression tree_expression
  | TreeOr tree_expression tree_expression
  | TreePredicate comparison string literal
  | TreeIn string "literal list"
  | TreeIsNull string
  | TreeNotNull string

fun tree_and :: "tree_expression \<Rightarrow> tree_expression \<Rightarrow> tree_expression" where
  "tree_and TreeTrue b = b"
| "tree_and a TreeTrue = a"
| "tree_and a b = TreeAnd a b"

fun tree_or :: "tree_expression \<Rightarrow> tree_expression \<Rightarrow> tree_expression" where
  "tree_or TreeTrue b = TreeTrue"
| "tree_or a TreeTrue = TreeTrue"
| "tree_or TreeFalse b = b"
| "tree_or a TreeFalse = a"
| "tree_or a b = TreeOr a b"

definition tree_expressions :: "tree_expression expressions" where
  "tree_expressions =
     \<lparr>AlwaysTrue = TreeTrue, AlwaysFalse = TreeFalse, And = tree_and, Or = tree_or,
      Equal = TreePredicate COMPARE_EQUAL, NotEqual = TreePredicate COMPARE_NOTEQUAL,
      LessThan = TreePredicate COMPARE_LESSTHAN,
      LessThanOrEqual = TreePredicate COMPARE_LESSTHANOREQUALTO,
      GreaterThan = TreePredicate COMPARE_GREATERTHAN,
      GreaterThanOrEqual = TreePredicate COMPARE_GREATERTHANOREQUALTO,
      In = TreeIn, ColumnIsNull = TreeIsNull, ColumnNotNull = TreeNotNull,
      expression_op = (\<lambda>e. if e = TreeTrue then kTrue else kOtherOperation 0)\<rparr>"

text \<open>
  The predicates are iceberg-cpp's comparisons, and never true of NaN, which Iceberg's bounds leave out.
\<close>

fun tree_holds :: "tree_expression \<Rightarrow> (string \<Rightarrow> duckdb_value) \<Rightarrow> bool" where
  "tree_holds TreeTrue r \<longleftrightarrow> True"
| "tree_holds TreeFalse r \<longleftrightarrow> False"
| "tree_holds (TreeAnd a b) r \<longleftrightarrow> tree_holds a r \<and> tree_holds b r"
| "tree_holds (TreeOr a b) r \<longleftrightarrow> tree_holds a r \<or> tree_holds b r"
| "tree_holds (TreePredicate c column l) r \<longleftrightarrow>
     (case value_scalar (r column) of
        Some a \<Rightarrow> \<not> scalar_nan a \<and> scalar_compare iceberg_fp_less c a (literal_scalar l)
      | None \<Rightarrow> False)"
| "tree_holds (TreeIn column ls) r \<longleftrightarrow>
     (case value_scalar (r column) of
        Some a \<Rightarrow> \<not> scalar_nan a \<and>
          (\<exists>l \<in> set ls. scalar_compare iceberg_fp_less COMPARE_EQUAL a (literal_scalar l))
      | None \<Rightarrow> False)"
| "tree_holds (TreeIsNull column) r \<longleftrightarrow> IsNull (r column)"
| "tree_holds (TreeNotNull column) r \<longleftrightarrow> \<not> IsNull (r column)"

text \<open>DuckDB's semantics, with no comparisons and filters but those the source translates.\<close>

abbreviation example_semantics :: "duckdb_value filter_semantics" where
  "example_semantics \<equiv> duckdb_semantics (\<lambda>c v x. False) (\<lambda>n x. False)"

lemma tree_and_holds: "tree_holds (tree_and a b) r \<longleftrightarrow> tree_holds a r \<and> tree_holds b r"
  by (induction a b rule: tree_and.induct) auto

lemma tree_or_holds: "tree_holds (tree_or a b) r \<longleftrightarrow> tree_holds a r \<or> tree_holds b r"
  by (induction a b rule: tree_or.induct) auto

lemma tree_and_true: "tree_and a b = TreeTrue \<longleftrightarrow> a = TreeTrue \<and> b = TreeTrue"
  by (induction a b rule: tree_and.induct) auto

lemma tree_or_true: "tree_or a b = TreeTrue \<longleftrightarrow> a = TreeTrue \<or> b = TreeTrue"
  by (induction a b rule: tree_or.induct) auto

lemma tree_expression_laws: "expression_laws tree_expressions tree_holds"
  by (simp add: expression_laws_def tree_expressions_def tree_and_holds tree_or_holds)

lemma tree_predicate_of:
  "predicate_of tree_expressions c column l =
     (if \<exists>n. c = OTHER_COMPARISON n then TreeTrue else TreePredicate c column l)"
  by (cases c) (simp_all add: tree_expressions_def)

lemma tree_simplification_laws: "simplification_laws tree_expressions"
  by (simp add: simplification_laws_def tree_predicate_of)
     (simp add: tree_expressions_def tree_and_true tree_or_true)

lemma tree_predicate_laws: "predicate_laws tree_expressions tree_holds"
  by (simp add: predicate_laws_def tree_predicate_of)
    (auto simp: tree_expressions_def split: option.splits)

section \<open>Properties\<close>

text \<open>
  C3. Translation never excludes a row that the filters keep: if every filter on a column of the schema
  keeps the row in DuckDB's semantics, with its order of floating-point numbers, the translated
  expression is true of it in iceberg-cpp's, whose order of zeros differs. This holds for all filters,
  nested, unsupported and out-of-range ones included. The exception is a NaN in a column with a
  comparison it satisfies in DuckDB (\<open>nan_safe\<close>); lemma \<open>nan_row_excluded\<close> shows that it is one.
\<close>

theorem TranslateOrWidenFilters_sound:
  assumes "expression_laws E holds" and "predicate_laws E holds"
    and "filters_keep (duckdb_semantics other_compare other) filters schema r" and "nan_safe filters schema r"
  shows "holds (TranslateOrWidenFilters E filters schema) r"
  using assms by (rule filters_sound)

definition example_mixed_filters :: table_filter_set where
  "example_mixed_filters =
     [(0, ConjunctionOrFilter [ConstantFilter COMPARE_LESSTHAN (IntegerValue 3), InFilter [IntegerValue 7]]),
      (1, ConjunctionAndFilter [ConstantFilter COMPARE_LESSTHAN (DoubleValue 0x3FF0000000000000),
            ConstantFilter COMPARE_EQUAL (DoubleValue 0)]),
      (9, ConstantFilter COMPARE_EQUAL (IntegerValue 1))]"

definition example_mixed_schema :: iceberg_schema where
  "example_mixed_schema = [SchemaField 1 ''id'' kInt [], SchemaField 2 ''d'' kDouble []]"

text \<open>A row with \<open>-0.0\<close>, which equals the constant \<open>0.0\<close> in DuckDB but not in iceberg-cpp.\<close>

definition example_mixed_row :: "string \<Rightarrow> duckdb_value" where
  "example_mixed_row c = (if c = ''id'' then IntegerValue 7 else DoubleValue 0x8000000000000000)"

lemma example_mixed_keeps: "filters_keep example_semantics example_mixed_filters example_mixed_schema example_mixed_row"
  by (simp add: filters_keep_def example_mixed_filters_def example_mixed_schema_def example_mixed_row_def
      duckdb_semantics_def scalar_compare_def decode_example duckdb_fp_less_def signed_def isnan_def)

lemma example_mixed_nan_safe: "nan_safe example_mixed_filters example_mixed_schema example_mixed_row"
  by (simp add: nan_safe_def example_mixed_filters_def example_mixed_schema_def nan_satisfies_def)

theorem TranslateOrWidenFilters_sound_witness:
  "tree_holds (TranslateOrWidenFilters tree_expressions example_mixed_filters example_mixed_schema)
     example_mixed_row \<and>
   TranslateOrWidenFilters tree_expressions example_mixed_filters example_mixed_schema \<noteq> TreeTrue"
proof
  show "tree_holds (TranslateOrWidenFilters tree_expressions example_mixed_filters example_mixed_schema)
     example_mixed_row"
    by (rule TranslateOrWidenFilters_sound [OF tree_expression_laws tree_predicate_laws example_mixed_keeps
        example_mixed_nan_safe])
  have "\<not> widens (snd (hd example_mixed_filters))"
    by (simp add: example_mixed_filters_def ConvertFilterConstant_def)
  then show "TranslateOrWidenFilters tree_expressions example_mixed_filters example_mixed_schema \<noteq> TreeTrue"
    using filters_widen [OF tree_simplification_laws, of example_mixed_filters example_mixed_schema]
    by (auto simp: example_mixed_filters_def example_mixed_schema_def tree_expressions_def split: if_splits)
qed

text \<open>
  NaN rows can be excluded: \<open>d > 1.0\<close> keeps a row with NaN in DuckDB, the constant is pushed down, and the
  predicate need not be true of NaN.
\<close>

lemma nan_row_excluded:
  "filters_keep example_semantics [(0, ConstantFilter COMPARE_GREATERTHAN (DoubleValue 0x3FF0000000000000))]
     [SchemaField 2 ''d'' kDouble []] (\<lambda>c. DoubleValue 0x7FF8000000000000)"
  "\<not> tree_holds (TranslateOrWidenFilters tree_expressions
     [(0, ConstantFilter COMPARE_GREATERTHAN (DoubleValue 0x3FF0000000000000))] [SchemaField 2 ''d'' kDouble []])
     (\<lambda>c. DoubleValue 0x7FF8000000000000)"
  by (simp_all add: filters_keep_def duckdb_semantics_def scalar_compare_def decode_example duckdb_fp_less_def
      isnan_def TranslateOrWidenFilters_def TranslateConstantFilter_def ConvertFilterConstant_def
      tree_expressions_def)

text \<open>
  C32. Nothing is widened without need: the translated expression is the constant true exactly if
  each filter on a column of the schema widens, that is, has no translatable conjunct, or a
  disjunct with none, or an atom without a literal or a predicate.
\<close>

theorem TranslateOrWidenFilters_true_iff:
  assumes "simplification_laws E"
  shows "expression_op E (TranslateOrWidenFilters E filters schema) = kTrue \<longleftrightarrow>
    (\<forall>(i, f) \<in> set filters. i < length schema \<longrightarrow> widens f)"
  using assms by (rule filters_widen)

theorem TranslateOrWidenFilters_true_iff_witness:
  "expression_op tree_expressions (TranslateOrWidenFilters tree_expressions
     [(0, ConjunctionAndFilter [OtherFilter 0, IsNullFilter])] [SchemaField 1 ''id'' kInt []]) \<noteq> kTrue \<and>
   expression_op tree_expressions (TranslateOrWidenFilters tree_expressions
     [(0, ConjunctionOrFilter [OtherFilter 0, IsNullFilter])] [SchemaField 1 ''id'' kInt []]) = kTrue"
  by (simp add: TranslateOrWidenFilters_true_iff [OF tree_simplification_laws])

end
