(* ===== verification/SignedStore.thy ===== *)
theory SignedStore
  imports Prelude "HOL-Library.Char_ord" "HOL-Library.List_Lexorder"
begin

text \<open>
  The signed store (src/src/include/signed_store.hpp): a map whose keys are unknown, negative
  (known absent) or positive (found). \<open>entries_\<close> is an ordered map to \<open>'v option\<close>, where \<open>None\<close> is
  \<open>std::monostate\<close>. The locale \<open>signed_map\<close> is the contract the caches of the catalog rely on;
  it is interpreted here on the store and, in TableRegistry, on a schema's registry of tables.
\<close>

section \<open>The store\<close>

datatype 'v lookup_result = Unknown | Negative | Positive 'v

type_synonym ('k, 'v) signed_store = "('k, 'v option) omap"

definition Lookup :: "('k::linorder, 'v) signed_store \<Rightarrow> 'k \<Rightarrow> 'v lookup_result" where
  "Lookup entries key =
     (case om_find entries key of
        None \<Rightarrow> Unknown
      | Some (Some val) \<Rightarrow> Positive val
      | Some None \<Rightarrow> Negative)"

definition Put :: "'k::linorder \<Rightarrow> 'v \<Rightarrow> ('k, 'v) signed_store \<Rightarrow> ('k, 'v) signed_store" where
  "Put key val entries = om_put key (Some val) entries"

definition PutMiss :: "'k::linorder \<Rightarrow> ('k, 'v) signed_store \<Rightarrow> ('k, 'v) signed_store" where
  "PutMiss key entries = om_put key None entries"

text \<open>
  \<open>ForEachPositive\<close> with a callback that acts on a state \<open>'s\<close> and must not change the store;
  \<open>positives\<close> is the sequence it visits.
\<close>

fun ForEachPositive ::
  "('k \<Rightarrow> 'v \<Rightarrow> 's \<Rightarrow> 'e + 's) \<Rightarrow> ('k, 'v) signed_store \<Rightarrow> 's \<Rightarrow> 'e + 's" where
  "ForEachPositive fn [] s = Inr s"
| "ForEachPositive fn ((key, Some val) # entries) s =
     (case fn key val s of Inl e \<Rightarrow> Inl e | Inr s' \<Rightarrow> ForEachPositive fn entries s')"
| "ForEachPositive fn ((key, None) # entries) s = ForEachPositive fn entries s"

fun positives :: "('k, 'v) signed_store \<Rightarrow> ('k \<times> 'v) list" where
  "positives [] = []"
| "positives ((key, Some val) # entries) = (key, val) # positives entries"
| "positives ((key, None) # entries) = positives entries"

section \<open>Lemmas\<close>

lemma Lookup_Nil [simp]: "Lookup [] k = Unknown"
  by (simp add: Lookup_def)

lemma Lookup_Put [omap_simps]:
  "Lookup (Put k v m) k' = (if k' = k then Positive v else Lookup m k')"
  by (simp add: Lookup_def Put_def omap_simps)

lemma Lookup_PutMiss [omap_simps]:
  "Lookup (PutMiss k m) k' = (if k' = k then Negative else Lookup m k')"
  by (simp add: Lookup_def PutMiss_def omap_simps)

lemma Lookup_Positive_iff: "Lookup m k = Positive v \<longleftrightarrow> om_find m k = Some (Some v)"
  by (simp add: Lookup_def split: option.split)

lemma om_ok_Put [simp, intro]: "om_ok m \<Longrightarrow> om_ok (Put k v m)"
  by (simp add: Put_def)

lemma om_ok_PutMiss [simp, intro]: "om_ok m \<Longrightarrow> om_ok (PutMiss k m)"
  by (simp add: PutMiss_def)

lemma set_positives: "(k, v) \<in> set (positives m) \<longleftrightarrow> (k, Some v) \<in> set m"
  by (induction m rule: positives.induct) auto

lemma positives_iff:
  "om_ok m \<Longrightarrow> (k, v) \<in> set (positives m) \<longleftrightarrow> Lookup m k = Positive v"
  by (simp add: set_positives om_find_iff Lookup_Positive_iff)

lemma positives_sorted: "om_ok m \<Longrightarrow> sorted_wrt (<) (map fst (positives m))"
proof (induction m rule: positives.induct)
  case (2 key val entries)
  then have "\<forall>q \<in> set entries. key < fst q" and "om_ok entries"
    by (simp_all add: omap_simps)
  moreover have "key < k" if "(k, v) \<in> set (positives entries)" for k v
    using that \<open>\<forall>q \<in> set entries. key < fst q\<close> by (auto simp: set_positives)
  ultimately show ?case using 2 by auto
qed (simp_all add: omap_simps)

lemma foldl_stopped:
  "foldl (\<lambda>r x. case r of Inl e \<Rightarrow> Inl e | Inr s \<Rightarrow> f x s) (Inl e) xs = Inl e"
  by (induction xs) auto

lemma ForEachPositive_foldl:
  "ForEachPositive fn m s =
   foldl (\<lambda>r p. case r of Inl e \<Rightarrow> Inl e | Inr s \<Rightarrow> fn (fst p) (snd p) s) (Inr s) (positives m)"
  by (induction fn m s rule: ForEachPositive.induct) (auto simp: foldl_stopped split: sum.split)

section \<open>The contract of a signed map\<close>

text \<open>
  What a user of a signed map relies on. The two kinds of update are kept abstract, so that the
  contract also covers a registry that stores an entry and indexes it by its own name.
\<close>

datatype ('k, 'v) store_op = OpPut 'k 'v | OpMiss 'k

fun op_key :: "('k, 'v) store_op \<Rightarrow> 'k" where
  "op_key (OpPut k v) = k"
| "op_key (OpMiss k) = k"

fun run_op :: "('k \<Rightarrow> 'v \<Rightarrow> 'm \<Rightarrow> 'm) \<Rightarrow> ('k \<Rightarrow> 'm \<Rightarrow> 'm) \<Rightarrow> ('k, 'v) store_op \<Rightarrow> 'm \<Rightarrow> 'm" where
  "run_op put miss (OpPut k v) m = put k v m"
| "run_op put miss (OpMiss k) m = miss k m"

fun run_ops :: "('k \<Rightarrow> 'v \<Rightarrow> 'm \<Rightarrow> 'm) \<Rightarrow> ('k \<Rightarrow> 'm \<Rightarrow> 'm) \<Rightarrow> ('k, 'v) store_op list \<Rightarrow> 'm \<Rightarrow> 'm" where
  "run_ops put miss [] m = m"
| "run_ops put miss (x # xs) m = run_ops put miss xs (run_op put miss x m)"

lemma run_ops_append:
  "run_ops put miss (xs @ ys) m = run_ops put miss ys (run_ops put miss xs m)"
  by (induction xs arbitrary: m) auto

text \<open>The answer to a lookup is decided by the last update of the key, if there is one.\<close>

fun last_answer :: "('k, 'v) store_op list \<Rightarrow> 'k \<Rightarrow> 'v lookup_result \<Rightarrow> 'v lookup_result" where
  "last_answer [] k r = r"
| "last_answer (OpPut k' v # xs) k r = last_answer xs k (if k = k' then Positive v else r)"
| "last_answer (OpMiss k' # xs) k r = last_answer xs k (if k = k' then Negative else r)"

locale signed_map =
  fixes lookup :: "'m \<Rightarrow> 'k \<Rightarrow> 'v lookup_result"
    and put :: "'k \<Rightarrow> 'v \<Rightarrow> 'm \<Rightarrow> 'm"
    and miss :: "'k \<Rightarrow> 'm \<Rightarrow> 'm"
    and ok :: "'m \<Rightarrow> bool"
  assumes lookup_put: "ok m \<Longrightarrow> lookup (put k v m) k' = (if k' = k then Positive v else lookup m k')"
    and lookup_miss: "ok m \<Longrightarrow> lookup (miss k m) k' = (if k' = k then Negative else lookup m k')"
    and ok_put: "ok m \<Longrightarrow> ok (put k v m)"
    and ok_miss: "ok m \<Longrightarrow> ok (miss k m)"
begin

lemma ok_run_ops: "ok m \<Longrightarrow> ok (run_ops put miss xs m)"
proof (induction xs arbitrary: m)
  case (Cons x xs)
  then show ?case by (cases x) (simp_all add: ok_put ok_miss)
qed simp

lemma lookup_run_ops: "ok m \<Longrightarrow> lookup (run_ops put miss xs m) k = last_answer xs k (lookup m k)"
proof (induction xs arbitrary: m)
  case (Cons x xs)
  then show ?case
    by (cases x) (auto simp: lookup_put lookup_miss ok_put ok_miss)
qed simp

lemma other_keys_unchanged:
  "ok m \<Longrightarrow> k \<notin> op_key ` set xs \<Longrightarrow> lookup (run_ops put miss xs m) k = lookup m k"
proof (induction xs arbitrary: m)
  case (Cons x xs)
  then show ?case
    by (cases x) (auto simp: lookup_put lookup_miss ok_put ok_miss)
qed simp

lemma never_unknown_again:
  "ok m \<Longrightarrow> lookup m k \<noteq> Unknown \<Longrightarrow> lookup (run_ops put miss xs m) k \<noteq> Unknown"
proof (induction xs arbitrary: m)
  case (Cons x xs)
  then show ?case
    by (cases x) (auto simp: lookup_put lookup_miss ok_put ok_miss)
qed simp

end

interpretation ss: signed_map Lookup Put PutMiss om_ok
  by unfold_locales (auto simp: omap_simps)

text \<open>
  A signed store answers each lookup by the last update of its key: positive with the stored
  value after a put, negative after a miss, unknown when the key was never updated; and visiting
  the positive entries visits exactly the keys whose answer is positive, each once, in key order.
\<close>

lemma SignedStore_answers:
  fixes ops :: "('k::linorder, 'v) store_op list"
  shows "Lookup (run_ops Put PutMiss ops []) k = last_answer ops k Unknown \<and>
         ((k, v) \<in> set (positives (run_ops Put PutMiss ops [])) \<longleftrightarrow>
            last_answer ops k Unknown = Positive v) \<and>
         sorted_wrt (<) (map fst (positives (run_ops Put PutMiss ops [])))"
  using ss.lookup_run_ops [OF om_ok_Nil, of ops k]
    positives_iff [OF ss.ok_run_ops [OF om_ok_Nil], of k v ops]
    positives_sorted [OF ss.ok_run_ops [OF om_ok_Nil], of ops]
  by simp

end
