(* ===== verification/S3Conversion.thy ===== *)
theory S3Conversion
  imports LiteralConversion
begin

text \<open>
  S3 configuration (src/src/s3_conversion.cpp): conversion between the options of a DuckDB S3
  secret and iceberg-cpp's S3 properties, in both directions, with the endpoint and SSL rules.
  A secret's case-insensitive map is a map from lower-case keys (every key the source uses is
  lower-case); an \<open>unordered_map\<close> of properties is a map. Parameters: the names of iceberg-cpp's
  properties (\<open>s3_properties\<close>), and DuckDB's \<open>ToString\<close> and cast to BOOLEAN (\<open>value_ops\<close>).
  The lemmas show that a well-formed secret survives the round trip and that everything read back
  from properties is well-formed.
\<close>

section \<open>Options, properties and parameters\<close>

type_synonym secret_options = "string \<rightharpoonup> duckdb_value"
type_synonym properties = "string \<rightharpoonup> string"

text \<open>\<open>Value::ToString\<close>, and \<open>BooleanValue::Get(value.DefaultCastAs(BOOLEAN))\<close>, which may throw.\<close>

record value_ops =
  ToString :: "duckdb_value \<Rightarrow> string"
  CastBoolean :: "duckdb_value \<Rightarrow> bool throws"

text \<open>\<open>iceberg::arrow::S3Properties\<close>.\<close>

record s3_properties =
  kAccessKeyId :: string
  kSecretAccessKey :: string
  kSessionToken :: string
  kRegion :: string
  kPathStyleAccess :: string
  kS3Endpoint :: string
  kSslEnabled :: string

definition kHttpScheme :: string where "kHttpScheme = ''http://''"

definition kHttpsScheme :: string where "kHttpsScheme = ''https://''"

definition kPlainPropertyMappings :: "s3_properties \<Rightarrow> (string \<times> string) list" where
  "kPlainPropertyMappings P =
     [(''key_id'', kAccessKeyId P),
      (''secret'', kSecretAccessKey P),
      (''session_token'', kSessionToken P),
      (''region'', kRegion P)]"

section \<open>Endpoints and booleans\<close>

definition ParseBool :: "string \<Rightarrow> bool option" where
  "ParseBool value =
     (if value = ''true'' then Some True
      else if value = ''false'' then Some False
      else None)"

definition starts_with :: "string \<Rightarrow> string \<Rightarrow> bool" where
  "starts_with s p \<longleftrightarrow> take (length p) s = p"

definition SchemeUsesSsl :: "string \<Rightarrow> bool option" where
  "SchemeUsesSsl endpoint =
     (if starts_with endpoint kHttpsScheme then Some True
      else if starts_with endpoint kHttpScheme then Some False
      else None)"

text \<open>\<open>while (endpoint.ends_with('/')) endpoint.remove_suffix(1)\<close>.\<close>

function strip_slashes :: "string \<Rightarrow> string" where
  "strip_slashes s =
     (if s \<noteq> [] \<and> last s = CHR ''/'' then strip_slashes (butlast s) else s)"
  by pat_completeness auto
termination
  by (relation "measure length") auto

declare strip_slashes.simps [simp del]

definition ToDuckDBEndpoint :: "string \<Rightarrow> string" where
  "ToDuckDBEndpoint endpoint =
     strip_slashes
       (if starts_with endpoint kHttpsScheme then drop (length kHttpsScheme) endpoint
        else if starts_with endpoint kHttpScheme then drop (length kHttpScheme) endpoint
        else endpoint)"

section \<open>From a secret to properties\<close>

text \<open>The lambdas \<open>get\<close> and \<open>get_string\<close>.\<close>

definition secret_get :: "secret_options \<Rightarrow> string \<Rightarrow> duckdb_value option" where
  "secret_get secret key =
     (case secret key of
        Some v \<Rightarrow> if IsNull v then None else Some v
      | None \<Rightarrow> None)"

definition secret_get_string :: "value_ops \<Rightarrow> secret_options \<Rightarrow> string \<Rightarrow> string" where
  "secret_get_string V secret key =
     (case secret_get secret key of Some v \<Rightarrow> ToString V v | None \<Rightarrow> [])"

definition ConvertS3SecretToIcebergProperties ::
  "value_ops \<Rightarrow> s3_properties \<Rightarrow> secret_options \<Rightarrow> properties throws" where
  "ConvertS3SecretToIcebergProperties V P secret =
     (let props =
        foldl (\<lambda>props (duckdb_key, iceberg_key).
            let v = secret_get_string V secret duckdb_key
            in if v \<noteq> [] then props(iceberg_key \<mapsto> v) else props)
          Map.empty (kPlainPropertyMappings P);
        url_style = secret_get_string V secret ''url_style'';
        props =
          (if url_style = ''path'' then props(kPathStyleAccess P \<mapsto> ''true'')
           else if url_style = ''vhost'' then props(kPathStyleAccess P \<mapsto> ''false'')
           else props);
        endpoint = secret_get_string V secret ''endpoint'';
        props = (if endpoint \<noteq> [] then props(kS3Endpoint P \<mapsto> endpoint) else props)
      in case secret_get secret ''use_ssl'' of
           None \<Rightarrow> Inr props
         | Some use_ssl \<Rightarrow>
             (case CastBoolean V use_ssl of
                Inl e \<Rightarrow> Inl e
              | Inr b \<Rightarrow> Inr (props(kSslEnabled P \<mapsto> (if b then ''true'' else ''false'')))))"

section \<open>From properties to a secret\<close>

definition property_get :: "properties \<Rightarrow> string \<Rightarrow> string" where
  "property_get props key = (case props key of Some v \<Rightarrow> v | None \<Rightarrow> [])"

definition ConvertIcebergPropertiesToS3Secret ::
  "s3_properties \<Rightarrow> properties \<Rightarrow> secret_options" where
  "ConvertIcebergPropertiesToS3Secret P props =
     (let options =
        foldl (\<lambda>options (duckdb_key, iceberg_key).
            let v = property_get props iceberg_key
            in if v \<noteq> [] then options(duckdb_key \<mapsto> StringValue v) else options)
          Map.empty (kPlainPropertyMappings P);
        options =
          (case ParseBool (property_get props (kPathStyleAccess P)) of
             Some path_style \<Rightarrow>
               options(''url_style'' \<mapsto> StringValue (if path_style then ''path'' else ''vhost''))
           | None \<Rightarrow> options);
        endpoint = property_get props (kS3Endpoint P);
        duckdb_endpoint = ToDuckDBEndpoint endpoint;
        options =
          (if duckdb_endpoint \<noteq> [] then options(''endpoint'' \<mapsto> StringValue duckdb_endpoint)
           else options)
      in case (case SchemeUsesSsl endpoint of
                 Some b \<Rightarrow> Some b
               | None \<Rightarrow> ParseBool (property_get props (kSslEnabled P))) of
           Some use_ssl \<Rightarrow> options(''use_ssl'' \<mapsto> BooleanValue use_ssl)
         | None \<Rightarrow> options)"

section \<open>Endpoints\<close>

lemma strip_slashes_spec:
  "\<exists>n. s = strip_slashes s @ replicate n (CHR ''/'') \<and>
       (strip_slashes s = [] \<or> last (strip_slashes s) \<noteq> CHR ''/'')"
proof (induction s rule: strip_slashes.induct)
  case (1 s)
  show ?case
  proof (cases "s \<noteq> [] \<and> last s = CHR ''/''")
    case True
    with "1.IH" obtain n where n: "butlast s = strip_slashes (butlast s) @ replicate n (CHR ''/'')"
      and last: "strip_slashes (butlast s) = [] \<or> last (strip_slashes (butlast s)) \<noteq> CHR ''/''"
      by blast
    have s_eq: "butlast s @ [CHR ''/''] = s" using True by (metis append_butlast_last_id)
    have strip: "strip_slashes s = strip_slashes (butlast s)"
      using True by (simp add: strip_slashes.simps [of s])
    have "strip_slashes s @ replicate (Suc n) (CHR ''/'') =
        (strip_slashes (butlast s) @ replicate n (CHR ''/'')) @ [CHR ''/'']"
      by (simp add: strip replicate_append_same)
    also have "\<dots> = s" by (simp only: n [symmetric] s_eq)
    finally have "s = strip_slashes s @ replicate (Suc n) (CHR ''/'')" by (rule sym)
    moreover have "strip_slashes s = [] \<or> last (strip_slashes s) \<noteq> CHR ''/''"
      using last by (simp only: strip)
    ultimately show ?thesis by blast
  next
    case False
    then have "strip_slashes s = s" by (subst strip_slashes.simps) auto
    with False show ?thesis by (intro exI [of _ 0]) auto
  qed
qed

lemma strip_slashes_id: "s = [] \<or> last s \<noteq> CHR ''/'' \<Longrightarrow> strip_slashes s = s"
  by (subst strip_slashes.simps) auto

text \<open>The scheme of an endpoint: what \<open>SchemeUsesSsl\<close> found at its front.\<close>

definition scheme_of :: "string \<Rightarrow> string" where
  "scheme_of endpoint =
     (case SchemeUsesSsl endpoint of
        Some True \<Rightarrow> kHttpsScheme | Some False \<Rightarrow> kHttpScheme | None \<Rightarrow> [])"

lemma ToDuckDBEndpoint_spec:
  "\<exists>n. endpoint = scheme_of endpoint @ ToDuckDBEndpoint endpoint @ replicate n (CHR ''/'')"
proof -
  let ?rest = "if starts_with endpoint kHttpsScheme then drop (length kHttpsScheme) endpoint
        else if starts_with endpoint kHttpScheme then drop (length kHttpScheme) endpoint
        else endpoint"
  have "endpoint = scheme_of endpoint @ ?rest"
    by (auto simp: scheme_of_def SchemeUsesSsl_def starts_with_def) (metis append_take_drop_id)+
  moreover obtain n where "?rest = ToDuckDBEndpoint endpoint @ replicate n (CHR ''/'')"
    using strip_slashes_spec [of ?rest] unfolding ToDuckDBEndpoint_def by blast
  ultimately show ?thesis by metis
qed

lemma ToDuckDBEndpoint_last:
  "ToDuckDBEndpoint endpoint = [] \<or> last (ToDuckDBEndpoint endpoint) \<noteq> CHR ''/''"
  unfolding ToDuckDBEndpoint_def using strip_slashes_spec by blast

lemma ToDuckDBEndpoint_id:
  "SchemeUsesSsl e = None \<Longrightarrow> e = [] \<or> last e \<noteq> CHR ''/'' \<Longrightarrow> ToDuckDBEndpoint e = e"
  by (simp add: ToDuckDBEndpoint_def SchemeUsesSsl_def strip_slashes_id split: if_splits)

section \<open>What each conversion produces, key by key\<close>

definition nonempty :: "string \<Rightarrow> string option" where
  "nonempty s = (if s = [] then None else Some s)"

lemma nonempty_simps [simp]:
  "nonempty [] = None" "s \<noteq> [] \<Longrightarrow> nonempty s = Some s"
  by (simp_all add: nonempty_def)

text \<open>The seven property names are seven different keys.\<close>

definition distinct_keys :: "s3_properties \<Rightarrow> bool" where
  "distinct_keys P \<longleftrightarrow>
     distinct [kAccessKeyId P, kSecretAccessKey P, kSessionToken P, kRegion P,
               kPathStyleAccess P, kS3Endpoint P, kSslEnabled P]"

lemma distinct_keys_neq:
  assumes "distinct_keys P"
  shows
    "kAccessKeyId P \<noteq> kSecretAccessKey P" "kAccessKeyId P \<noteq> kSessionToken P"
    "kAccessKeyId P \<noteq> kRegion P" "kAccessKeyId P \<noteq> kPathStyleAccess P"
    "kAccessKeyId P \<noteq> kS3Endpoint P" "kAccessKeyId P \<noteq> kSslEnabled P"
    "kSecretAccessKey P \<noteq> kAccessKeyId P" "kSecretAccessKey P \<noteq> kSessionToken P"
    "kSecretAccessKey P \<noteq> kRegion P" "kSecretAccessKey P \<noteq> kPathStyleAccess P"
    "kSecretAccessKey P \<noteq> kS3Endpoint P" "kSecretAccessKey P \<noteq> kSslEnabled P"
    "kSessionToken P \<noteq> kAccessKeyId P" "kSessionToken P \<noteq> kSecretAccessKey P"
    "kSessionToken P \<noteq> kRegion P" "kSessionToken P \<noteq> kPathStyleAccess P"
    "kSessionToken P \<noteq> kS3Endpoint P" "kSessionToken P \<noteq> kSslEnabled P"
    "kRegion P \<noteq> kAccessKeyId P" "kRegion P \<noteq> kSecretAccessKey P"
    "kRegion P \<noteq> kSessionToken P" "kRegion P \<noteq> kPathStyleAccess P"
    "kRegion P \<noteq> kS3Endpoint P" "kRegion P \<noteq> kSslEnabled P"
    "kPathStyleAccess P \<noteq> kAccessKeyId P" "kPathStyleAccess P \<noteq> kSecretAccessKey P"
    "kPathStyleAccess P \<noteq> kSessionToken P" "kPathStyleAccess P \<noteq> kRegion P"
    "kPathStyleAccess P \<noteq> kS3Endpoint P" "kPathStyleAccess P \<noteq> kSslEnabled P"
    "kS3Endpoint P \<noteq> kAccessKeyId P" "kS3Endpoint P \<noteq> kSecretAccessKey P"
    "kS3Endpoint P \<noteq> kSessionToken P" "kS3Endpoint P \<noteq> kRegion P"
    "kS3Endpoint P \<noteq> kPathStyleAccess P" "kS3Endpoint P \<noteq> kSslEnabled P"
    "kSslEnabled P \<noteq> kAccessKeyId P" "kSslEnabled P \<noteq> kSecretAccessKey P"
    "kSslEnabled P \<noteq> kSessionToken P" "kSslEnabled P \<noteq> kRegion P"
    "kSslEnabled P \<noteq> kPathStyleAccess P" "kSslEnabled P \<noteq> kS3Endpoint P"
  using assms unfolding distinct_keys_def by auto

definition path_style_text :: "string \<Rightarrow> string option" where
  "path_style_text url_style =
     (if url_style = ''path'' then Some ''true''
      else if url_style = ''vhost'' then Some ''false'' else None)"

definition secret_ssl :: "value_ops \<Rightarrow> secret_options \<Rightarrow> bool option throws" where
  "secret_ssl V secret =
     (case secret_get secret ''use_ssl'' of
        None \<Rightarrow> Inr None
      | Some v \<Rightarrow> (case CastBoolean V v of Inl e \<Rightarrow> Inl e | Inr b \<Rightarrow> Inr (Some b)))"

lemma put_nonempty:
  "m k = None \<Longrightarrow>
   (if v \<noteq> [] then m(k \<mapsto> v) else m) = (\<lambda>x. if x = k then nonempty v else m x)"
  by (auto simp: fun_eq_iff nonempty_def)

lemma map_upd_if: "m(j \<mapsto> t) = (\<lambda>k. if k = j then Some t else m k)"
  by (simp add: fun_eq_iff)

lemma map_None_if: "m j = None \<Longrightarrow> (\<lambda>k. if k = j then None else m k) = m"
  by (simp add: fun_eq_iff)

lemma put_path_style:
  "m k = None \<Longrightarrow>
   (if s = ''path'' then m(k \<mapsto> ''true'') else if s = ''vhost'' then m(k \<mapsto> ''false'') else m) =
   (\<lambda>x. if x = k then path_style_text s else m x)"
  by (auto simp: fun_eq_iff path_style_text_def)

lemma secret_plain_properties:
  assumes "distinct_keys P"
  shows "foldl (\<lambda>props (duckdb_key, iceberg_key).
            if secret_get_string V secret duckdb_key \<noteq> []
            then props(iceberg_key \<mapsto> secret_get_string V secret duckdb_key) else props)
          Map.empty (kPlainPropertyMappings P) =
    (\<lambda>k. if k = kAccessKeyId P then nonempty (secret_get_string V secret ''key_id'')
         else if k = kSecretAccessKey P then nonempty (secret_get_string V secret ''secret'')
         else if k = kSessionToken P then nonempty (secret_get_string V secret ''session_token'')
         else if k = kRegion P then nonempty (secret_get_string V secret ''region'') else None)"
proof -
  have "kAccessKeyId P \<noteq> kSecretAccessKey P" "kAccessKeyId P \<noteq> kSessionToken P"
    "kAccessKeyId P \<noteq> kRegion P" "kSecretAccessKey P \<noteq> kSessionToken P"
    "kSecretAccessKey P \<noteq> kRegion P" "kSessionToken P \<noteq> kRegion P"
    using assms by (simp_all add: distinct_keys_def)
  then show ?thesis
    by (simp add: kPlainPropertyMappings_def Let_def put_nonempty fun_eq_iff)
qed

lemma secret_properties_keys:
  assumes "distinct_keys P"
  shows "ConvertS3SecretToIcebergProperties V P secret =
    (case secret_ssl V secret of
       Inl e \<Rightarrow> Inl e
     | Inr ssl \<Rightarrow> Inr (\<lambda>k.
         if k = kSslEnabled P then map_option (\<lambda>b. if b then ''true'' else ''false'') ssl
         else if k = kS3Endpoint P then nonempty (secret_get_string V secret ''endpoint'')
         else if k = kPathStyleAccess P
           then path_style_text (secret_get_string V secret ''url_style'')
         else if k = kAccessKeyId P then nonempty (secret_get_string V secret ''key_id'')
         else if k = kSecretAccessKey P then nonempty (secret_get_string V secret ''secret'')
         else if k = kSessionToken P then nonempty (secret_get_string V secret ''session_token'')
         else if k = kRegion P then nonempty (secret_get_string V secret ''region'')
         else None))"
proof -
  let ?url = "secret_get_string V secret ''url_style''"
  let ?endpoint = "secret_get_string V secret ''endpoint''"
  let ?m1 = "\<lambda>k. if k = kAccessKeyId P then nonempty (secret_get_string V secret ''key_id'')
         else if k = kSecretAccessKey P then nonempty (secret_get_string V secret ''secret'')
         else if k = kSessionToken P then nonempty (secret_get_string V secret ''session_token'')
         else if k = kRegion P then nonempty (secret_get_string V secret ''region'') else None"
  let ?m2 = "\<lambda>k. if k = kPathStyleAccess P then path_style_text ?url else ?m1 k"
  let ?m3 = "\<lambda>k. if k = kS3Endpoint P then nonempty ?endpoint else ?m2 k"
  have m1: "?m1 (kPathStyleAccess P) = None" and m2: "?m2 (kS3Endpoint P) = None"
    and m3: "?m3 (kSslEnabled P) = None"
    by (simp_all add: distinct_keys_neq [OF assms])
  have ssl: "?m3(kSslEnabled P \<mapsto> t) = (\<lambda>k. if k = kSslEnabled P then Some t else ?m3 k)" for t
    by (rule map_upd_if)
  have none: "(\<lambda>k. if k = kSslEnabled P then None else ?m3 k) = ?m3"
    by (rule map_None_if) (rule m3)
  show ?thesis
    unfolding ConvertS3SecretToIcebergProperties_def Let_def secret_plain_properties [OF assms]
      put_path_style [where m = ?m1, OF m1] put_nonempty [where m = ?m2, OF m2] ssl secret_ssl_def
    by (cases "secret_get secret ''use_ssl''"; cases "CastBoolean V (the (secret_get secret ''use_ssl''))")
      (simp_all only: option.case sum.case option.map option.sel none)
qed

lemma put_option:
  "m k = None \<Longrightarrow>
   (if v \<noteq> [] then m(k \<mapsto> f v) else m) =
   (\<lambda>x. if x = k then map_option f (nonempty v) else m x)"
  by (auto simp: fun_eq_iff nonempty_def)

lemma put_case_option:
  "m k = None \<Longrightarrow>
   (case p of Some b \<Rightarrow> m(k \<mapsto> f b) | None \<Rightarrow> m) =
   (\<lambda>x. if x = k then map_option f p else m x)"
  by (auto simp: fun_eq_iff split: option.split)

definition endpoint_ssl :: "s3_properties \<Rightarrow> properties \<Rightarrow> bool option" where
  "endpoint_ssl P props =
     (case SchemeUsesSsl (property_get props (kS3Endpoint P)) of
        Some b \<Rightarrow> Some b
      | None \<Rightarrow> ParseBool (property_get props (kSslEnabled P)))"

lemma options_plain:
  "foldl (\<lambda>options (duckdb_key, iceberg_key).
            if property_get props iceberg_key \<noteq> []
            then options(duckdb_key \<mapsto> StringValue (property_get props iceberg_key)) else options)
          Map.empty (kPlainPropertyMappings P) =
   (\<lambda>k. if k = ''region'' then map_option StringValue (nonempty (property_get props (kRegion P)))
        else if k = ''session_token''
          then map_option StringValue (nonempty (property_get props (kSessionToken P)))
        else if k = ''secret''
          then map_option StringValue (nonempty (property_get props (kSecretAccessKey P)))
        else if k = ''key_id''
          then map_option StringValue (nonempty (property_get props (kAccessKeyId P)))
        else None)"
  by (simp add: kPlainPropertyMappings_def put_option)

lemma ConvertIcebergPropertiesToS3Secret_keys:
  "ConvertIcebergPropertiesToS3Secret P props =
   (\<lambda>k. if k = ''use_ssl'' then map_option BooleanValue (endpoint_ssl P props)
        else if k = ''endpoint''
          then map_option StringValue
                 (nonempty (ToDuckDBEndpoint (property_get props (kS3Endpoint P))))
        else if k = ''url_style''
          then map_option (\<lambda>b. StringValue (if b then ''path'' else ''vhost''))
                 (ParseBool (property_get props (kPathStyleAccess P)))
        else if k = ''region'' then map_option StringValue (nonempty (property_get props (kRegion P)))
        else if k = ''session_token''
          then map_option StringValue (nonempty (property_get props (kSessionToken P)))
        else if k = ''secret''
          then map_option StringValue (nonempty (property_get props (kSecretAccessKey P)))
        else if k = ''key_id''
          then map_option StringValue (nonempty (property_get props (kAccessKeyId P)))
        else None)"
  unfolding ConvertIcebergPropertiesToS3Secret_def Let_def options_plain
    endpoint_ssl_def [symmetric]
  by (simp add: put_option put_case_option cong del: if_weak_cong option.case_cong_weak)

section \<open>The round trip\<close>

text \<open>
  A secret in the form the conversions share: only known options, non-empty text, a style that is
  one of the two, an endpoint without scheme and trailing slash, a BOOLEAN \<open>use_ssl\<close>.
\<close>

fun text_option :: "duckdb_value option \<Rightarrow> bool" where
  "text_option None = True"
| "text_option (Some (StringValue s)) = (s \<noteq> [])"
| "text_option _ = False"

fun endpoint_option :: "duckdb_value option \<Rightarrow> bool" where
  "endpoint_option None = True"
| "endpoint_option (Some (StringValue e)) =
     (e \<noteq> [] \<and> last e \<noteq> CHR ''/'' \<and> SchemeUsesSsl e = None)"
| "endpoint_option _ = False"

definition canonical_secret :: "secret_options \<Rightarrow> bool" where
  "canonical_secret secret \<longleftrightarrow>
     dom secret \<subseteq> {''key_id'', ''secret'', ''session_token'', ''region'', ''url_style'',
                   ''endpoint'', ''use_ssl''} \<and>
     text_option (secret ''key_id'') \<and> text_option (secret ''secret'') \<and>
     text_option (secret ''session_token'') \<and> text_option (secret ''region'') \<and>
     secret ''url_style'' \<in> {None, Some (StringValue ''path''), Some (StringValue ''vhost'')} \<and>
     endpoint_option (secret ''endpoint'') \<and>
     secret ''use_ssl'' \<in> {None, Some (BooleanValue True), Some (BooleanValue False)}"

text \<open>What the round trip relies on: DuckDB prints a string as itself and reads back a BOOLEAN.\<close>

definition value_ops_laws :: "value_ops \<Rightarrow> bool" where
  "value_ops_laws V \<longleftrightarrow>
     (\<forall>s. ToString V (StringValue s) = s) \<and> (\<forall>b. CastBoolean V (BooleanValue b) = Inr b)"

lemma secret_get_string_text:
  "value_ops_laws V \<Longrightarrow> text_option (secret k) \<Longrightarrow>
   map_option StringValue (nonempty (secret_get_string V secret k)) = secret k"
  by (cases "secret k" rule: text_option.cases)
    (auto simp: value_ops_laws_def secret_get_string_def secret_get_def)

lemma secret_get_string_endpoint:
  "value_ops_laws V \<Longrightarrow> endpoint_option (secret k) \<Longrightarrow>
   map_option StringValue (nonempty (ToDuckDBEndpoint (secret_get_string V secret k))) = secret k \<and>
   SchemeUsesSsl (secret_get_string V secret k) = None"
  by (cases "secret k" rule: endpoint_option.cases)
    (auto simp: value_ops_laws_def secret_get_string_def secret_get_def ToDuckDBEndpoint_id
      SchemeUsesSsl_def starts_with_def kHttpsScheme_def kHttpScheme_def)

lemma secret_get_string_style:
  "value_ops_laws V \<Longrightarrow>
   secret k \<in> {None, Some (StringValue ''path''), Some (StringValue ''vhost'')} \<Longrightarrow>
   map_option (\<lambda>b. StringValue (if b then ''path'' else ''vhost''))
     (ParseBool (case path_style_text (secret_get_string V secret k) of Some v \<Rightarrow> v | None \<Rightarrow> []))
   = secret k"
  by (auto simp: value_ops_laws_def secret_get_string_def secret_get_def path_style_text_def
      ParseBool_def)

lemma secret_ssl_canonical:
  "value_ops_laws V \<Longrightarrow>
   secret ''use_ssl'' \<in> {None, Some (BooleanValue True), Some (BooleanValue False)} \<Longrightarrow>
   \<exists>ssl. secret_ssl V secret = Inr ssl \<and> map_option BooleanValue ssl = secret ''use_ssl'' \<and>
         ParseBool (case map_option (\<lambda>b. if b then ''true'' else ''false'') ssl of
                      Some v \<Rightarrow> v | None \<Rightarrow> []) = ssl"
  by (auto simp: value_ops_laws_def secret_ssl_def secret_get_def ParseBool_def)

lemma property_get_if:
  "property_get (\<lambda>k. if k = j then x else m k) i =
   (if i = j then (case x of Some v \<Rightarrow> v | None \<Rightarrow> []) else property_get m i)"
  by (simp add: property_get_def)

lemma case_nonempty [simp]: "(case nonempty s of Some v \<Rightarrow> v | None \<Rightarrow> []) = s"
  by (simp add: nonempty_def)

lemma S3_roundtrip:
  assumes "value_ops_laws V" and "distinct_keys P" and "canonical_secret secret"
  shows "\<exists>props. ConvertS3SecretToIcebergProperties V P secret = Inr props \<and>
                 ConvertIcebergPropertiesToS3Secret P props = secret"
proof -
  from assms(3) have dom: "dom secret \<subseteq> {''key_id'', ''secret'', ''session_token'', ''region'',
      ''url_style'', ''endpoint'', ''use_ssl''}"
    and opts: "text_option (secret ''key_id'')" "text_option (secret ''secret'')"
      "text_option (secret ''session_token'')" "text_option (secret ''region'')"
      "secret ''url_style'' \<in> {None, Some (StringValue ''path''), Some (StringValue ''vhost'')}"
      "endpoint_option (secret ''endpoint'')"
      "secret ''use_ssl'' \<in> {None, Some (BooleanValue True), Some (BooleanValue False)}"
    by (simp_all only: canonical_secret_def)
  from secret_ssl_canonical [where secret = secret, OF assms(1) opts(7)] obtain ssl where
    ssl: "secret_ssl V secret = Inr ssl" "map_option BooleanValue ssl = secret ''use_ssl''"
      "ParseBool (case map_option (\<lambda>b. if b then ''true'' else ''false'') ssl of
                    Some v \<Rightarrow> v | None \<Rightarrow> []) = ssl" by blast
  note facts = secret_get_string_text [where secret = secret, OF assms(1) opts(1)]
    secret_get_string_text [where secret = secret, OF assms(1) opts(2)] secret_get_string_text [where secret = secret, OF assms(1) opts(3)]
    secret_get_string_text [where secret = secret, OF assms(1) opts(4)] secret_get_string_style [where secret = secret, OF assms(1) opts(5)]
    secret_get_string_endpoint [where secret = secret, OF assms(1) opts(6)]
  obtain props where props: "ConvertS3SecretToIcebergProperties V P secret = Inr props"
    and gets: "property_get props (kAccessKeyId P) = secret_get_string V secret ''key_id''"
      "property_get props (kSecretAccessKey P) = secret_get_string V secret ''secret''"
      "property_get props (kSessionToken P) = secret_get_string V secret ''session_token''"
      "property_get props (kRegion P) = secret_get_string V secret ''region''"
      "property_get props (kPathStyleAccess P) =
        (case path_style_text (secret_get_string V secret ''url_style'') of Some v \<Rightarrow> v | None \<Rightarrow> [])"
      "property_get props (kS3Endpoint P) = secret_get_string V secret ''endpoint''"
      "property_get props (kSslEnabled P) =
        (case map_option (\<lambda>b. if b then ''true'' else ''false'') ssl of Some v \<Rightarrow> v | None \<Rightarrow> [])"
    unfolding secret_properties_keys [OF assms(2)] ssl(1) sum.case
    by (simp add: property_get_if distinct_keys_neq [OF assms(2)])
  have out: "secret k = None"
    if "k \<notin> {''key_id'', ''secret'', ''session_token'', ''region'', ''url_style'', ''endpoint'',
      ''use_ssl''}" for k
    using dom that by (meson domIff subsetD)
  have "ConvertIcebergPropertiesToS3Secret P props k = secret k" for k
    using facts ssl(2,3)
    by (auto simp: ConvertIcebergPropertiesToS3Secret_keys gets endpoint_ssl_def out)
  with props show ?thesis by blast
qed

lemma text_option_nonempty [simp]: "text_option (map_option StringValue (nonempty s))"
  by (simp add: nonempty_def)

lemma endpoint_option_ToDuckDBEndpoint:
  "SchemeUsesSsl (ToDuckDBEndpoint e) = None \<Longrightarrow>
   endpoint_option (map_option StringValue (nonempty (ToDuckDBEndpoint e)))"
  using ToDuckDBEndpoint_last [of e] by (auto simp: nonempty_def)

lemma secret_read_back_canonical:
  assumes "SchemeUsesSsl (ToDuckDBEndpoint (property_get props (kS3Endpoint P))) = None"
  shows "canonical_secret (ConvertIcebergPropertiesToS3Secret P props)"
proof -
  have "map_option BooleanValue ssl \<in> {None, Some (BooleanValue True), Some (BooleanValue False)}"
    for ssl by (cases ssl) auto
  moreover have "map_option (\<lambda>b. StringValue (if b then ''path'' else ''vhost'')) style \<in>
      {None, Some (StringValue ''path''), Some (StringValue ''vhost'')}" for style
    by (cases style) auto
  moreover have "dom (ConvertIcebergPropertiesToS3Secret P props) \<subseteq>
      {''key_id'', ''secret'', ''session_token'', ''region'', ''url_style'', ''endpoint'', ''use_ssl''}"
    by (auto simp: ConvertIcebergPropertiesToS3Secret_keys split: if_splits)
  ultimately show ?thesis
    unfolding canonical_secret_def
    by (simp only: ConvertIcebergPropertiesToS3Secret_keys)
      (simp add: endpoint_option_ToDuckDBEndpoint [OF assms])
qed

section \<open>Properties of the component\<close>

text \<open>
  What a secret becomes: each plain option that is set and not empty is the property of its
  name, with the text DuckDB gives it; \<open>url_style\<close> becomes the path-style flag only when it is
  \<open>path\<close> or \<open>vhost\<close>; the endpoint is passed through as it is; \<open>use_ssl\<close> becomes
  \<open>true\<close> or \<open>false\<close>; no other property is set; and the only failure is the cast of
  \<open>use_ssl\<close> to BOOLEAN.
\<close>

lemma ConvertS3SecretToIcebergProperties_keys:
  assumes "distinct_keys P"
  shows "ConvertS3SecretToIcebergProperties V P secret =
    (case secret_ssl V secret of
       Inl e \<Rightarrow> Inl e
     | Inr ssl \<Rightarrow> Inr (\<lambda>k.
         if k = kSslEnabled P then map_option (\<lambda>b. if b then ''true'' else ''false'') ssl
         else if k = kS3Endpoint P then nonempty (secret_get_string V secret ''endpoint'')
         else if k = kPathStyleAccess P
           then path_style_text (secret_get_string V secret ''url_style'')
         else if k = kAccessKeyId P then nonempty (secret_get_string V secret ''key_id'')
         else if k = kSecretAccessKey P then nonempty (secret_get_string V secret ''secret'')
         else if k = kSessionToken P then nonempty (secret_get_string V secret ''session_token'')
         else if k = kRegion P then nonempty (secret_get_string V secret ''region'')
         else None))"
  using assms by (rule secret_properties_keys)

text \<open>
  C16. A secret survives the round trip: a well-formed DuckDB S3 secret is converted to properties
  without an error, and the properties are read back to exactly the same options, none lost,
  none changed and none added.
\<close>

theorem S3_secret_roundtrip:
  assumes "value_ops_laws V" and "distinct_keys P" and "canonical_secret secret"
  shows "\<exists>props. ConvertS3SecretToIcebergProperties V P secret = Inr props \<and>
                 ConvertIcebergPropertiesToS3Secret P props = secret"
  using assms by (rule S3_roundtrip)

text \<open>
  C39. Properties are normalised: the secret read from any properties is well-formed (as long as the
  endpoint does not carry two schemes), and going to properties and back once more returns the same
  secret.
\<close>

theorem S3_properties_normalise:
  assumes "value_ops_laws V" and "distinct_keys P"
    and "SchemeUsesSsl (ToDuckDBEndpoint (property_get props (kS3Endpoint P))) = None"
  shows "canonical_secret (ConvertIcebergPropertiesToS3Secret P props) \<and>
         (\<exists>props'. ConvertS3SecretToIcebergProperties V P
                     (ConvertIcebergPropertiesToS3Secret P props) = Inr props' \<and>
                   ConvertIcebergPropertiesToS3Secret P props' =
                     ConvertIcebergPropertiesToS3Secret P props)"
  using S3_roundtrip [OF assms(1,2) secret_read_back_canonical] secret_read_back_canonical assms(3)
  by blast

text \<open>
  C40. The endpoint: the secret's \<open>endpoint\<close> option is the endpoint property without its scheme and
  its trailing slashes and nothing else, it is absent exactly when nothing is left, and an http or
  https scheme decides \<open>use_ssl\<close> whatever \<open>s3.ssl.enabled\<close> says.
\<close>

theorem ConvertIcebergPropertiesToS3Secret_endpoint:
  "let endpoint = property_get props (kS3Endpoint P);
       secret = ConvertIcebergPropertiesToS3Secret P props;
       host = ToDuckDBEndpoint endpoint
   in secret ''endpoint'' = (if host = [] then None else Some (StringValue host)) \<and>
      (\<exists>n. endpoint = scheme_of endpoint @ host @ replicate n (CHR ''/'')) \<and>
      (if host = [] then True else last host \<noteq> CHR ''/'') \<and>
      secret ''use_ssl'' =
        map_option BooleanValue
          (if starts_with endpoint ''https://'' then Some True
           else if starts_with endpoint ''http://'' then Some False
           else ParseBool (property_get props (kSslEnabled P)))"
proof -
  have "endpoint_ssl P props =
      (if starts_with (property_get props (kS3Endpoint P)) ''https://'' then Some True
       else if starts_with (property_get props (kS3Endpoint P)) ''http://'' then Some False
       else ParseBool (property_get props (kSslEnabled P)))"
    by (simp add: endpoint_ssl_def SchemeUsesSsl_def kHttpsScheme_def kHttpScheme_def)
  then show ?thesis
    unfolding Let_def
    using ToDuckDBEndpoint_spec [of "property_get props (kS3Endpoint P)"]
      ToDuckDBEndpoint_last [of "property_get props (kS3Endpoint P)"]
    by (auto simp: ConvertIcebergPropertiesToS3Secret_keys nonempty_def)
qed

section \<open>Concrete instances\<close>

text \<open>Value operations, iceberg-cpp's property names and a secret to evaluate the conversions on.\<close>

definition example_value_ops :: value_ops where
  "example_value_ops = \<lparr>
     ToString = (\<lambda>v. case v of StringValue s \<Rightarrow> s
                           | BooleanValue b \<Rightarrow> if b then ''true'' else ''false'' | _ \<Rightarrow> ''?''),
     CastBoolean = (\<lambda>v. case v of BooleanValue b \<Rightarrow> Inr b
                           | _ \<Rightarrow> Inl (ExternalException ''Could not convert to BOOL''))\<rparr>"

definition example_s3_properties :: s3_properties where
  "example_s3_properties = \<lparr>
     kAccessKeyId = ''s3.access-key-id'', kSecretAccessKey = ''s3.secret-access-key'',
     kSessionToken = ''s3.session-token'', kRegion = ''s3.region'',
     kPathStyleAccess = ''s3.path-style-access'', kS3Endpoint = ''s3.endpoint'',
     kSslEnabled = ''s3.ssl.enabled''\<rparr>"

definition example_secret :: secret_options where
  "example_secret =
     [''key_id'' \<mapsto> StringValue ''AKIA'', ''secret'' \<mapsto> StringValue ''shh'',
      ''session_token'' \<mapsto> StringValue ''tok'', ''region'' \<mapsto> StringValue ''eu-west-1'',
      ''endpoint'' \<mapsto> StringValue ''localhost:9000'', ''url_style'' \<mapsto> StringValue ''path'',
      ''use_ssl'' \<mapsto> BooleanValue False]"

lemma example_laws [simp]: "value_ops_laws example_value_ops"
  by (simp add: value_ops_laws_def example_value_ops_def)

lemma example_distinct [simp]: "distinct_keys example_s3_properties"
  by (simp add: distinct_keys_def example_s3_properties_def)

lemma example_canonical [simp]: "canonical_secret example_secret"
  by (auto simp: canonical_secret_def example_secret_def SchemeUsesSsl_def starts_with_def
      kHttpsScheme_def kHttpScheme_def split: if_splits)

theorem S3_secret_roundtrip_witness:
  "\<exists>props. ConvertS3SecretToIcebergProperties example_value_ops example_s3_properties example_secret
             = Inr props \<and>
           ConvertIcebergPropertiesToS3Secret example_s3_properties props = example_secret"
  by (rule S3_secret_roundtrip) simp_all

theorem S3_properties_normalise_witness:
  "canonical_secret (ConvertIcebergPropertiesToS3Secret example_s3_properties
     [''s3.endpoint'' \<mapsto> ''http://minio:9000//'', ''s3.ssl.enabled'' \<mapsto> ''true''])"
proof -
  have "strip_slashes ''minio:9000//'' = ''minio:9000''"
    by (simp add: strip_slashes.simps [of "''minio:9000//''"] strip_slashes.simps [of "''minio:9000/''"]
        strip_slashes.simps [of "''minio:9000''"])
  then show ?thesis
    using S3_properties_normalise [OF example_laws example_distinct,
        of "[''s3.endpoint'' \<mapsto> ''http://minio:9000//'', ''s3.ssl.enabled'' \<mapsto> ''true'']"]
    by (simp add: example_s3_properties_def property_get_def ToDuckDBEndpoint_def starts_with_def
        kHttpsScheme_def kHttpScheme_def SchemeUsesSsl_def)
qed

end
