(* ===== verification/Environment.thy ===== *)
theory Environment
  imports TypeMapping S3Conversion "HOL-Library.Char_ord" "HOL-Library.List_Lexorder"
begin

text \<open>
  What the catalog code calls and cannot be read here, and the effects it has. iceberg-cpp's catalog
  (a remote service) is a record of operations over its own state \<open>'w\<close>, which every call may
  change and answer differently; iceberg-cpp's tables are values of a type \<open>'tbl\<close> read through a
  record of accessors. The record \<open>env\<close> holds the service's state and the process-wide effects:
  the log messages written, and whether the S3 finalizer is registered. Namespaces and table
  identifiers are src/src/include/conversion.hpp.
\<close>

section \<open>Constants\<close>

text \<open>src/src/include/constants.hpp.\<close>

definition kEndpoint :: string where "kEndpoint = ''endpoint''"
definition kWarehouse :: string where "kWarehouse = ''warehouse''"
definition kToken :: string where "kToken = ''token''"
definition kDefaultSchema :: string where "kDefaultSchema = ''default_schema''"
definition kDefaultNamespace :: string where "kDefaultNamespace = ''default''"
definition kRedactedSecrets :: "string set" where "kRedactedSecrets = {kToken}"
definition kIcebergSecretType :: string where "kIcebergSecretType = ''iceberg''"
definition kS3SecretType :: string where "kS3SecretType = ''s3''"
definition kConfigProvider :: string where "kConfigProvider = ''config''"
definition kBearerPrefix :: string where "kBearerPrefix = ''Bearer ''"

section \<open>Identifiers\<close>

record iceberg_namespace =
  levels :: "string list"

record table_identifier =
  ns :: iceberg_namespace
  ident_name :: string

definition GetNamespace :: "string \<Rightarrow> iceberg_namespace" where
  "GetNamespace namespace_name = \<lparr>levels = [namespace_name]\<rparr>"

definition GetTableIdentifier :: "string \<Rightarrow> string \<Rightarrow> table_identifier" where
  "GetTableIdentifier namespace_name table_name =
     \<lparr>ns = GetNamespace namespace_name, ident_name = table_name\<rparr>"

section \<open>iceberg-cpp\<close>

record ('w, 'tbl) iceberg_catalog =
  LoadTable :: "table_identifier \<Rightarrow> 'w \<Rightarrow> 'tbl ice_result \<times> 'w"
  ListTables :: "iceberg_namespace \<Rightarrow> 'w \<Rightarrow> table_identifier list ice_result \<times> 'w"
  ListNamespaces :: "iceberg_namespace \<Rightarrow> 'w \<Rightarrow> iceberg_namespace list ice_result \<times> 'w"

text \<open>
  The accessors of \<open>iceberg::Table\<close> and \<open>iceberg::SnapshotUtil\<close> the source calls. Time points are
  milliseconds as integers.
\<close>

record iceberg_snapshot =
  snapshot_id :: "64 word"
  timestamp_ms :: int

record 'tbl iceberg_table =
  snapshots :: "'tbl \<Rightarrow> iceberg_snapshot list"
  last_updated_ms :: "'tbl \<Rightarrow> int"
  current_schema :: "'tbl \<Rightarrow> iceberg_schema ice_result"
  OptionalSnapshotIdAsOfTime :: "'tbl \<Rightarrow> int \<Rightarrow> 64 word option"
  SchemaFor :: "'tbl \<Rightarrow> 64 word \<Rightarrow> iceberg_schema ice_result"
  TimePointMsFromUnixMs :: "64 word \<Rightarrow> int"
  full_name :: "'tbl \<Rightarrow> string"
  io_properties :: "'tbl \<Rightarrow> properties option"
  location :: "'tbl \<Rightarrow> string"
  write_data_location :: "'tbl \<Rightarrow> string"

section \<open>Effects\<close>

text \<open>The log messages, by the call that writes them.\<close>

datatype log_message =
    LogLoadTable string string
  | LogPinned string string "64 word"
  | LogListTables string
  | LogListNamespaces
  | LogSkippedNamespace "string list"
  | LogSecretsNotDropped string
  | LogPlanned nat string string
  | LogComplexSkipped
  | LogComplexApplied nat
  | LogDynamicAllPushed
  | LogDynamicSkipped
  | LogDynamicApplied nat

record 'w env =
  world :: 'w
  log :: "log_message list"
  s3_finalizer :: bool

definition write_log :: "log_message \<Rightarrow> 'w env \<Rightarrow> 'w env" where
  "write_log msg env = env\<lparr>log := log env @ [msg]\<rparr>"

text \<open>A call to the service: its answer, and the environment with the service's new state.\<close>

definition call_service :: "('w \<Rightarrow> 'a \<times> 'w) \<Rightarrow> 'w env \<Rightarrow> 'a \<times> 'w env" where
  "call_service f env = (case f (world env) of (a, w) \<Rightarrow> (a, env\<lparr>world := w\<rparr>))"

text \<open>\<open>RegisterS3Finalizer\<close>: a function-local static, constructed by the first call.\<close>

definition RegisterS3Finalizer :: "'w env \<Rightarrow> 'w env" where
  "RegisterS3Finalizer env = env\<lparr>s3_finalizer := True\<rparr>"

text \<open>The messages written between two environments.\<close>

definition logged :: "'w env \<Rightarrow> 'w env \<Rightarrow> log_message list" where
  "logged before after = drop (length (log before)) (log after)"

definition log_extends :: "'w env \<Rightarrow> 'w env \<Rightarrow> bool" where
  "log_extends before after \<longleftrightarrow> (\<exists>msgs. log after = log before @ msgs)"

named_theorems env_simps

lemma write_log_simps [env_simps]:
  "world (write_log msg env) = world env"
  "log (write_log msg env) = log env @ [msg]"
  "s3_finalizer (write_log msg env) = s3_finalizer env"
  by (simp_all add: write_log_def)

lemma call_service_log [env_simps]:
  "log (snd (call_service f env)) = log env"
  "s3_finalizer (snd (call_service f env)) = s3_finalizer env"
  "fst (call_service f env) = fst (f (world env))"
  "world (snd (call_service f env)) = snd (f (world env))"
  by (simp_all add: call_service_def split: prod.split)

lemma RegisterS3Finalizer_simps [env_simps]:
  "world (RegisterS3Finalizer env) = world env"
  "log (RegisterS3Finalizer env) = log env"
  "s3_finalizer (RegisterS3Finalizer env) = True"
  by (simp_all add: RegisterS3Finalizer_def)

lemma log_extends_refl [simp, intro]: "log_extends env env"
  by (simp add: log_extends_def)

lemma log_extends_trans [trans]:
  "log_extends a b \<Longrightarrow> log_extends b c \<Longrightarrow> log_extends a c"
  by (auto simp: log_extends_def)

text \<open>Identifiers are determined by the names they are built from.\<close>

lemma GetTableIdentifier_inject [simp]:
  "GetTableIdentifier n t = GetTableIdentifier n' t' \<longleftrightarrow> n = n' \<and> t = t'"
  by (auto simp: GetTableIdentifier_def GetNamespace_def)

end
