(* ===== verification/TableRegistry.thy ===== *)
theory TableRegistry
  imports SignedStore Environment
begin

text \<open>
  Scan information (src/src/include/proto_iceberg_scan_info.hpp), table entries
  (src/src/include/proto_iceberg_table_entry.hpp) and a schema's \<open>TableRegistry\<close>
  (src/src/include/proto_iceberg_schema_entry.hpp, src/src/proto_iceberg_schema_entry.cpp). The registry
  owns every table entry of the transaction in \<open>entries_\<close>; a reference to an entry, in the index or
  handed to DuckDB, is its position there. The lemmas show that a reference stays valid: entries are
  only appended, and the index always names an entry of its own name.
\<close>

section \<open>Scan information and table entries\<close>

datatype scan_mode = CurrentRead | PinnedRead "64 word"

record 'tbl scan_info =
  si_table :: 'tbl
  si_mode :: scan_mode
  si_schema :: iceberg_schema

text \<open>DuckDB's \<open>ColumnDefinition\<close>, with the comment set by \<open>SetComment\<close>.\<close>

record table_column =
  col_name :: string
  col_type :: logical_type
  col_comment :: "string option"

record 'tbl table_entry =
  te_name :: string
  te_columns :: "table_column list"
  te_scan_info :: "'tbl scan_info option"
  te_has_secret :: bool

definition NeedsLoad :: "'tbl table_entry \<Rightarrow> bool" where
  "NeedsLoad entry = (te_scan_info entry = None)"

text \<open>The constructor; the table's name and columns come from \<open>CreateTableInfo\<close>.\<close>

definition ProtoIcebergTableEntry ::
  "string \<Rightarrow> table_column list \<Rightarrow> 'tbl scan_info option \<Rightarrow> 'tbl table_entry" where
  "ProtoIcebergTableEntry entry_name columns scan_info_p =
     \<lparr>te_name = entry_name, te_columns = columns, te_scan_info = scan_info_p,
      te_has_secret = False\<rparr>"

section \<open>The registry\<close>

record 'tbl registry =
  reg_entries :: "'tbl table_entry list"
  reg_index :: "(string, nat) signed_store"
  reg_listed :: bool

definition empty_registry :: "'tbl registry" where
  "empty_registry = \<lparr>reg_entries = [], reg_index = [], reg_listed = False\<rparr>"

definition RegistryListed :: "'tbl registry \<Rightarrow> bool" where
  "RegistryListed reg = reg_listed reg"

definition MarkListed :: "'tbl registry \<Rightarrow> 'tbl registry" where
  "MarkListed reg = reg\<lparr>reg_listed := True\<rparr>"

definition RegistryLookup :: "'tbl registry \<Rightarrow> string \<Rightarrow> nat lookup_result" where
  "RegistryLookup reg name = Lookup (reg_index reg) name"

text \<open>\<open>Store\<close> returns the reference to the entry it stored.\<close>

definition RegistryStore :: "'tbl table_entry \<Rightarrow> 'tbl registry \<Rightarrow> nat \<times> 'tbl registry" where
  "RegistryStore entry reg =
     (let stored = length (reg_entries reg)
      in (stored, reg\<lparr>reg_entries := reg_entries reg @ [entry],
                      reg_index := Put (te_name entry) stored (reg_index reg)\<rparr>))"

definition MarkMissing :: "string \<Rightarrow> 'tbl registry \<Rightarrow> 'tbl registry" where
  "MarkMissing name reg = reg\<lparr>reg_index := PutMiss name (reg_index reg)\<rparr>"

definition RegistryForEach ::
  "(string \<Rightarrow> nat \<Rightarrow> 's \<Rightarrow> exception + 's) \<Rightarrow> 'tbl registry \<Rightarrow> 's \<Rightarrow> exception + 's" where
  "RegistryForEach fn reg s = ForEachPositive fn (reg_index reg) s"

text \<open>The entry a reference points to.\<close>

definition deref :: "'tbl registry \<Rightarrow> nat \<Rightarrow> 'tbl table_entry" where
  "deref reg i = reg_entries reg ! i"

text \<open>\<open>has_secret_ = true\<close> on the entry a reference points to.\<close>

definition SetHasSecret :: "nat \<Rightarrow> 'tbl registry \<Rightarrow> 'tbl registry" where
  "SetHasSecret i reg =
     reg\<lparr>reg_entries := (reg_entries reg)[i := (deref reg i)\<lparr>te_has_secret := True\<rparr>]\<rparr>"

section \<open>Invariant\<close>

definition registry_ok :: "'tbl registry \<Rightarrow> bool" where
  "registry_ok reg \<longleftrightarrow>
     om_ok (reg_index reg) \<and>
     (\<forall>name i. RegistryLookup reg name = Positive i \<longrightarrow>
        i < length (reg_entries reg) \<and> te_name (deref reg i) = name)"

lemma registry_ok_empty [simp, intro]: "registry_ok empty_registry"
  by (simp add: registry_ok_def empty_registry_def RegistryLookup_def)

lemma registry_ok_MarkListed [simp, intro]: "registry_ok reg \<Longrightarrow> registry_ok (MarkListed reg)"
  by (simp add: registry_ok_def MarkListed_def RegistryLookup_def deref_def)

lemma registry_ok_Store [simp, intro]:
  "registry_ok reg \<Longrightarrow> registry_ok (snd (RegistryStore entry reg))"
  by (auto simp: registry_ok_def RegistryStore_def RegistryLookup_def deref_def Let_def omap_simps
      nth_append less_SucI)

lemma registry_ok_MarkMissing [simp, intro]: "registry_ok reg \<Longrightarrow> registry_ok (MarkMissing name reg)"
  by (auto simp: registry_ok_def MarkMissing_def RegistryLookup_def deref_def omap_simps)

lemma registry_okD:
  "registry_ok reg \<Longrightarrow> RegistryLookup reg name = Positive i \<Longrightarrow>
   i < length (reg_entries reg) \<and> te_name (deref reg i) = name"
  by (simp add: registry_ok_def)

section \<open>Retention\<close>

text \<open>
  \<open>same_entry\<close>: the same table entry later in the transaction; only the note that its secret exists
  may have been set. \<open>retained\<close>: every reference into the registry is still good later.
\<close>

definition same_entry :: "'tbl table_entry \<Rightarrow> 'tbl table_entry \<Rightarrow> bool" where
  "same_entry before after \<longleftrightarrow>
     after = before\<lparr>te_has_secret := te_has_secret after\<rparr> \<and>
     (te_has_secret before \<longrightarrow> te_has_secret after)"

definition retained :: "'tbl registry \<Rightarrow> 'tbl registry \<Rightarrow> bool" where
  "retained before after \<longleftrightarrow>
     length (reg_entries before) \<le> length (reg_entries after) \<and>
     (\<forall>i < length (reg_entries before). same_entry (deref before i) (deref after i)) \<and>
     (reg_listed before \<longrightarrow> reg_listed after)"

lemma same_entry_refl [simp, intro]: "same_entry e e"
  by (simp add: same_entry_def)

lemma same_entry_trans: "same_entry a b \<Longrightarrow> same_entry b c \<Longrightarrow> same_entry a c"
  unfolding same_entry_def
  by (metis table_entry.surjective table_entry.update_convs(4) old.unit.exhaust)

lemma same_entry_simps:
  "same_entry e e' \<Longrightarrow> te_name e' = te_name e \<and> te_columns e' = te_columns e \<and>
     te_scan_info e' = te_scan_info e \<and> NeedsLoad e' = NeedsLoad e"
  unfolding same_entry_def NeedsLoad_def
  by (metis table_entry.ext_inject table_entry.surjective table_entry.update_convs(4))

lemma retained_refl [simp, intro]: "retained reg reg"
  by (simp add: retained_def)

lemma retained_trans [trans]: "retained a b \<Longrightarrow> retained b c \<Longrightarrow> retained a c"
  unfolding retained_def by (meson le_trans less_le_trans same_entry_trans)

lemma retained_MarkListed [simp, intro]: "retained reg (MarkListed reg)"
  by (simp add: retained_def MarkListed_def deref_def)

lemma retained_MarkMissing [simp, intro]: "retained reg (MarkMissing name reg)"
  by (simp add: retained_def MarkMissing_def deref_def)

lemma retained_Store [simp, intro]: "retained reg (snd (RegistryStore entry reg))"
  by (simp add: retained_def RegistryStore_def Let_def deref_def nth_append)

lemma RegistryStore_simps [simp]:
  "fst (RegistryStore entry reg) = length (reg_entries reg)"
  "deref (snd (RegistryStore entry reg)) (length (reg_entries reg)) = entry"
  "RegistryLookup (snd (RegistryStore entry reg)) k =
     (if k = te_name entry then Positive (length (reg_entries reg)) else RegistryLookup reg k)"
  "reg_listed (snd (RegistryStore entry reg)) = reg_listed reg"
  "reg_entries (snd (RegistryStore entry reg)) = reg_entries reg @ [entry]"
  by (simp_all add: RegistryStore_def Let_def deref_def RegistryLookup_def omap_simps)

lemma MarkMissing_simps [simp]:
  "RegistryLookup (MarkMissing name reg) k =
     (if k = name then Negative else RegistryLookup reg k)"
  "reg_listed (MarkMissing name reg) = reg_listed reg"
  "reg_entries (MarkMissing name reg) = reg_entries reg"
  by (simp_all add: MarkMissing_def RegistryLookup_def omap_simps)

lemma MarkListed_simps [simp]:
  "RegistryLookup (MarkListed reg) k = RegistryLookup reg k"
  "reg_listed (MarkListed reg) = True"
  "reg_entries (MarkListed reg) = reg_entries reg"
  "deref (MarkListed reg) i = deref reg i"
  by (simp_all add: MarkListed_def RegistryLookup_def deref_def)

lemma SetHasSecret_simps [simp]:
  "RegistryLookup (SetHasSecret i reg) k = RegistryLookup reg k"
  "reg_listed (SetHasSecret i reg) = reg_listed reg"
  "length (reg_entries (SetHasSecret i reg)) = length (reg_entries reg)"
  by (simp_all add: SetHasSecret_def RegistryLookup_def)

lemma deref_SetHasSecret:
  "j < length (reg_entries reg) \<Longrightarrow>
   deref (SetHasSecret i reg) j =
     (if j = i then (deref reg i)\<lparr>te_has_secret := True\<rparr> else deref reg j)"
  by (auto simp: SetHasSecret_def deref_def)

lemma same_entry_has_secret [simp, intro]: "same_entry e (e\<lparr>te_has_secret := True\<rparr>)"
  by (simp add: same_entry_def)

lemma retained_SetHasSecret [simp, intro]: "retained reg (SetHasSecret i reg)"
  by (simp add: retained_def deref_SetHasSecret)

lemma registry_ok_retained:
  assumes "registry_ok reg" and "retained reg reg'" and "om_ok (reg_index reg')"
    and "\<And>k. RegistryLookup reg' k = RegistryLookup reg k"
  shows "registry_ok reg'"
  using assms unfolding registry_ok_def retained_def
  by (metis le_trans less_le_trans same_entry_simps)

lemma registry_ok_SetHasSecret [simp, intro]: "registry_ok reg \<Longrightarrow> registry_ok (SetHasSecret i reg)"
  by (rule registry_ok_retained [of reg]) (simp_all, simp add: registry_ok_def SetHasSecret_def)

lemma deref_retained:
  "retained reg reg' \<Longrightarrow> i < length (reg_entries reg) \<Longrightarrow> same_entry (deref reg i) (deref reg' i)"
  by (simp add: retained_def)

text \<open>The references visited by \<open>RegistryForEach\<close>, in the order of the names.\<close>

definition visited :: "'tbl registry \<Rightarrow> (string \<times> nat) list" where
  "visited reg = positives (reg_index reg)"

lemma visited_iff:
  "registry_ok reg \<Longrightarrow> (name, i) \<in> set (visited reg) \<longleftrightarrow> RegistryLookup reg name = Positive i"
  by (simp add: registry_ok_def visited_def positives_iff RegistryLookup_def)

lemma visited_sorted: "registry_ok reg \<Longrightarrow> sorted_wrt (<) (map fst (visited reg))"
  by (simp add: registry_ok_def visited_def positives_sorted)

section \<open>The registry as a signed map\<close>

text \<open>
  What a registry says about a name: the contents of its entry. With it the registry meets the
  contract of a signed map, for every sequence of stored and missing tables.
\<close>

definition registry_find :: "'tbl registry \<Rightarrow> string \<Rightarrow> (table_column list \<times> 'tbl scan_info option) lookup_result"
  where
  "registry_find reg name =
     (case RegistryLookup reg name of
        Unknown \<Rightarrow> Unknown
      | Negative \<Rightarrow> Negative
      | Positive i \<Rightarrow> Positive (te_columns (deref reg i), te_scan_info (deref reg i)))"

definition registry_put ::
  "string \<Rightarrow> table_column list \<times> 'tbl scan_info option \<Rightarrow> 'tbl registry \<Rightarrow> 'tbl registry" where
  "registry_put name contents reg =
     snd (RegistryStore (ProtoIcebergTableEntry name (fst contents) (snd contents)) reg)"

lemma deref_Store_other:
  "i < length (reg_entries reg) \<Longrightarrow> deref (snd (RegistryStore entry reg)) i = deref reg i"
  by (simp add: deref_def nth_append)

interpretation reg: signed_map registry_find registry_put MarkMissing registry_ok
proof (unfold_locales, goal_cases)
  case (1 m k v k')
  then show ?case
    by (auto simp: registry_find_def registry_put_def ProtoIcebergTableEntry_def deref_Store_other
        dest!: registry_okD split: lookup_result.split)
next
  case (2 m k k')
  then show ?case
    by (auto simp: registry_find_def MarkMissing_def deref_def RegistryLookup_def omap_simps
        split: lookup_result.split)
qed (auto simp: registry_put_def)

lemma run_op_entries:
  "\<exists>es. reg_entries (run_op registry_put MarkMissing x reg) = reg_entries reg @ es"
  by (cases x) (simp_all add: registry_put_def)

lemma run_ops_entries:
  "\<exists>es. reg_entries (run_ops registry_put MarkMissing xs reg) = reg_entries reg @ es"
proof (induction xs arbitrary: reg)
  case (Cons x xs)
  then show ?case
    using run_op_entries [of x reg] by (metis append_assoc run_ops.simps(2))
qed simp

text \<open>Each listed table with the contents of its entry, as \<open>ForEach\<close> shows it to its callback.\<close>

definition registry_listing :: "'tbl registry \<Rightarrow> exception + (string \<times> table_column list \<times> 'tbl scan_info option) list" where
  "registry_listing reg = RegistryForEach
     (\<lambda>name i shown. Inr (shown @ [(name, te_columns (deref reg i), te_scan_info (deref reg i))])) reg []"

lemma collected_listing:
  "foldl (\<lambda>r p. case r of Inl e \<Rightarrow> Inl e | Inr shown \<Rightarrow> Inr (shown @ [f p])) (Inr acc) ps = Inr (acc @ map f ps)"
  by (induction ps arbitrary: acc) auto

lemma registry_listing_eq:
  "registry_listing reg = Inr (map (\<lambda>(name, i). (name, te_columns (deref reg i), te_scan_info (deref reg i))) (visited reg))"
  by (simp add: registry_listing_def RegistryForEach_def ForEachPositive_foldl visited_def collected_listing case_prod_unfold)

text \<open>
  C38. The registry is a faithful cache: after any sequence of stores and misses, what it says of a
  table is decided by the last one of its name; the listing (\<open>ForEach\<close>) shows each table whose last
  update stored it, with what was stored, once and in name order; and every entry ever stored is still
  there, unchanged, so that no reference handed out is ever invalid.
\<close>

theorem TableRegistry_answers:
  "registry_find (run_ops registry_put MarkMissing ops empty_registry) name =
     last_answer ops name Unknown \<and>
   registry_ok (run_ops registry_put MarkMissing ops empty_registry) \<and>
   (\<exists>shown. registry_listing (run_ops registry_put MarkMissing ops empty_registry) = Inr shown \<and>
      sorted_wrt (<) (map fst shown) \<and>
      (\<forall>t contents. (t, contents) \<in> set shown \<longleftrightarrow> last_answer ops t Unknown = Positive contents)) \<and>
   (\<exists>contents. map (\<lambda>e. (te_name e, te_columns e, te_scan_info e))
        (reg_entries (run_ops registry_put MarkMissing (ops @ later) empty_registry)) =
      map (\<lambda>e. (te_name e, te_columns e, te_scan_info e))
        (reg_entries (run_ops registry_put MarkMissing ops empty_registry)) @ contents)"
proof -
  let ?reg = "run_ops registry_put MarkMissing ops empty_registry"
  let ?contents = "\<lambda>i. (te_columns (deref ?reg i), te_scan_info (deref ?reg i))"
  have ok: "registry_ok ?reg" by (rule reg.ok_run_ops) simp
  have find: "registry_find ?reg t = last_answer ops t Unknown" for t
    using reg.lookup_run_ops [of empty_registry ops t]
    by (simp add: registry_find_def empty_registry_def RegistryLookup_def registry_ok_def)
  let ?shown = "map (\<lambda>(t, i). (t, ?contents i)) (visited ?reg)"
  have names: "map fst ?shown = map fst (visited ?reg)" by (simp add: case_prod_unfold)
  have member: "(t, contents) \<in> set ?shown \<longleftrightarrow> last_answer ops t Unknown = Positive contents" for t contents
  proof -
    have "(t, contents) \<in> set ?shown \<longleftrightarrow> (\<exists>i. (t, i) \<in> set (visited ?reg) \<and> contents = ?contents i)" by force
    also have "\<dots> \<longleftrightarrow> registry_find ?reg t = Positive contents"
      by (auto simp: visited_iff [OF ok] registry_find_def split: lookup_result.split)
    finally show ?thesis by (simp add: find)
  qed
  have "registry_listing ?reg = Inr ?shown" by (simp add: registry_listing_eq)
  moreover have "sorted_wrt (<) (map fst ?shown)" unfolding names by (rule visited_sorted [OF ok])
  ultimately show ?thesis
    using ok find member run_ops_entries [of later ?reg] by (auto simp: run_ops_append)
qed

end
