(* ===== verification/SchemaEntry.thy ===== *)
theory SchemaEntry
  imports TableRegistry
begin

text \<open>
  Schema entries (src/src/proto_iceberg_schema_entry.cpp): resolving a table's state as of the
  transaction's start, loading, looking up and listing a schema's tables. A schema entry is its name,
  the atomic \<open>namespace_missing_\<close> and the registry behind \<open>tables_\<close>; each operation holds the
  registry's lock while it runs, so it is one step. An operation returns its result or the exception
  it throws, together with the state it leaves behind in either case.

  Parameters: iceberg-cpp's catalog \<open>C\<close> and tables \<open>T\<close>, and \<open>A\<close>, DuckDB's
  \<open>ColumnList::AddColumn\<close>, which may refuse a column.
\<close>

section \<open>The entry a table gets\<close>

type_synonym add_column = "table_column list \<Rightarrow> table_column \<Rightarrow> table_column list throws"

fun AddTableColumns :: "add_column \<Rightarrow> schema_field list \<Rightarrow> table_column list \<Rightarrow> table_column list throws" where
  "AddTableColumns A [] columns = Inr columns"
| "AddTableColumns A (field # flds) columns =
     (case MapIcebergType (field_type field) of
        Inl e \<Rightarrow> Inl e
      | Inr ty \<Rightarrow>
          (let col = \<lparr>col_name = field_name field, col_type = ty,
                      col_comment = (if field_doc field = [] then None else Some (field_doc field))\<rparr>
           in case A columns col of
                Inl e \<Rightarrow> Inl e
              | Inr columns' \<Rightarrow> AddTableColumns A flds columns'))"

definition CreateTableEntry ::
  "add_column \<Rightarrow> 'tbl scan_info \<Rightarrow> string \<Rightarrow> 'tbl table_entry throws" where
  "CreateTableEntry A info entry_name =
     (case AddTableColumns A (si_schema info) [] of
        Inl e \<Rightarrow> Inl e
      | Inr columns \<Rightarrow> Inr (ProtoIcebergTableEntry entry_name columns (Some info)))"

definition ResolveScanInfo ::
  "'tbl iceberg_table \<Rightarrow> 64 word \<Rightarrow> 'tbl \<Rightarrow> string \<Rightarrow> string \<Rightarrow> 'w env \<Rightarrow> 'tbl scan_info throws \<times> 'w env"
  where
  "ResolveScanInfo T start_timestamp_ms table namespace_name tbl_name env =
     (let txn_start = TimePointMsFromUnixMs T start_timestamp_ms
      in if snapshots T table \<noteq> [] \<and> last_updated_ms T table > txn_start
         then (case OptionalSnapshotIdAsOfTime T table txn_start of
                 None \<Rightarrow>
                   (Inl (TransactionException (''Table '' @ CHR 0x27 # namespace_name @ ''.'' @ tbl_name @
                      CHR 0x27 # '' does not have a reachable state in this transaction; '' @
                      ''please restart your transaction'')), env)
               | Some snap \<Rightarrow>
                   (let env = write_log (LogPinned namespace_name tbl_name snap) env
                    in case UnwrapOrThrow IOException (SchemaFor T table snap)
                              (''Failed to resolve schema for snapshot '' @ to_string_int (sint snap) @
                               '' of table '' @ CHR 0x27 # namespace_name @ ''.'' @ tbl_name @ [CHR 0x27]) of
                         Inl e \<Rightarrow> (Inl e, env)
                       | Inr schema \<Rightarrow>
                           (Inr \<lparr>si_table = table, si_mode = PinnedRead snap, si_schema = schema\<rparr>, env)))
         else (case UnwrapOrThrow IOException (current_schema T table)
                      (''Failed to read schema for table '' @ CHR 0x27 # namespace_name @ ''.'' @
                       tbl_name @ [CHR 0x27]) of
                 Inl e \<Rightarrow> (Inl e, env)
               | Inr schema \<Rightarrow>
                   (Inr \<lparr>si_table = table, si_mode = CurrentRead, si_schema = schema\<rparr>, env)))"

section \<open>Schema entries\<close>

record 'tbl schema_entry =
  se_name :: string
  namespace_missing :: bool
  tables :: "'tbl registry"

text \<open>The constructor; the schema's name comes from \<open>CreateSchemaInfo\<close>.\<close>

definition ProtoIcebergSchemaEntry :: "string \<Rightarrow> 'tbl schema_entry" where
  "ProtoIcebergSchemaEntry name =
     \<lparr>se_name = name, namespace_missing = False, tables = empty_registry\<rparr>"

definition IsNamespaceMissing :: "'tbl schema_entry \<Rightarrow> bool" where
  "IsNamespaceMissing se = namespace_missing se"

definition MarkNamespaceMissing :: "'tbl schema_entry \<Rightarrow> 'tbl schema_entry" where
  "MarkNamespaceMissing se = se\<lparr>namespace_missing := True\<rparr>"

definition LoadTableEntry ::
  "('w, 'tbl) iceberg_catalog \<Rightarrow> 'tbl iceberg_table \<Rightarrow> add_column \<Rightarrow> 64 word \<Rightarrow> string \<Rightarrow>
   'tbl schema_entry \<Rightarrow> 'w env \<Rightarrow> nat option throws \<times> 'tbl schema_entry \<times> 'w env" where
  "LoadTableEntry C T A start_timestamp_ms tbl_name se env =
     (let env = write_log (LogLoadTable (se_name se) tbl_name) env;
        (table_result, env) = call_service (LoadTable C (GetTableIdentifier (se_name se) tbl_name)) env
      in case table_result of
           Inl err \<Rightarrow>
             (let missing_ns = (err_kind err = kNoSuchNamespace)
              in if missing_ns \<or> err_kind err = kNoSuchTable
                 then (let se = (if missing_ns then MarkNamespaceMissing se else se)
                       in (Inr None, se\<lparr>tables := MarkMissing tbl_name (tables se)\<rparr>, env))
                 else (Inl (IOException (''Failed to load table '' @ CHR 0x27 # se_name se @ ''.'' @
                         tbl_name @ CHR 0x27 # '': '' @ err_message err)), se, env))
         | Inr table \<Rightarrow>
             (case ResolveScanInfo T start_timestamp_ms table (se_name se) tbl_name
                     (RegisterS3Finalizer env) of
                (Inl e, env) \<Rightarrow> (Inl e, se, env)
              | (Inr info, env) \<Rightarrow>
                  (case CreateTableEntry A info tbl_name of
                     Inl e \<Rightarrow> (Inl e, se, env)
                   | Inr entry \<Rightarrow>
                       (case RegistryStore entry (tables se) of
                          (stored, reg) \<Rightarrow> (Inr (Some stored), se\<lparr>tables := reg\<rparr>, env)))))"

datatype catalog_type = TABLE_ENTRY | SCHEMA_ENTRY | OTHER_ENTRY nat

definition LookupEntry ::
  "('w, 'tbl) iceberg_catalog \<Rightarrow> 'tbl iceberg_table \<Rightarrow> add_column \<Rightarrow> 64 word \<Rightarrow> catalog_type \<Rightarrow> string \<Rightarrow>
   'tbl schema_entry \<Rightarrow> 'w env \<Rightarrow> nat option throws \<times> 'tbl schema_entry \<times> 'w env" where
  "LookupEntry C T A start_timestamp_ms type tbl_name se env =
     (if type \<noteq> TABLE_ENTRY then (Inr None, se, env)
      else case RegistryLookup (tables se) tbl_name of
             Negative \<Rightarrow> (Inr None, se, env)
           | Positive i \<Rightarrow>
               (if NeedsLoad (deref (tables se) i)
                then LoadTableEntry C T A start_timestamp_ms tbl_name se env
                else (Inr (Some i), se, env))
           | Unknown \<Rightarrow> LoadTableEntry C T A start_timestamp_ms tbl_name se env)"

section \<open>Listing\<close>

text \<open>The loop over the listed children, which stores a placeholder for each unknown one.\<close>

fun StorePlaceholders ::
  "add_column \<Rightarrow> table_identifier list \<Rightarrow> 'tbl registry \<Rightarrow> unit throws \<times> 'tbl registry" where
  "StorePlaceholders A [] reg = (Inr (), reg)"
| "StorePlaceholders A (child # children) reg =
     (if RegistryLookup reg (ident_name child) = Unknown
      then (case A [] \<lparr>col_name = ''__'', col_type = UNKNOWN, col_comment = None\<rparr> of
              Inl e \<Rightarrow> (Inl e, reg)
            | Inr columns \<Rightarrow>
                StorePlaceholders A children
                  (snd (RegistryStore (ProtoIcebergTableEntry (ident_name child) columns None) reg)))
      else StorePlaceholders A children reg)"

text \<open>
  \<open>Scan\<close> is the listing, done once, and then the callback on every stored entry; the callback acts on
  a state \<open>'s\<close> of the caller and may throw. \<open>Inr False\<close> is the early return of the listing.
\<close>

definition error_is :: "error_kind \<Rightarrow> 'a ice_result \<Rightarrow> bool" where
  "error_is kind result = (case result of Inl err \<Rightarrow> err_kind err = kind | Inr _ \<Rightarrow> False)"

definition ListOnce ::
  "('w, 'tbl) iceberg_catalog \<Rightarrow> add_column \<Rightarrow> 'tbl schema_entry \<Rightarrow> 'w env \<Rightarrow>
   bool throws \<times> 'tbl schema_entry \<times> 'w env" where
  "ListOnce C A se env =
     (if RegistryListed (tables se) then (Inr True, se, env)
      else (let env = write_log (LogListTables (se_name se)) env;
              (result, env) = call_service (ListTables C (GetNamespace (se_name se))) env
            in if error_is kNoSuchNamespace result then (Inr False, MarkNamespaceMissing se, env)
               else (case UnwrapOrThrow IOException result
                            (''Failed to list tables in namespace '' @ CHR 0x27 # se_name se @ [CHR 0x27]) of
                       Inl e \<Rightarrow> (Inl e, se, env)
                     | Inr children \<Rightarrow>
                         (case StorePlaceholders A children (MarkListed (tables se)) of
                            (Inl e, reg) \<Rightarrow> (Inl e, se\<lparr>tables := reg\<rparr>, env)
                          | (Inr _, reg) \<Rightarrow> (Inr True, se\<lparr>tables := reg\<rparr>, env)))))"

definition Scan ::
  "('w, 'tbl) iceberg_catalog \<Rightarrow> add_column \<Rightarrow> catalog_type \<Rightarrow> (nat \<Rightarrow> 's \<Rightarrow> exception + 's) \<Rightarrow> 's \<Rightarrow>
   'tbl schema_entry \<Rightarrow> 'w env \<Rightarrow> 's throws \<times> 'tbl schema_entry \<times> 'w env" where
  "Scan C A type callback s se env =
     (if type \<noteq> TABLE_ENTRY then (Inr s, se, env)
      else if IsNamespaceMissing se then (Inr s, se, env)
      else case ListOnce C A se env of
             (Inl e, se, env) \<Rightarrow> (Inl e, se, env)
           | (Inr False, se, env) \<Rightarrow> (Inr s, se, env)
           | (Inr True, se, env) \<Rightarrow>
               (RegistryForEach (\<lambda>_ entry. callback entry) (tables se) s, se, env))"

section \<open>What a read-only schema refuses\<close>

datatype schema_ddl =
    CreateTable | CreateFunction | CreateIndex | CreateView | CreateSequence | CreateTableFunction
  | CreateCopyFunction | CreatePragmaFunction | CreateType | CreateCollation | Alter

fun SchemaDDL :: "schema_ddl \<Rightarrow> 'a throws" where
  "SchemaDDL CreateTable =
     Inl (NotImplementedException ''CREATE TABLE is not supported in a read-only Iceberg catalog'')"
| "SchemaDDL CreateFunction =
     Inl (BinderException ''Iceberg databases do not support creating functions'')"
| "SchemaDDL CreateIndex =
     Inl (NotImplementedException ''CREATE INDEX is not supported in a read-only Iceberg catalog'')"
| "SchemaDDL CreateView =
     Inl (NotImplementedException ''CREATE VIEW is not supported in a read-only Iceberg catalog'')"
| "SchemaDDL CreateSequence =
     Inl (BinderException ''Iceberg databases do not support creating sequences'')"
| "SchemaDDL CreateTableFunction =
     Inl (BinderException ''Iceberg databases do not support creating table functions'')"
| "SchemaDDL CreateCopyFunction =
     Inl (BinderException ''Iceberg databases do not support creating copy functions'')"
| "SchemaDDL CreatePragmaFunction =
     Inl (BinderException ''Iceberg databases do not support creating pragma functions'')"
| "SchemaDDL CreateType =
     Inl (BinderException ''Iceberg databases do not support creating types'')"
| "SchemaDDL CreateCollation =
     Inl (BinderException ''Iceberg databases do not support creating collations'')"
| "SchemaDDL Alter =
     Inl (NotImplementedException ''ALTER is not supported in a read-only Iceberg catalog'')"

text \<open>The scan without a context, and \<open>DropEntry\<close>.\<close>

definition ScanWithoutContext :: "'a throws" where
  "ScanWithoutContext =
     Inl (NotImplementedException ''Scan without context is not supported for Iceberg catalogs'')"

definition DropEntry :: "'a throws" where
  "DropEntry = Inl (NotImplementedException ''DROP is not supported in a read-only Iceberg catalog'')"

section \<open>Resolving a table's state\<close>

text \<open>What it means that a scan reads the table's state as of the transaction's start.\<close>

definition changed_since :: "'tbl iceberg_table \<Rightarrow> 64 word \<Rightarrow> 'tbl \<Rightarrow> bool" where
  "changed_since T start table \<longleftrightarrow> last_updated_ms T table > TimePointMsFromUnixMs T start"

definition reads_as_of :: "'tbl iceberg_table \<Rightarrow> 64 word \<Rightarrow> 'tbl \<Rightarrow> 'tbl scan_info \<Rightarrow> bool" where
  "reads_as_of T start table info \<longleftrightarrow>
     si_table info = table \<and>
     (case si_mode info of
        CurrentRead \<Rightarrow>
          (snapshots T table = [] \<or> \<not> changed_since T start table) \<and>
          current_schema T table = Inr (si_schema info)
      | PinnedRead snap \<Rightarrow>
          snapshots T table \<noteq> [] \<and> changed_since T start table \<and>
          OptionalSnapshotIdAsOfTime T table (TimePointMsFromUnixMs T start) = Some snap \<and>
          SchemaFor T table snap = Inr (si_schema info))"

lemma ResolveScanInfo_reads:
  "ResolveScanInfo T start table ns_name t env = (Inr info, env') \<Longrightarrow> reads_as_of T start table info"
  by (auto simp: ResolveScanInfo_def reads_as_of_def changed_since_def Let_def
      split: if_splits option.splits sum.splits)

lemma ResolveScanInfo_env:
  "ResolveScanInfo T start table ns_name t env = (r, env') \<Longrightarrow>
   world env' = world env \<and> s3_finalizer env' = s3_finalizer env \<and>
   log env' \<in> {log env} \<union> range (\<lambda>snap. log env @ [LogPinned ns_name t snap])"
  by (auto simp: ResolveScanInfo_def Let_def env_simps split: if_splits option.splits sum.splits)

text \<open>
  A table without snapshots is read as it is when it is loaded, also when it has changed since the
  transaction started.
\<close>

lemma snapshotless_reads_current:
  "snapshots T table = [] \<Longrightarrow> changed_since T start table \<Longrightarrow> current_schema T table = Inr schema \<Longrightarrow>
   fst (ResolveScanInfo T start table ns_name t env) =
     Inr \<lparr>si_table = table, si_mode = CurrentRead, si_schema = schema\<rparr>"
  by (simp add: ResolveScanInfo_def Let_def)

section \<open>Loading a table\<close>

lemma AddTableColumns_columns:
  assumes "\<And>columns col columns'. A columns col = Inr columns' \<Longrightarrow> columns' = columns @ [col]"
    and "AddTableColumns A flds columns = Inr columns'"
  shows "\<exists>added. columns' = columns @ added \<and>
    map col_name added = map field_name flds \<and>
    map (Inr \<circ> col_type) added = map (MapIcebergType \<circ> field_type) flds \<and>
    map col_comment added = map (\<lambda>f. if field_doc f = [] then None else Some (field_doc f)) flds"
  using assms(2)
proof (induction flds arbitrary: columns)
  case (Cons field flds)
  then obtain ty columns1 where ty: "MapIcebergType (field_type field) = Inr ty"
    and add: "A columns \<lparr>col_name = field_name field, col_type = ty,
      col_comment = (if field_doc field = [] then None else Some (field_doc field))\<rparr> = Inr columns1"
    and rest: "AddTableColumns A flds columns1 = Inr columns'"
    by (auto simp: Let_def split: sum.splits)
  from Cons.IH [OF rest] obtain added where "columns' = columns1 @ added"
    "map col_name added = map field_name flds"
    "map (Inr \<circ> col_type) added = map (MapIcebergType \<circ> field_type) flds"
    "map col_comment added = map (\<lambda>f. if field_doc f = [] then None else Some (field_doc f)) flds"
    by blast
  with ty assms(1) [OF add] show ?case
    by (intro exI [of _ "\<lparr>col_name = field_name field, col_type = ty,
        col_comment = (if field_doc field = [] then None else Some (field_doc field))\<rparr> # added"])
      (simp add: o_def)
qed simp

lemma LoadTableEntry_cases [consumes 1, case_names missing threw loaded]:
  assumes "LoadTableEntry C T A start t se env = (r, se', env')"
  obtains
    "r = Inr None" "tables se' = MarkMissing t (tables se)" "se_name se' = se_name se"
    "namespace_missing se \<longrightarrow> namespace_missing se'"
  | e where "r = Inl e" "se' = se"
  | table info columns where
      "fst (LoadTable C (GetTableIdentifier (se_name se) t) (world env)) = Inr table"
      "reads_as_of T start table info" "AddTableColumns A (si_schema info) [] = Inr columns"
      "r = Inr (Some (length (reg_entries (tables se))))"
      "se' = se\<lparr>tables := snd (RegistryStore (ProtoIcebergTableEntry t columns (Some info)) (tables se))\<rparr>"
proof (cases "fst (LoadTable C (GetTableIdentifier (se_name se) t) (world env))")
  case (Inl err)
  with assms that(1,2) show ?thesis
    by (auto simp: LoadTableEntry_def Let_def call_service_def env_simps MarkNamespaceMissing_def
        split: prod.splits if_splits)
next
  case (Inr table)
  from assms Inr show ?thesis
    by (auto simp: LoadTableEntry_def Let_def call_service_def env_simps CreateTableEntry_def
        RegistryStore_def split: prod.splits sum.splits
        intro: that(2) that(3) dest: ResolveScanInfo_reads)
qed

lemma LoadTableEntry_env:
  assumes "LoadTableEntry C T A start t se env = (r, se', env')"
  shows "world env' = snd (LoadTable C (GetTableIdentifier (se_name se) t) (world env)) \<and>
    log env' \<in> {log env @ [LogLoadTable (se_name se) t]} \<union>
      range (\<lambda>snap. log env @ [LogLoadTable (se_name se) t, LogPinned (se_name se) t snap])"
  using assms
  by (auto simp: LoadTableEntry_def Let_def call_service_def env_simps
      split: prod.splits sum.splits if_splits dest!: ResolveScanInfo_env)

section \<open>What an operation preserves\<close>

text \<open>
  \<open>settled se t r\<close>: the transaction has an answer for table \<open>t\<close>, the loaded entry \<open>r\<close> or its absence.
  \<open>later\<close>: the schema entry some operations later; every reference is still good, no answer has
  changed and a missing namespace stays missing.
\<close>

definition settled :: "'tbl schema_entry \<Rightarrow> string \<Rightarrow> nat option \<Rightarrow> bool" where
  "settled se t r \<longleftrightarrow>
     (case r of
        None \<Rightarrow> RegistryLookup (tables se) t = Negative
      | Some i \<Rightarrow> RegistryLookup (tables se) t = Positive i \<and> \<not> NeedsLoad (deref (tables se) i))"

definition later :: "'tbl schema_entry \<Rightarrow> 'tbl schema_entry \<Rightarrow> bool" where
  "later se se' \<longleftrightarrow>
     registry_ok (tables se') \<and> retained (tables se) (tables se') \<and> se_name se' = se_name se \<and>
     (namespace_missing se \<longrightarrow> namespace_missing se') \<and>
     (\<forall>t r. settled se t r \<longrightarrow> settled se' t r)"

lemma later_refl: "registry_ok (tables se) \<Longrightarrow> later se se"
  by (simp add: later_def)

lemma later_trans: "later a b \<Longrightarrow> later b c \<Longrightarrow> later a c"
  unfolding later_def using retained_trans by metis

lemma settled_other:
  assumes "registry_ok (tables se)" and "retained (tables se) (tables se')"
    and "RegistryLookup (tables se') t = RegistryLookup (tables se) t" and "settled se t r"
  shows "settled se' t r"
  using assms registry_okD [OF assms(1), of t] deref_retained [OF assms(2)]
  by (auto simp: settled_def split: option.splits dest!: same_entry_simps)

lemma laterI:
  assumes "registry_ok (tables se)" "registry_ok (tables se')" "retained (tables se) (tables se')"
    and "se_name se' = se_name se" "namespace_missing se \<longrightarrow> namespace_missing se'"
    and "\<And>t r. settled se t r \<Longrightarrow> RegistryLookup (tables se') t = RegistryLookup (tables se) t"
  shows "later se se'"
  using assms settled_other [OF assms(1,3)] unfolding later_def by blast

lemma later_MarkNamespaceMissing: "registry_ok (tables se) \<Longrightarrow> later se (MarkNamespaceMissing se)"
  by (rule laterI) (simp_all add: MarkNamespaceMissing_def)

lemma later_SetHasSecret:
  "registry_ok (tables se) \<Longrightarrow> later se (se\<lparr>tables := SetHasSecret i (tables se)\<rparr>)"
  by (rule laterI) simp_all

lemma LoadTableEntry_later:
  assumes "LoadTableEntry C T A start t se env = (r, se', env')" and "registry_ok (tables se)"
    and "\<And>r. \<not> settled se t r"
  shows "later se se' \<and> (\<forall>x. r = Inr x \<longrightarrow> settled se' t x) \<and> ((\<exists>e. r = Inl e) \<longrightarrow> se' = se)"
  using assms(1)
proof (cases rule: LoadTableEntry_cases)
  case missing
  have "RegistryLookup (tables se') k = RegistryLookup (tables se) k" if "settled se k x" for k x
    using that assms(3) [of x] missing(2) by (cases "k = t") simp_all
  then have "later se se'"
    using assms(2) missing by (intro laterI) simp_all
  then show ?thesis
    using missing by (simp add: settled_def)
next
  case (threw e)
  then show ?thesis using assms(2) by (simp add: later_refl)
next
  case (loaded table info columns)
  have "RegistryLookup (tables se') k = RegistryLookup (tables se) k" if "settled se k x" for k x
    using that assms(3) [of x] loaded(5)
    by (cases "k = t") (simp_all add: ProtoIcebergTableEntry_def)
  then have "later se se'"
    using assms(2) loaded(5) by (intro laterI) simp_all
  then show ?thesis
    using loaded(4,5) by (simp add: settled_def ProtoIcebergTableEntry_def NeedsLoad_def)
qed

lemma LookupEntry_settled:
  "settled se t r \<Longrightarrow> LookupEntry C T A start TABLE_ENTRY t se env = (Inr r, se, env)"
  by (auto simp: settled_def LookupEntry_def split: option.splits)

lemma LookupEntry_unsettled:
  assumes "\<And>r. \<not> settled se t r"
  shows "LookupEntry C T A start TABLE_ENTRY t se env = LoadTableEntry C T A start t se env"
proof (cases "RegistryLookup (tables se) t")
  case Negative
  with assms [of None] show ?thesis by (simp add: settled_def)
next
  case (Positive i)
  with assms [of "Some i"] show ?thesis by (simp add: settled_def LookupEntry_def)
qed (simp add: LookupEntry_def)

lemma LookupEntry_later:
  assumes "LookupEntry C T A start ty t se env = (r, se', env')" and "registry_ok (tables se)"
  shows "later se se' \<and> (ty = TABLE_ENTRY \<longrightarrow> (\<forall>x. r = Inr x \<longrightarrow> settled se' t x)) \<and>
    ((\<exists>e. r = Inl e) \<longrightarrow> se' = se)"
proof (cases "ty = TABLE_ENTRY")
  case True
  show ?thesis
  proof (cases "\<exists>r. settled se t r")
    case True
    then show ?thesis
      using assms \<open>ty = TABLE_ENTRY\<close> by (auto simp: LookupEntry_settled later_refl)
  next
    case False
    then show ?thesis
      using LoadTableEntry_later [of C T A start t se env r se' env'] assms \<open>ty = TABLE_ENTRY\<close>
      by (simp add: LookupEntry_unsettled)
  qed
next
  case False
  then show ?thesis using assms by (simp add: LookupEntry_def later_refl)
qed

section \<open>What a listing does\<close>

lemma StorePlaceholders_keeps:
  assumes "StorePlaceholders A children reg = (r, reg')" and "registry_ok reg"
  shows "registry_ok reg' \<and> retained reg reg' \<and>
    (\<forall>t. RegistryLookup reg t \<noteq> Unknown \<longrightarrow> RegistryLookup reg' t = RegistryLookup reg t)"
  using assms
proof (induction A children reg arbitrary: r reg' rule: StorePlaceholders.induct)
  case (2 A child children reg)
  show ?case
  proof (cases "RegistryLookup reg (ident_name child) = Unknown")
    case True
    show ?thesis
    proof (cases "A [] \<lparr>col_name = ''__'', col_type = UNKNOWN, col_comment = None\<rparr>")
      case (Inl e)
      then show ?thesis using "2.prems" True by simp
    next
      case (Inr columns)
      let ?reg = "snd (RegistryStore (ProtoIcebergTableEntry (ident_name child) columns None) reg)"
      from "2.prems" True Inr have "StorePlaceholders A children ?reg = (r, reg')" by simp
      with "2.IH"(1) [OF True Inr] "2.prems"(2) have IH: "registry_ok reg'" "retained ?reg reg'"
        "\<forall>t. RegistryLookup ?reg t \<noteq> Unknown \<longrightarrow> RegistryLookup reg' t = RegistryLookup ?reg t"
        by simp_all
      moreover have "retained reg reg'"
        using retained_trans [OF retained_Store IH(2)] .
      ultimately show ?thesis
        using True by (auto simp: ProtoIcebergTableEntry_def split: if_splits)
    qed
  next
    case False
    then show ?thesis using "2.IH"(2) "2.prems" by simp
  qed
qed simp

lemma StorePlaceholders_lists:
  assumes "StorePlaceholders A children reg = (Inr u, reg')" and "registry_ok reg"
    and "RegistryLookup reg t = Unknown"
  shows "if t \<in> ident_name ` set children
    then \<exists>i. RegistryLookup reg' t = Positive i \<and> NeedsLoad (deref reg' i)
    else RegistryLookup reg' t = Unknown"
  using assms
proof (induction A children reg arbitrary: u reg' rule: StorePlaceholders.induct)
  case (2 A child children reg)
  show ?case
  proof (cases "RegistryLookup reg (ident_name child) = Unknown")
    case True
    with "2.prems" obtain columns where
      cols: "A [] \<lparr>col_name = ''__'', col_type = UNKNOWN, col_comment = None\<rparr> = Inr columns"
      by (auto split: sum.splits)
    let ?entry = "ProtoIcebergTableEntry (ident_name child) columns None :: 'a table_entry"
    let ?reg = "snd (RegistryStore ?entry reg)"
    from "2.prems" True cols have rest: "StorePlaceholders A children ?reg = (Inr u, reg')" by simp
    have ok: "registry_ok ?reg" using "2.prems"(2) by simp
    show ?thesis
    proof (cases "t = ident_name child")
      case True
      then have known: "RegistryLookup ?reg t = Positive (length (reg_entries reg))"
        by (simp add: ProtoIcebergTableEntry_def)
      have "RegistryLookup reg' t = Positive (length (reg_entries reg))" and "retained ?reg reg'"
        using StorePlaceholders_keeps [OF rest ok] known by simp_all
      moreover from \<open>retained ?reg reg'\<close>
      have "same_entry (deref ?reg (length (reg_entries reg))) (deref reg' (length (reg_entries reg)))"
        by (rule deref_retained) simp
      then have "NeedsLoad (deref reg' (length (reg_entries reg)))"
        by (auto dest!: same_entry_simps simp: NeedsLoad_def ProtoIcebergTableEntry_def)
      ultimately show ?thesis using True by simp
    next
      case False
      then have "RegistryLookup ?reg t = Unknown"
        using "2.prems"(3) by (simp add: ProtoIcebergTableEntry_def)
      from "2.IH"(1) [OF \<open>RegistryLookup reg (ident_name child) = Unknown\<close> cols rest ok this] False
      show ?thesis by simp
    qed
  next
    case False
    then have "t \<noteq> ident_name child" using "2.prems"(3) by auto
    with False "2.IH"(2) [OF False _ "2.prems"(2,3)] "2.prems"(1) show ?thesis by simp
  qed
qed simp

lemma StorePlaceholders_placed:
  "A [] \<lparr>col_name = ''__'', col_type = UNKNOWN, col_comment = None\<rparr> = Inr columns \<Longrightarrow>
   \<exists>reg'. StorePlaceholders A children reg = (Inr (), reg')"
  by (induction children arbitrary: reg) auto

lemma ListOnce_cases [consumes 1, case_names known missing failed stopped listed]:
  assumes "ListOnce C A se env = (r, se', env')"
  obtains "reg_listed (tables se)" "r = Inr True" "se' = se" "env' = env"
  | err where "\<not> reg_listed (tables se)" "r = Inr False" "se' = MarkNamespaceMissing se"
      "fst (ListTables C (GetNamespace (se_name se)) (world env)) = Inl err"
      "err_kind err = kNoSuchNamespace" "log env' = log env @ [LogListTables (se_name se)]"
  | e where "\<not> reg_listed (tables se)" "r = Inl e" "se' = se"
      "log env' = log env @ [LogListTables (se_name se)]"
  | children e reg where "\<not> reg_listed (tables se)" "r = Inl e" "se' = se\<lparr>tables := reg\<rparr>"
      "StorePlaceholders A children (MarkListed (tables se)) = (Inl e, reg)"
      "log env' = log env @ [LogListTables (se_name se)]"
  | children u reg where "\<not> reg_listed (tables se)" "r = Inr True" "se' = se\<lparr>tables := reg\<rparr>"
      "fst (ListTables C (GetNamespace (se_name se)) (world env)) = Inr children"
      "StorePlaceholders A children (MarkListed (tables se)) = (Inr u, reg)"
      "log env' = log env @ [LogListTables (se_name se)]"
proof (cases "reg_listed (tables se)")
  case True
  with assms show ?thesis by (intro that(1)) (simp_all add: ListOnce_def RegistryListed_def)
next
  case False
  obtain result w where call: "ListTables C (GetNamespace (se_name se)) (world env) = (result, w)"
    by fastforce
  note unfolded = assms [unfolded ListOnce_def RegistryListed_def Let_def call_service_def env_simps
      call prod.case]
  show ?thesis
  proof (cases result)
    case (Inl err)
    show ?thesis
    proof (cases "err_kind err = kNoSuchNamespace")
      case True
      from unfolded False Inl True show ?thesis
        by (intro that(2)) (auto simp: error_is_def env_simps call)
    next
      case False
      from unfolded \<open>\<not> reg_listed (tables se)\<close> Inl False show ?thesis
        by (intro that(3)) (auto simp: error_is_def env_simps)
    qed
  next
    case (Inr children)
    obtain r1 reg where store: "StorePlaceholders A children (MarkListed (tables se)) = (r1, reg)"
      by fastforce
    show ?thesis
    proof (cases r1)
      case (Inl e)
      from unfolded False \<open>result = Inr children\<close> store Inl show ?thesis
        by (intro that(4) [of e reg children]) (auto simp: error_is_def env_simps)
    next
      case (Inr u)
      from unfolded False \<open>result = Inr children\<close> store Inr show ?thesis
        by (intro that(5) [of reg children u]) (auto simp: error_is_def env_simps call)
    qed
  qed
qed

lemma settled_known: "settled se t r \<Longrightarrow> RegistryLookup (tables se) t \<noteq> Unknown"
  by (auto simp: settled_def split: option.splits)

lemma StorePlaceholders_later:
  assumes "StorePlaceholders A children (MarkListed (tables se)) = (r, reg)" "registry_ok (tables se)"
  shows "later se (se\<lparr>tables := reg\<rparr>)"
proof -
  from StorePlaceholders_keeps [OF assms(1)] assms(2) have facts: "registry_ok reg"
    "retained (MarkListed (tables se)) reg"
    "\<forall>t. RegistryLookup (tables se) t \<noteq> Unknown \<longrightarrow> RegistryLookup reg t = RegistryLookup (tables se) t"
    by simp_all
  then show ?thesis
    using assms(2) retained_trans [OF retained_MarkListed facts(2)]
    by (intro laterI) (auto dest: settled_known)
qed

lemma ListOnce_later:
  assumes "ListOnce C A se env = (r, se', env')" and "registry_ok (tables se)"
  shows "later se se'"
  using assms(1)
proof (cases rule: ListOnce_cases)
  case known
  with assms(2) show ?thesis by (simp add: later_refl)
next
  case (missing err)
  with assms(2) show ?thesis by (simp add: later_MarkNamespaceMissing)
next
  case (failed e)
  with assms(2) show ?thesis by (simp add: later_refl)
next
  case (stopped children e reg)
  then show ?thesis using StorePlaceholders_later [OF _ assms(2)] by blast
next
  case (listed children u reg)
  then show ?thesis using StorePlaceholders_later [OF _ assms(2)] by blast
qed

text \<open>The state a scan leaves is that of its listing, whatever the callback does.\<close>

lemma Scan_state:
  "snd (Scan C A ty callback s se env) =
   (if ty \<noteq> TABLE_ENTRY \<or> namespace_missing se then (se, env) else snd (ListOnce C A se env))"
  by (auto simp: Scan_def IsNamespaceMissing_def split: prod.split sum.split bool.split)

lemma Scan_later:
  assumes "Scan C A ty callback s se env = (r, se', env')" and "registry_ok (tables se)"
  shows "later se se'"
proof -
  have "(se', env') = snd (Scan C A ty callback s se env)" using assms(1) by simp
  then show ?thesis
    using ListOnce_later [of C A se env "fst (ListOnce C A se env)" se' env'] assms(2)
    by (simp add: Scan_state later_refl split: if_splits)
qed

section \<open>A schema entry through a transaction\<close>

text \<open>
  The steps of a schema entry: a lookup, a scan, the missing mark a schema listing sets, the note that
  an entry's secret exists, and anything that happens elsewhere.
\<close>

inductive schema_step ::
  "('w, 'tbl) iceberg_catalog \<Rightarrow> 'tbl iceberg_table \<Rightarrow> add_column \<Rightarrow> 64 word \<Rightarrow>
   'tbl schema_entry \<times> 'w env \<Rightarrow> 'tbl schema_entry \<times> 'w env \<Rightarrow> bool"
  for C T A start
  where
    step_lookup: "LookupEntry C T A start ty t se env = (r, se', env') \<Longrightarrow>
      schema_step C T A start (se, env) (se', env')"
  | step_scan: "Scan C A ty (callback :: nat \<Rightarrow> unit \<Rightarrow> exception + unit) () se env = (r, se', env') \<Longrightarrow>
      schema_step C T A start (se, env) (se', env')"
  | step_missing: "schema_step C T A start (se, env) (MarkNamespaceMissing se, env)"
  | step_secret: "schema_step C T A start (se, env) (se\<lparr>tables := SetHasSecret i (tables se)\<rparr>, env)"
  | step_elsewhere: "schema_step C T A start (se, env) (se, env')"

inductive schema_steps ::
  "('w, 'tbl) iceberg_catalog \<Rightarrow> 'tbl iceberg_table \<Rightarrow> add_column \<Rightarrow> 64 word \<Rightarrow>
   'tbl schema_entry \<times> 'w env \<Rightarrow> 'tbl schema_entry \<times> 'w env \<Rightarrow> bool"
  for C T A start
  where
    steps_refl [simp, intro]: "schema_steps C T A start x x"
  | steps_step: "schema_steps C T A start x y \<Longrightarrow> schema_step C T A start y z \<Longrightarrow>
      schema_steps C T A start x z"

lemma schema_step_later:
  assumes "schema_step C T A start x y" and "registry_ok (tables (fst x))"
  shows "later (fst x) (fst y)"
  using assms
  by (cases rule: schema_step.cases)
    (simp_all add: Scan_later LookupEntry_later later_MarkNamespaceMissing later_SetHasSecret later_refl)

lemma schema_steps_later:
  assumes "schema_steps C T A start x y" and "registry_ok (tables (fst x))"
  shows "later (fst x) (fst y)"
  using assms
proof (induction rule: schema_steps.induct)
  case (steps_refl x)
  then show ?case by (rule later_refl)
next
  case (steps_step x y z)
  then have "later (fst x) (fst y)" and "registry_ok (tables (fst y))"
    by (simp_all add: later_def)
  then show ?case
    using schema_step_later [OF steps_step.hyps(2)] later_trans by blast
qed

section \<open>Every entry is right\<close>

definition appends_column :: "add_column \<Rightarrow> bool" where
  "appends_column A \<longleftrightarrow> (\<forall>columns col columns'. A columns col = Inr columns' \<longrightarrow> columns' = columns @ [col])"

definition columns_mirror :: "table_column list \<Rightarrow> iceberg_schema \<Rightarrow> bool" where
  "columns_mirror columns schema \<longleftrightarrow>
     map col_name columns = map field_name schema \<and>
     map (Inr \<circ> col_type) columns = map (MapIcebergType \<circ> field_type) schema \<and>
     map col_comment columns = map (\<lambda>f. if field_doc f = [] then None else Some (field_doc f)) schema"

definition entry_ok :: "'tbl iceberg_table \<Rightarrow> 64 word \<Rightarrow> 'tbl table_entry \<Rightarrow> bool" where
  "entry_ok T start entry \<longleftrightarrow>
     (case te_scan_info entry of
        None \<Rightarrow> True
      | Some info \<Rightarrow>
          reads_as_of T start (si_table info) info \<and> columns_mirror (te_columns entry) (si_schema info))"

definition entries_ok :: "'tbl iceberg_table \<Rightarrow> 64 word \<Rightarrow> 'tbl registry \<Rightarrow> bool" where
  "entries_ok T start reg \<longleftrightarrow> (\<forall>i < length (reg_entries reg). entry_ok T start (deref reg i))"

lemma entries_ok_empty [simp]: "entries_ok T start empty_registry"
  by (simp add: entries_ok_def empty_registry_def)

lemma entries_ok_Store:
  "entries_ok T start reg \<Longrightarrow> entry_ok T start entry \<Longrightarrow>
   entries_ok T start (snd (RegistryStore entry reg))"
  by (auto simp: entries_ok_def deref_def nth_append less_Suc_eq)

lemma entry_ok_same: "same_entry e e' \<Longrightarrow> entry_ok T start e' = entry_ok T start e"
  using same_entry_simps [of e e'] by (simp add: entry_ok_def split: option.split)

lemma entries_ok_same:
  assumes "entries_ok T start reg" and "retained reg reg'"
    and "length (reg_entries reg') = length (reg_entries reg)"
  shows "entries_ok T start reg'"
  using assms(1,3) entry_ok_same [OF deref_retained [OF assms(2)]] by (simp add: entries_ok_def)

lemma StorePlaceholders_entries_ok:
  "StorePlaceholders A children reg = (r, reg') \<Longrightarrow> entries_ok T start reg \<Longrightarrow> entries_ok T start reg'"
proof (induction A children reg arbitrary: r reg' rule: StorePlaceholders.induct)
  case (2 A child children reg)
  then show ?case
    by (auto simp: entries_ok_Store entry_ok_def ProtoIcebergTableEntry_def split: if_splits sum.splits)
qed simp

lemma LoadTableEntry_entries_ok:
  assumes "LoadTableEntry C T A start t se env = (r, se', env')" and "appends_column A"
    and "entries_ok T start (tables se)"
  shows "entries_ok T start (tables se')"
  using assms(1)
proof (cases rule: LoadTableEntry_cases)
  case missing
  then show ?thesis using assms(3) by (simp add: entries_ok_def deref_def)
next
  case (threw e)
  then show ?thesis using assms(3) by simp
next
  case (loaded table info columns)
  have "columns_mirror columns (si_schema info)"
    using AddTableColumns_columns [OF _ loaded(3)] assms(2)
    by (simp add: appends_column_def columns_mirror_def o_def)
  with loaded(2,5) show ?thesis
    using assms(3) by (simp add: entries_ok_Store entry_ok_def ProtoIcebergTableEntry_def reads_as_of_def)
qed

lemma schema_step_entries_ok:
  assumes "schema_step C T A start x y" and "appends_column A" and "entries_ok T start (tables (fst x))"
  shows "entries_ok T start (tables (fst y))"
  using assms(1)
proof (cases rule: schema_step.cases)
  case (step_lookup ty t se env r se' env')
  then show ?thesis
    using assms(2,3) LoadTableEntry_entries_ok
    by (fastforce simp: LookupEntry_def split: if_splits lookup_result.splits)
next
  case (step_scan ty callback se env r se' env')
  then have "(se', env') = snd (Scan C A ty callback () se env)" by simp
  then have "se' = se \<or> (\<exists>r. ListOnce C A se env = (r, se', env'))"
    by (auto simp: Scan_state split: if_splits) (metis prod.collapse)
  then have "entries_ok T start (tables se')"
  proof
    assume "\<exists>r. ListOnce C A se env = (r, se', env')"
    then obtain r where "ListOnce C A se env = (r, se', env')" by blast
    then show ?thesis
      using assms(3) step_scan(1)
      by (cases rule: ListOnce_cases)
        (auto simp: MarkNamespaceMissing_def entries_ok_def MarkListed_def deref_def
          dest!: StorePlaceholders_entries_ok [where T = T and start = start])
  qed (use assms(3) step_scan(1) in simp)
  then show ?thesis using step_scan(2) by simp
next
  case (step_secret se env i)
  then show ?thesis using assms(3) by (auto intro: entries_ok_same)
qed (use assms(3) in \<open>simp_all add: MarkNamespaceMissing_def\<close>)

lemma schema_steps_entries_ok:
  assumes "schema_steps C T A start x y" and "appends_column A" and "entries_ok T start (tables (fst x))"
  shows "entries_ok T start (tables (fst y))"
  using assms by (induction rule: schema_steps.induct) (auto dest: schema_step_entries_ok)

section \<open>Properties\<close>

text \<open>The tables of a schema are such a component, whatever happens to the service.\<close>

lemma schema_steps_rtranclp: "schema_steps C T A start x y \<longleftrightarrow> (schema_step C T A start)\<^sup>*\<^sup>* x y"
proof
  show "schema_steps C T A start x y \<Longrightarrow> (schema_step C T A start)\<^sup>*\<^sup>* x y"
    by (induction rule: schema_steps.induct) auto
  show "(schema_step C T A start)\<^sup>*\<^sup>* x y \<Longrightarrow> schema_steps C T A start x y"
    by (induction rule: rtranclp_induct) (auto intro: steps_step)
qed

interpretation table_reads: repeatable "schema_step C T A start" "\<lambda>(se, env). registry_ok (tables se)"
  "\<lambda>t (se, env). LookupEntry C T A start TABLE_ENTRY t se env" "\<lambda>(se, env). settled se"
  for C T A start
proof (unfold_locales, goal_cases)
  case (1 s s')
  then show ?case using schema_step_later [of C T A start s s'] by (auto simp: later_def)
next
  case (2 s s' k r)
  then show ?case using schema_step_later [of C T A start s s'] by (auto simp: later_def split: prod.splits)
qed (auto dest: LookupEntry_later simp: later_def LookupEntry_settled)

lemma LookupEntry_again:
  assumes "registry_ok (tables se)"
    and "LookupEntry C T A start TABLE_ENTRY t se env = (Inr r, se1, env1)"
    and "schema_steps C T A start (se1, env1) (se2, env2)"
  shows "LookupEntry C T A start TABLE_ENTRY t se2 env2 = (Inr r, se2, env2)"
  using table_reads.lookup_again [of "(se, env)" C T A start t r "(se1, env1)" "(se2, env2)"] assms
  by (simp add: schema_steps_rtranclp)

text \<open>
  A lookup hands out finished entries only: in any state a schema can reach, an entry a lookup returns
  bears the table's name, is never a listing placeholder, reads the table as of the transaction's start,
  and its columns are the fields of the schema it reads with: name, mapped type and comment, in order.
\<close>

lemma LookupEntry_finished:
  assumes "appends_column A"
    and "schema_steps C T A start (ProtoIcebergSchemaEntry name, env0) (se, env)"
    and "LookupEntry C T A start TABLE_ENTRY t se env = (Inr (Some i), se', env')"
  shows "te_name (deref (tables se') i) = t \<and>
    (\<exists>info. te_scan_info (deref (tables se') i) = Some info \<and>
            reads_as_of T start (si_table info) info \<and>
            columns_mirror (te_columns (deref (tables se') i)) (si_schema info))"
proof -
  have ok: "registry_ok (tables se)"
    using schema_steps_later [OF assms(2)] by (simp add: ProtoIcebergSchemaEntry_def later_def)
  then have "settled se' t (Some i)" and "registry_ok (tables se')"
    using LookupEntry_later [OF assms(3) ok] by (simp_all add: later_def)
  moreover have "entries_ok T start (tables se')"
    using schema_steps_entries_ok [OF steps_step [OF assms(2) step_lookup [OF assms(3)]] assms(1)]
    by (simp add: ProtoIcebergSchemaEntry_def)
  ultimately show ?thesis
    using registry_okD [of "tables se'" t i]
    by (auto simp: settled_def NeedsLoad_def entries_ok_def entry_ok_def)
qed

text \<open>
  C20. A lookup that throws leaves the schema entry exactly as it was, so that it can be tried again;
  one that returns settles the table: with no entry it is recorded as missing, with an entry the
  index names it and it is loaded.
\<close>

theorem LookupEntry_outcome:
  assumes "registry_ok (tables se)"
  shows "case LookupEntry C T A start TABLE_ENTRY t se env of
      (Inl e, se', env') \<Rightarrow> se' = se
    | (Inr None, se', env') \<Rightarrow> RegistryLookup (tables se') t = Negative
    | (Inr (Some i), se', env') \<Rightarrow>
        RegistryLookup (tables se') t = Positive i \<and> \<not> NeedsLoad (deref (tables se') i)"
proof -
  obtain r se' env' where call: "LookupEntry C T A start TABLE_ENTRY t se env = (r, se', env')"
    using prod_cases3 by blast
  from LookupEntry_later [OF call assms] show ?thesis
    by (auto simp: call settled_def split: sum.split option.split)
qed

text \<open>
  C19. References stay valid: whatever a transaction does with a schema, the entry at every reference
  handed out is the same later, placeholders replaced by a load included; only its note that a secret
  exists may have been set.
\<close>

theorem table_references_stay_valid:
  assumes "schema_steps C T A start (se, env) (se', env')" and "registry_ok (tables se)"
    and "i < length (reg_entries (tables se))"
  shows "i < length (reg_entries (tables se')) \<and>
    (\<exists>b. deref (tables se') i = (deref (tables se) i)\<lparr>te_has_secret := b\<rparr>)"
proof -
  from schema_steps_later [OF assms(1)] assms(2) have "retained (tables se) (tables se')"
    by (simp add: later_def)
  then have "i < length (reg_entries (tables se'))" and "same_entry (deref (tables se) i) (deref (tables se') i)"
    using assms(3) by (auto simp: retained_def)
  then show ?thesis unfolding same_entry_def by blast
qed

text \<open>
  C33. The first scan lists the namespace: it then visits every table the service listed, except
  those this transaction knows to be missing, together with those it had looked up before, each once
  and in name order, calling the callback on the entry of that name; listed tables that were not
  known get a placeholder and are not loaded.
\<close>

theorem Scan_visits:
  assumes "registry_ok (tables se)" and "\<not> reg_listed (tables se)" and "\<not> namespace_missing se"
    and "fst (ListTables C (GetNamespace (se_name se)) (world env)) = Inr children"
    and "A [] \<lparr>col_name = ''__'', col_type = UNKNOWN, col_comment = None\<rparr> = Inr columns"
    and "Scan C A TABLE_ENTRY callback s se env = (r, se', env')"
  shows "r = foldl (\<lambda>r (name, i). case r of Inl e \<Rightarrow> Inl e | Inr s \<Rightarrow> callback i s) (Inr s)
               (visited (tables se')) \<and>
    sorted_wrt (<) (map fst (visited (tables se'))) \<and>
    fst ` set (visited (tables se')) =
      {t. \<exists>i. RegistryLookup (tables se) t = Positive i} \<union>
      (ident_name ` set children - {t. RegistryLookup (tables se) t = Negative}) \<and>
    (\<forall>(name, i) \<in> set (visited (tables se')). te_name (deref (tables se') i) = name) \<and>
    (\<forall>t \<in> ident_name ` set children. RegistryLookup (tables se) t = Unknown \<longrightarrow>
       (\<exists>i. RegistryLookup (tables se') t = Positive i \<and> NeedsLoad (deref (tables se') i))) \<and>
    log env' = log env @ [LogListTables (se_name se)]"
proof -
  obtain reg where store: "StorePlaceholders A children (MarkListed (tables se)) = (Inr (), reg)"
    using StorePlaceholders_placed [where A = A, OF assms(5)] by blast
  then have list: "ListOnce C A se env = (Inr True, se\<lparr>tables := reg\<rparr>, snd (call_service
      (ListTables C (GetNamespace (se_name se))) (write_log (LogListTables (se_name se)) env)))"
    using assms(2,4)
    by (auto simp: ListOnce_def RegistryListed_def call_service_def env_simps error_is_def
        split: prod.split)
  with assms(3,6) have se': "tables se' = reg"
    and r: "r = RegistryForEach (\<lambda>_ entry. callback entry) reg s"
    and logs: "log env' = log env @ [LogListTables (se_name se)]"
    by (auto simp: Scan_def IsNamespaceMissing_def env_simps)
  have placed: "\<forall>t \<in> ident_name ` set children. RegistryLookup (tables se) t = Unknown \<longrightarrow>
      (\<exists>i. RegistryLookup reg t = Positive i \<and> NeedsLoad (deref reg i))"
    using StorePlaceholders_lists [OF store] assms(1) by (auto split: if_splits)
  have keeps: "registry_ok reg"
    "\<forall>t. RegistryLookup (tables se) t \<noteq> Unknown \<longrightarrow> RegistryLookup reg t = RegistryLookup (tables se) t"
    using StorePlaceholders_keeps [OF store] assms(1) by simp_all
  have lists: "RegistryLookup (tables se) t = Unknown \<Longrightarrow>
      if t \<in> ident_name ` set children then \<exists>i. RegistryLookup reg t = Positive i
      else RegistryLookup reg t = Unknown" for t
    using StorePlaceholders_lists [OF store, of t] assms(1) by (auto split: if_splits)
  have known: "(\<exists>i. RegistryLookup reg t = Positive i) \<longleftrightarrow>
      (\<exists>i. RegistryLookup (tables se) t = Positive i) \<or>
      t \<in> ident_name ` set children \<and> RegistryLookup (tables se) t \<noteq> Negative" for t
    using keeps(2) [rule_format, of t] lists [of t]
    by (cases "RegistryLookup (tables se) t") (auto split: if_splits)
  have "t \<in> fst ` set (visited reg) \<longleftrightarrow> (\<exists>i. RegistryLookup reg t = Positive i)" for t
    using visited_iff [OF keeps(1), of t] by force
  then have "fst ` set (visited reg) = {t. \<exists>i. RegistryLookup (tables se) t = Positive i} \<union>
      (ident_name ` set children - {t. RegistryLookup (tables se) t = Negative})"
    by (intro set_eqI) (simp only: known Un_iff Diff_iff mem_Collect_eq)
  moreover have "r = foldl (\<lambda>r (name, i). case r of Inl e \<Rightarrow> Inl e | Inr s \<Rightarrow> callback i s) (Inr s)
      (visited reg)"
    unfolding r RegistryForEach_def ForEachPositive_foldl visited_def by (simp add: case_prod_unfold)
  moreover have "\<forall>(name, i) \<in> set (visited reg). te_name (deref reg i) = name"
    using visited_iff [OF keeps(1)] registry_okD [OF keeps(1)] by blast
  ultimately show ?thesis
    using visited_sorted [OF keeps(1)] placed logs unfolding se' by (intro conjI)
qed

text \<open>A scan that returns has listed the namespace, or found it missing.\<close>

lemma Scan_lists:
  assumes "Scan C A TABLE_ENTRY callback s se env = (Inr s1, se1, env1)" and "registry_ok (tables se)"
  shows "namespace_missing se1 \<or> reg_listed (tables se1)"
proof (cases "namespace_missing se")
  case True
  with assms(1) show ?thesis by (simp add: Scan_def IsNamespaceMissing_def)
next
  case False
  obtain l se' env' where list: "ListOnce C A se env = (l, se', env')" using prod_cases3 by blast
  with assms(1) False have "se' = se1" and "\<exists>b. l = Inr b"
    by (auto simp: Scan_def IsNamespaceMissing_def split: sum.splits bool.splits)
  from list show ?thesis
  proof (cases rule: ListOnce_cases)
    case (listed children u reg)
    then have "retained (MarkListed (tables se)) reg"
      using StorePlaceholders_keeps [OF listed(5)] assms(2) by simp
    with listed(3) \<open>se' = se1\<close> show ?thesis by (simp add: retained_def)
  qed (use \<open>se' = se1\<close> \<open>\<exists>b. l = Inr b\<close> in \<open>auto simp: MarkNamespaceMissing_def\<close>)
qed

text \<open>
  A namespace is listed once: after a scan that returned, later scans in the transaction neither
  call the service nor change the schema entry, also when the namespace turned out to be missing.
\<close>

lemma Scan_once:
  assumes "registry_ok (tables se)"
    and "Scan C A TABLE_ENTRY callback s se env = (Inr s1, se1, env1)"
    and "schema_steps C T A start (se1, env1) (se2, env2)"
  shows "snd (Scan C A TABLE_ENTRY callback' s' se2 env2) = (se2, env2)"
proof -
  have "later se1 se2"
    using schema_steps_later [OF assms(3)] Scan_later [OF assms(2,1)] by (simp add: later_def)
  then have "namespace_missing se2 \<or> reg_listed (tables se2)"
    using Scan_lists [OF assms(2,1)] by (auto simp: later_def retained_def)
  then show ?thesis
    by (auto simp: Scan_state ListOnce_def RegistryListed_def)
qed

text \<open>
  What is relied on of iceberg-cpp: the snapshot found for a point in time is one of the table's and
  not newer than that point, and no snapshot is newer than the table's last update.
\<close>

definition snapshot_laws :: "'tbl iceberg_table \<Rightarrow> 'tbl \<Rightarrow> bool" where
  "snapshot_laws T table \<longleftrightarrow>
     (\<forall>time snap. OptionalSnapshotIdAsOfTime T table time = Some snap \<longrightarrow>
        (\<exists>s \<in> set (snapshots T table). snapshot_id s = snap \<and> timestamp_ms s \<le> time)) \<and>
     (\<forall>s \<in> set (snapshots T table). timestamp_ms s \<le> last_updated_ms T table)"

text \<open>
  C14. A resolved scan reads the table as of the transaction's start. If the table has changed since the
  millisecond the transaction started in, the scan pins the snapshot current then, which is one of the
  table's and was committed no later, and reads it with the schema of that snapshot; if not, it reads the
  current state, all of whose snapshots were committed by then, with the current schema. The exception is
  a table without snapshots that has changed, which is read with its current schema. The table is
  refused with a \<open>TransactionException\<close> exactly when it has snapshots, has changed and none of them was
  current then; anything else that is thrown is that the schema to read could not be.
\<close>

theorem ResolveScanInfo_as_of_start:
  assumes "snapshot_laws T table"
  shows "(case fst (ResolveScanInfo T start table ns_name t env) of
      Inr info \<Rightarrow>
        si_table info = table \<and>
        (case si_mode info of
           PinnedRead snap \<Rightarrow>
             changed_since T start table \<and>
             OptionalSnapshotIdAsOfTime T table (TimePointMsFromUnixMs T start) = Some snap \<and>
             (\<exists>s \<in> set (snapshots T table).
                snapshot_id s = snap \<and> timestamp_ms s \<le> TimePointMsFromUnixMs T start) \<and>
             SchemaFor T table snap = Inr (si_schema info)
         | CurrentRead \<Rightarrow>
             (\<forall>s \<in> set (snapshots T table). timestamp_ms s \<le> TimePointMsFromUnixMs T start) \<and>
             current_schema T table = Inr (si_schema info) \<and>
             (changed_since T start table \<longrightarrow> snapshots T table = []))
    | Inl e \<Rightarrow>
        (\<exists>msg. e = TransactionException msg) \<or>
        (\<exists>msg err. e = IOException msg \<and>
           (if snapshots T table \<noteq> [] \<and> changed_since T start table
            then \<exists>snap. OptionalSnapshotIdAsOfTime T table (TimePointMsFromUnixMs T start) = Some snap \<and>
              SchemaFor T table snap = Inl err
            else current_schema T table = Inl err))) \<and>
    ((\<exists>msg. fst (ResolveScanInfo T start table ns_name t env) = Inl (TransactionException msg)) \<longleftrightarrow>
       snapshots T table \<noteq> [] \<and> changed_since T start table \<and>
       OptionalSnapshotIdAsOfTime T table (TimePointMsFromUnixMs T start) = None)"
  (is "case_sum ?failed ?read _ \<and> _")
proof (rule conjI)
  show "(\<exists>msg. fst (ResolveScanInfo T start table ns_name t env) = Inl (TransactionException msg)) \<longleftrightarrow>
      snapshots T table \<noteq> [] \<and> changed_since T start table \<and>
      OptionalSnapshotIdAsOfTime T table (TimePointMsFromUnixMs T start) = None"
    by (auto simp: ResolveScanInfo_def Let_def changed_since_def UnwrapOrThrow_def
        split: if_splits option.splits sum.splits)
  obtain r env' where call: "ResolveScanInfo T start table ns_name t env = (r, env')" by fastforce
  show "case_sum ?failed ?read (fst (ResolveScanInfo T start table ns_name t env))"
  proof (cases r)
    case (Inl e)
    with call have "?failed e"
      by (auto simp: ResolveScanInfo_def Let_def changed_since_def UnwrapOrThrow_def
          split: if_splits option.splits sum.splits)
    then show ?thesis by (simp add: call Inl)
  next
    case (Inr info)
    with call have reads: "reads_as_of T start table info" by (auto intro: ResolveScanInfo_reads)
    have "?read info"
    proof (cases "si_mode info")
      case CurrentRead
      with reads assms have "\<forall>s \<in> set (snapshots T table). timestamp_ms s \<le> TimePointMsFromUnixMs T start"
        by (fastforce simp: reads_as_of_def changed_since_def snapshot_laws_def)
      with CurrentRead reads show ?thesis by (auto simp: reads_as_of_def)
    next
      case (PinnedRead snap)
      with reads assms show ?thesis by (simp add: reads_as_of_def snapshot_laws_def)
    qed
    then show ?thesis by (simp add: call Inr)
  qed
qed

section \<open>A concrete catalog\<close>

text \<open>
  A service with one namespace and two listed tables, one of which can be loaded; it counts its calls.
  The table has two snapshots, of which the second added a column.
\<close>

definition example_catalog :: "(nat, nat) iceberg_catalog" where
  "example_catalog = \<lparr>
     LoadTable = (\<lambda>ident calls.
       (if ident_name ident = ''orders'' then Inr 7
        else Inl \<lparr>err_kind = kNoSuchTable, err_message = ''no such table''\<rparr>, calls + 1)),
     ListTables = (\<lambda>ns calls.
       (Inr [GetTableIdentifier ''sales'' ''returns'', GetTableIdentifier ''sales'' ''orders''], calls + 1)),
     ListNamespaces = (\<lambda>ns calls. (Inr [GetNamespace ''sales''], calls + 1))\<rparr>"

definition example_table :: "nat iceberg_table" where
  "example_table = \<lparr>
     snapshots = (\<lambda>t. [\<lparr>snapshot_id = 1, timestamp_ms = 100\<rparr>, \<lparr>snapshot_id = 2, timestamp_ms = 300\<rparr>]),
     last_updated_ms = (\<lambda>t. 300),
     current_schema = (\<lambda>t. Inr [SchemaField 1 ''id'' kLong [], SchemaField 2 ''note'' kString ''free text'']),
     OptionalSnapshotIdAsOfTime =
       (\<lambda>t time. if time \<ge> 300 then Some 2 else if time \<ge> 100 then Some 1 else None),
     SchemaFor = (\<lambda>t snap. if snap = 1 then Inr [SchemaField 1 ''id'' kLong []]
        else Inr [SchemaField 1 ''id'' kLong [], SchemaField 2 ''note'' kString ''free text'']),
     TimePointMsFromUnixMs = sint,
     full_name = (\<lambda>t. ''sales.orders''),
     io_properties = (\<lambda>t. Some Map.empty),
     location = (\<lambda>t. ''s3://bucket/orders''),
     write_data_location = (\<lambda>t. [])\<rparr>"

definition example_add_column :: add_column where
  "example_add_column columns col =
     (if col_name col \<in> col_name ` set columns
      then Inl (CatalogException ''Column already exists'') else Inr (columns @ [col]))"

definition example_env :: "nat env" where
  "example_env = \<lparr>world = 0, log = [], s3_finalizer = False\<rparr>"

lemma example_appends [simp]: "appends_column example_add_column"
  by (auto simp: appends_column_def example_add_column_def split: if_splits)

definition example_schema :: "nat schema_entry" where
  "example_schema = ProtoIcebergSchemaEntry ''sales''"

text \<open>A lookup at millisecond 200, between the two snapshots, loads the first one.\<close>

definition example_loaded :: "nat schema_entry" where
  "example_loaded = \<lparr>se_name = ''sales'', namespace_missing = False,
     tables = \<lparr>reg_entries = [\<lparr>te_name = ''orders'',
         te_columns = [\<lparr>col_name = ''id'', col_type = BIGINT, col_comment = None\<rparr>],
         te_scan_info = Some \<lparr>si_table = 7, si_mode = PinnedRead 1,
           si_schema = [SchemaField 1 ''id'' kLong []]\<rparr>,
         te_has_secret = False\<rparr>],
       reg_index = [(''orders'', Some 0)], reg_listed = False\<rparr>\<rparr>"

definition example_loaded_env :: "nat env" where
  "example_loaded_env = \<lparr>world = 1,
     log = [LogLoadTable ''sales'' ''orders'', LogPinned ''sales'' ''orders'' 1], s3_finalizer = True\<rparr>"

lemmas example_defs = example_catalog_def example_table_def example_add_column_def example_env_def
  example_schema_def ProtoIcebergSchemaEntry_def empty_registry_def

lemma example_lookup:
  "LookupEntry example_catalog example_table example_add_column 200 TABLE_ENTRY ''orders''
     example_schema example_env = (Inr (Some 0), example_loaded, example_loaded_env)"
  by (simp add: LookupEntry_def LoadTableEntry_def example_defs example_loaded_def
      example_loaded_env_def RegistryLookup_def call_service_def write_log_def
      GetTableIdentifier_def RegisterS3Finalizer_def ResolveScanInfo_def CreateTableEntry_def
      ProtoIcebergTableEntry_def RegistryStore_def Put_def Let_def)

lemma example_registry_ok [simp]: "registry_ok (tables example_schema)"
  by (simp add: example_schema_def ProtoIcebergSchemaEntry_def)

text \<open>The state after a scan that follows the lookup.\<close>

definition example_scanned :: "nat schema_entry \<times> nat env" where
  "example_scanned = snd (Scan example_catalog example_add_column TABLE_ENTRY (\<lambda>_ _. Inr ()) ()
     example_loaded example_loaded_env)"

lemma example_later_scan:
  "schema_steps example_catalog example_table example_add_column 200
     (example_loaded, example_loaded_env) (fst example_scanned, snd example_scanned)"
proof (rule steps_step [OF steps_refl step_scan])
  show "Scan example_catalog example_add_column TABLE_ENTRY (\<lambda>_ _. Inr ()) ()
      example_loaded example_loaded_env =
    (fst (Scan example_catalog example_add_column TABLE_ENTRY (\<lambda>_ _. Inr ()) ()
      example_loaded example_loaded_env), fst example_scanned, snd example_scanned)"
    by (simp add: example_scanned_def)
qed

theorem LookupEntry_outcome_witness:
  "case LookupEntry example_catalog example_table example_add_column 200 TABLE_ENTRY ''absent''
      example_schema example_env of
    (Inl e, se', env') \<Rightarrow> se' = example_schema
  | (Inr None, se', env') \<Rightarrow> RegistryLookup (tables se') ''absent'' = Negative
  | (Inr (Some i), se', env') \<Rightarrow>
      RegistryLookup (tables se') ''absent'' = Positive i \<and> \<not> NeedsLoad (deref (tables se') i)"
  by (rule LookupEntry_outcome) simp

lemma example_loaded_ok [simp]: "registry_ok (tables example_loaded)"
  using LookupEntry_later [OF example_lookup example_registry_ok] by (simp add: later_def)

theorem table_references_stay_valid_witness:
  "0 < length (reg_entries (tables (fst example_scanned))) \<and>
   (\<exists>b. deref (tables (fst example_scanned)) 0 =
        (deref (tables example_loaded) 0)\<lparr>te_has_secret := b\<rparr>)"
  by (rule table_references_stay_valid [OF example_later_scan example_loaded_ok])
    (simp add: example_loaded_def)

text \<open>A scan that collects the names it visits, from a schema whose \<open>orders\<close> is already loaded.\<close>

definition example_scan :: "nat list throws \<times> nat schema_entry \<times> nat env" where
  "example_scan = Scan example_catalog example_add_column TABLE_ENTRY (\<lambda>i xs. Inr (xs @ [i])) []
     example_loaded example_loaded_env"

theorem Scan_visits_witness:
  "fst ` set (visited (tables (fst (snd example_scan)))) = {''orders'', ''returns''} \<and>
   fst example_scan = Inr [0, 1]"
proof -
  have call: "example_scan = (fst example_scan, fst (snd example_scan), snd (snd example_scan))"
    by simp
  have result: "fst example_scan = Inr [0, 1]"
    by (simp add: example_scan_def Scan_def IsNamespaceMissing_def ListOnce_def RegistryListed_def
        example_loaded_def example_loaded_env_def example_defs call_service_def write_log_def
        error_is_def GetTableIdentifier_def RegistryLookup_def MarkListed_def Lookup_def om_find_def
        RegistryStore_def ProtoIcebergTableEntry_def Put_def RegistryForEach_def Let_def)
  have "fst ` set (visited (tables (fst (snd example_scan)))) =
      {t. \<exists>i. RegistryLookup (tables example_loaded) t = Positive i} \<union>
      (ident_name ` set [GetTableIdentifier ''sales'' ''returns'', GetTableIdentifier ''sales'' ''orders'']
        - {t. RegistryLookup (tables example_loaded) t = Negative})"
    using Scan_visits [OF example_loaded_ok _ _ _ _ call [unfolded example_scan_def], simplified
        example_scan_def [symmetric]]
    by (simp add: example_loaded_def example_loaded_env_def example_catalog_def example_add_column_def)
  moreover have "RegistryLookup (tables example_loaded) t =
      (if t = ''orders'' then Positive 0 else Unknown)" for t
    by (simp add: example_loaded_def RegistryLookup_def Lookup_def om_find_def)
  ultimately show ?thesis using result by (auto simp: GetTableIdentifier_def split: if_splits)
qed

theorem ResolveScanInfo_as_of_start_witness:
  "\<exists>info. fst (ResolveScanInfo example_table 200 7 ''sales'' ''orders'' example_env) = Inr info \<and>
     si_mode info = PinnedRead 1 \<and> si_schema info = [SchemaField 1 ''id'' kLong []]"
proof -
  have laws: "snapshot_laws example_table 7"
    by (auto simp: snapshot_laws_def example_table_def split: if_splits)
  have "\<exists>info. fst (ResolveScanInfo example_table 200 7 ''sales'' ''orders'' example_env) = Inr info \<and>
      si_mode info = PinnedRead 1"
    by (simp add: ResolveScanInfo_def example_table_def Let_def)
  then obtain info where info: "fst (ResolveScanInfo example_table 200 7 ''sales'' ''orders'' example_env) = Inr info"
    "si_mode info = PinnedRead 1" by blast
  from ResolveScanInfo_as_of_start [OF laws, of 200 "''sales''" "''orders''" example_env]
  have "SchemaFor example_table 7 1 = Inr (si_schema info)" by (simp add: info)
  then have "si_schema info = [SchemaField 1 ''id'' kLong []]" by (simp add: example_table_def)
  with info show ?thesis by blast
qed

end
