(* ===== verification/MultiFileList.thy ===== *)
theory MultiFileList
  imports FilterTranslation SchemaEntry
begin

text \<open>
  The file list of a scan (src/src/proto_iceberg_multi_file_list.cpp): planning the data files of a
  table, access to the plan, and pushing filters down into it. The lemmas show that planning refuses
  what cannot be read, that all accesses agree on one plan, that pushing filters down makes exactly
  the conjunction of the filters, and that no file with a row the filters keep is lost.

  Parameters: iceberg-cpp's scan API \<open>S\<close> over the service's state and its lazily computed value \<open>L\<close>,
  its expressions \<open>E\<close> and tables \<open>T\<close>; DuckDB's filter sets and expressions \<open>K\<close>.
\<close>

section \<open>Data files and plans\<close>

datatype file_format = kParquet | kOtherFormat string

record data_file =
  file_path :: string
  file_size_in_bytes :: "64 word"
  record_count :: "64 word"
  file_format_of :: file_format

record scan_task =
  task_data_file :: data_file
  delete_files :: "data_file list"

record scan_plan =
  data_files :: "data_file list"
  total_record_count :: "64 word"

text \<open>
  The scan builder \<open>'b\<close> and scan \<open>'s\<close>; planning reads the table's manifests from storage.
  \<open>LazyGet\<close> is \<open>iceberg::Lazy::Get\<close>: it computes its value or returns the one it has.
\<close>

record ('w, 'tbl, 'e, 'b, 's) scan_api =
  NewScan :: "'tbl \<Rightarrow> 'b ice_result"
  UseSnapshot :: "64 word \<Rightarrow> 'b \<Rightarrow> 'b"
  ScanFilter :: "'e \<Rightarrow> 'b \<Rightarrow> 'b"
  BuildScan :: "'b \<Rightarrow> 's ice_result"
  ScanPlanFiles :: "'s \<Rightarrow> 'w \<Rightarrow> scan_task list ice_result \<times> 'w"
  ExpressionToString :: "'e \<Rightarrow> string"
  FileFormatToString :: "file_format \<Rightarrow> string"

record ('w, 'l) lazy_api =
  LazyGet :: "('w env \<Rightarrow> scan_plan ice_result \<times> 'w env) \<Rightarrow> 'l \<Rightarrow> 'w env \<Rightarrow>
    scan_plan ice_result \<times> 'l \<times> 'w env"
  LazyNew :: 'l

text \<open>The loop over the tasks.\<close>

fun CollectTasks ::
  "('w, 'tbl, 'e, 'b, 's) scan_api \<Rightarrow> string \<Rightarrow> scan_task list \<Rightarrow> scan_plan \<Rightarrow> scan_plan ice_result" where
  "CollectTasks S tbl_name [] plan = Inr plan"
| "CollectTasks S tbl_name (task # tasks) plan =
     (if delete_files task \<noteq> []
      then Inl \<lparr>err_kind = kNotImplemented, err_message = ''Reading delete files is not yet supported''\<rparr>
      else if file_format_of (task_data_file task) \<noteq> kParquet
      then Inl \<lparr>err_kind = kNotImplemented, err_message =
             ''Only Parquet data files are supported; table '' @ CHR 0x27 # tbl_name @ CHR 0x27 #
             '' contains '' @ CHR 0x27 # FileFormatToString S (file_format_of (task_data_file task)) @
             CHR 0x27 # '' files''\<rparr>
      else CollectTasks S tbl_name tasks
             (plan\<lparr>total_record_count := total_record_count plan + record_count (task_data_file task),
                   data_files := data_files plan @ [task_data_file task]\<rparr>))"

definition PlanFilesImpl ::
  "('w, 'tbl, 'e, 'b, 's) scan_api \<Rightarrow> 'e expressions \<Rightarrow> 'tbl iceberg_table \<Rightarrow> 'tbl scan_info \<Rightarrow>
   table_filter_set \<Rightarrow> 'w env \<Rightarrow> scan_plan ice_result \<times> 'w env" where
  "PlanFilesImpl S E T info filters env =
     (case NewScan S (si_table info) of
        Inl err \<Rightarrow> (Inl err, env)
      | Inr scan_builder \<Rightarrow>
          (let scan_builder =
             (case si_mode info of
                PinnedRead snap \<Rightarrow> UseSnapshot S snap scan_builder
              | CurrentRead \<Rightarrow> scan_builder);
             filter_expr =
               (if filters \<noteq> [] then Some (TranslateOrWidenFilters E filters (si_schema info)) else None);
             scan_builder =
               (case filter_expr of Some e \<Rightarrow> ScanFilter S e scan_builder | None \<Rightarrow> scan_builder)
           in case BuildScan S scan_builder of
                Inl err \<Rightarrow> (Inl err, env)
              | Inr scan \<Rightarrow>
                  (case call_service (ScanPlanFiles S scan) env of
                     (Inl err, env) \<Rightarrow> (Inl err, env)
                   | (Inr tasks, env) \<Rightarrow>
                       (case CollectTasks S (full_name T (si_table info)) tasks
                               \<lparr>data_files = [], total_record_count = 0\<rparr> of
                          Inl err \<Rightarrow> (Inl err, env)
                        | Inr plan \<Rightarrow>
                            (Inr plan,
                             write_log (LogPlanned (length (data_files plan)) (full_name T (si_table info))
                               (case filter_expr of Some e \<Rightarrow> ExpressionToString S e | None \<Rightarrow> ''{}''))
                               env)))))"

section \<open>The file list\<close>

record ('tbl, 'l) file_list =
  fl_scan_info :: "'tbl scan_info"
  fl_filters :: table_filter_set
  fl_plan :: 'l

definition ProtoIcebergMultiFileList ::
  "('w, 'l) lazy_api \<Rightarrow> 'tbl scan_info \<Rightarrow> table_filter_set \<Rightarrow> ('tbl, 'l) file_list" where
  "ProtoIcebergMultiFileList L scan_info_p table_filters_p =
     \<lparr>fl_scan_info = scan_info_p, fl_filters = table_filters_p, fl_plan = LazyNew L\<rparr>"

definition GetScanSchema :: "('tbl, 'l) file_list \<Rightarrow> iceberg_schema" where
  "GetScanSchema fl = si_schema (fl_scan_info fl)"

text \<open>\<open>PlanFiles\<close>: the plan, or an exception whose class depends on the error.\<close>

definition PlanFiles ::
  "('w, 'tbl, 'e, 'b, 's) scan_api \<Rightarrow> ('w, 'l) lazy_api \<Rightarrow> 'e expressions \<Rightarrow> 'tbl iceberg_table \<Rightarrow>
   ('tbl, 'l) file_list \<Rightarrow> 'w env \<Rightarrow> scan_plan throws \<times> ('tbl, 'l) file_list \<times> 'w env" where
  "PlanFiles S L E T fl env =
     (case LazyGet L (PlanFilesImpl S E T (fl_scan_info fl) (fl_filters fl)) (fl_plan fl) env of
        (result, lazy, env) \<Rightarrow>
          ((case result of
              Inl err \<Rightarrow>
                (if err_kind err = kNotImplemented then Inl (NotImplementedException (err_message err))
                 else UnwrapOrThrow IOException result
                        (''Failed to plan files for table '' @ CHR 0x27 #
                         full_name T (si_table (fl_scan_info fl)) @ [CHR 0x27]))
            | Inr plan \<Rightarrow> Inr plan),
           fl\<lparr>fl_plan := lazy\<rparr>, env))"

text \<open>\<open>OpenFileInfo\<close> with its extended options, if it has any.\<close>

datatype file_option = UBigIntOption "64 word" | ValueOption duckdb_value

record open_file_info =
  open_path :: string
  extended_info :: "(string \<rightharpoonup> file_option) option"

definition MakeOpenFileInfo :: "data_file \<Rightarrow> open_file_info" where
  "MakeOpenFileInfo df =
     \<lparr>open_path = file_path df,
      extended_info = Some [''file_size'' \<mapsto> UBigIntOption (file_size_in_bytes df),
        ''validate_external_file_cache'' \<mapsto> ValueOption (BooleanValue False),
        ''etag'' \<mapsto> ValueOption (StringValue []),
        ''last_modified'' \<mapsto> ValueOption (TimestampValue 0)]\<rparr>"

text \<open>The accessors all plan first; \<open>after_plan\<close> is what they share.\<close>

definition after_plan ::
  "(scan_plan \<Rightarrow> 'a) \<Rightarrow> scan_plan throws \<times> ('tbl, 'l) file_list \<times> 'w env \<Rightarrow>
   'a throws \<times> ('tbl, 'l) file_list \<times> 'w env" where
  "after_plan f result =
     (case result of (Inl e, s) \<Rightarrow> (Inl e, s) | (Inr plan, s) \<Rightarrow> (Inr (f plan), s))"

definition GetAllFiles where
  "GetAllFiles S L E T fl env =
     after_plan (\<lambda>plan. map MakeOpenFileInfo (data_files plan)) (PlanFiles S L E T fl env)"

definition GetFile where
  "GetFile S L E T idx fl env =
     after_plan (\<lambda>plan.
         if length (data_files plan) \<le> idx then \<lparr>open_path = [], extended_info = None\<rparr>
         else MakeOpenFileInfo (data_files plan ! idx))
       (PlanFiles S L E T fl env)"

datatype file_expand_result = SINGLE_FILE | MULTIPLE_FILES

definition GetExpandResult :: file_expand_result where
  "GetExpandResult = MULTIPLE_FILES"

definition GetTotalFileCount where
  "GetTotalFileCount S L E T fl env =
     after_plan (\<lambda>plan. length (data_files plan)) (PlanFiles S L E T fl env)"

text \<open>\<open>GetCardinality\<close>: the estimated and the maximal cardinality.\<close>

definition GetCardinality where
  "GetCardinality S L E T fl env =
     after_plan (\<lambda>plan. (total_record_count plan, total_record_count plan)) (PlanFiles S L E T fl env)"

section \<open>Filter pushdown\<close>

text \<open>
  DuckDB's side: adding a filter on a column to a filter set, building a filter set from the
  optimizer's expressions, comparing two filters, and which column IDs are virtual.
\<close>

record 'x pushdown_api =
  PushFilter :: "nat \<Rightarrow> table_filter \<Rightarrow> table_filter_set \<Rightarrow> table_filter_set"
  GenerateTableScanFilters :: "'x list \<Rightarrow> table_filter_set"
  FilterEquals :: "table_filter \<Rightarrow> table_filter \<Rightarrow> bool"
  IsVirtualColumn :: "nat \<Rightarrow> bool"

definition BuildTableFilterSet :: "'x pushdown_api \<Rightarrow> 'x list \<Rightarrow> table_filter_set option" where
  "BuildTableFilterSet K filters =
     (if filters = [] then None
      else (let filter_set = GenerateTableScanFilters K filters
            in if filter_set = [] then None else Some filter_set))"

definition CanPrunePlanning :: "'e expressions \<Rightarrow> table_filter_set \<Rightarrow> iceberg_schema \<Rightarrow> bool" where
  "CanPrunePlanning E filters schema \<longleftrightarrow>
     expression_op E (TranslateOrWidenFilters E filters schema) \<noteq> kTrue"

text \<open>The lambda \<open>append\<close> of \<open>CreateFilteredList\<close>.\<close>

definition append_filters :: "'x pushdown_api \<Rightarrow> table_filter_set \<Rightarrow> table_filter_set \<Rightarrow> table_filter_set" where
  "append_filters K combined src = foldl (\<lambda>combined (col_id, f). PushFilter K col_id f combined) combined src"

definition CreateFilteredList ::
  "('w, 'l) lazy_api \<Rightarrow> 'x pushdown_api \<Rightarrow> table_filter_set \<Rightarrow> ('tbl, 'l) file_list \<Rightarrow> ('tbl, 'l) file_list"
  where
  "CreateFilteredList L K new_filters fl =
     (let combined = append_filters K (append_filters K [] (fl_filters fl)) new_filters
      in ProtoIcebergMultiFileList L (fl_scan_info fl) combined)"

definition ComplexFilterPushdown ::
  "('w, 'l) lazy_api \<Rightarrow> 'x pushdown_api \<Rightarrow> 'e expressions \<Rightarrow> 'x list \<Rightarrow> ('tbl, 'l) file_list \<Rightarrow> 'w env \<Rightarrow>
   ('tbl, 'l) file_list option \<times> 'w env" where
  "ComplexFilterPushdown L K E filters fl env =
     (case BuildTableFilterSet K filters of
        None \<Rightarrow> (None, env)
      | Some filter_set \<Rightarrow>
          (if \<not> CanPrunePlanning E filter_set (si_schema (fl_scan_info fl))
           then (None, write_log LogComplexSkipped env)
           else (Some (CreateFilteredList L K filter_set fl),
                 write_log (LogComplexApplied (length filter_set)) env)))"

text \<open>The loop of \<open>DynamicFilterPushdown\<close> that skips what is already pushed down.\<close>

fun NewFilters ::
  "'x pushdown_api \<Rightarrow> table_filter_set \<Rightarrow> nat list \<Rightarrow> table_filter_set \<Rightarrow> table_filter_set \<Rightarrow> table_filter_set"
  where
  "NewFilters K pushed col_ids [] new_filters = new_filters"
| "NewFilters K pushed col_ids ((filter_idx, filt) # filters) new_filters =
     (if length col_ids \<le> filter_idx then NewFilters K pushed col_ids filters new_filters
      else
        (let column_id = col_ids ! filter_idx
         in if IsVirtualColumn K column_id then NewFilters K pushed col_ids filters new_filters
            else if (case om_find pushed column_id of
                       Some f \<Rightarrow> FilterEquals K filt f | None \<Rightarrow> False)
            then NewFilters K pushed col_ids filters new_filters
            else NewFilters K pushed col_ids filters (PushFilter K column_id filt new_filters)))"

definition DynamicFilterPushdown ::
  "('w, 'l) lazy_api \<Rightarrow> 'x pushdown_api \<Rightarrow> 'e expressions \<Rightarrow> nat list \<Rightarrow> table_filter_set \<Rightarrow>
   ('tbl, 'l) file_list \<Rightarrow> 'w env \<Rightarrow> ('tbl, 'l) file_list option \<times> 'w env" where
  "DynamicFilterPushdown L K E col_ids filters fl env =
     (if filters = [] then (None, env)
      else
        (let new_filters = NewFilters K (fl_filters fl) col_ids filters []
         in if new_filters = [] then (None, write_log LogDynamicAllPushed env)
            else if \<not> CanPrunePlanning E new_filters (si_schema (fl_scan_info fl))
            then (None, write_log LogDynamicSkipped env)
            else (Some (CreateFilteredList L K new_filters fl),
                  write_log (LogDynamicApplied (length new_filters)) env)))"

section \<open>Planning\<close>

lemma CollectTasks_Inr_iff:
  "CollectTasks S n tasks plan = Inr plan' \<longleftrightarrow>
   (\<forall>task \<in> set tasks. delete_files task = [] \<and> file_format_of (task_data_file task) = kParquet) \<and>
   plan' = \<lparr>data_files = data_files plan @ map task_data_file tasks,
            total_record_count = total_record_count plan + (\<Sum>task \<leftarrow> tasks. record_count (task_data_file task))\<rparr>"
  by (induction S n tasks plan rule: CollectTasks.induct) (auto simp: add_ac)

lemma CollectTasks_Inl:
  "CollectTasks S n tasks plan = Inl err \<Longrightarrow> err_kind err = kNotImplemented"
  by (induction S n tasks plan rule: CollectTasks.induct) (auto split: if_splits)

text \<open>The builder the plan is made with.\<close>

definition scan_builder ::
  "('w, 'tbl, 'e, 'b, 's) scan_api \<Rightarrow> scan_mode \<Rightarrow> 'b \<Rightarrow> 'b" where
  "scan_builder S mode b = (case mode of PinnedRead snap \<Rightarrow> UseSnapshot S snap b | CurrentRead \<Rightarrow> b)"

definition filtered_builder ::
  "('w, 'tbl, 'e, 'b, 's) scan_api \<Rightarrow> 'e expressions \<Rightarrow> 'tbl scan_info \<Rightarrow> table_filter_set \<Rightarrow> 'b \<Rightarrow> 'b" where
  "filtered_builder S E info filters b =
     (if filters = [] then scan_builder S (si_mode info) b
      else ScanFilter S (TranslateOrWidenFilters E filters (si_schema info)) (scan_builder S (si_mode info) b))"

lemma PlanFilesImpl_Inr:
  assumes "PlanFilesImpl S E T info filters env = (Inr plan, env')"
  obtains b scan tasks where "NewScan S (si_table info) = Inr b"
    "BuildScan S (filtered_builder S E info filters b) = Inr scan"
    "fst (ScanPlanFiles S scan (world env)) = Inr tasks"
    "\<forall>task \<in> set tasks. delete_files task = [] \<and> file_format_of (task_data_file task) = kParquet"
    "data_files plan = map task_data_file tasks"
    "total_record_count plan = (\<Sum>task \<leftarrow> tasks. record_count (task_data_file task))"
proof -
  obtain b where b: "NewScan S (si_table info) = Inr b"
    using assms by (auto simp: PlanFilesImpl_def split: sum.splits)
  have builder: "(case if filters \<noteq> [] then Some (TranslateOrWidenFilters E filters (si_schema info)) else None of
      Some e \<Rightarrow> ScanFilter S e (scan_builder S (si_mode info) b) | None \<Rightarrow> scan_builder S (si_mode info) b) =
      filtered_builder S E info filters b"
    by (simp add: filtered_builder_def)
  obtain scan where scan: "BuildScan S (filtered_builder S E info filters b) = Inr scan"
    using assms
    by (auto simp: PlanFilesImpl_def b Let_def scan_builder_def [symmetric] builder [symmetric]
        split: sum.splits option.splits if_splits)
  show ?thesis
    using assms that [OF b scan]
    unfolding PlanFilesImpl_def b Let_def scan_builder_def [symmetric] sum.case builder scan
    by (auto simp: call_service_def CollectTasks_Inr_iff split: prod.splits sum.splits)
qed

text \<open>
  The tasks iceberg-cpp plans for a scan, as one result: the reference \<open>PlanFilesImpl\<close> is compared
  with.
\<close>

definition planned_tasks ::
  "('w, 'tbl, 'e, 'b, 's) scan_api \<Rightarrow> 'e expressions \<Rightarrow> 'tbl scan_info \<Rightarrow> table_filter_set \<Rightarrow> 'w \<Rightarrow>
   scan_task list ice_result" where
  "planned_tasks S E info filters w =
     (case NewScan S (si_table info) of
        Inl err \<Rightarrow> Inl err
      | Inr b \<Rightarrow>
          (case BuildScan S (filtered_builder S E info filters b) of
             Inl err \<Rightarrow> Inl err
           | Inr scan \<Rightarrow> fst (ScanPlanFiles S scan w)))"

definition readable :: "scan_task \<Rightarrow> bool" where
  "readable task \<longleftrightarrow> delete_files task = [] \<and> file_format_of (task_data_file task) = kParquet"

lemma PlanFilesImpl_planned:
  "fst (PlanFilesImpl S E T info filters env) =
   (case planned_tasks S E info filters (world env) of
      Inl err \<Rightarrow> Inl err
    | Inr tasks \<Rightarrow> CollectTasks S (full_name T (si_table info)) tasks
                    \<lparr>data_files = [], total_record_count = 0\<rparr>)"
proof (cases "NewScan S (si_table info)")
  case (Inl err)
  then show ?thesis by (simp add: PlanFilesImpl_def planned_tasks_def)
next
  case (Inr b)
  have builder: "(case if filters \<noteq> [] then Some (TranslateOrWidenFilters E filters (si_schema info)) else None of
      Some e \<Rightarrow> ScanFilter S e (scan_builder S (si_mode info) b) | None \<Rightarrow> scan_builder S (si_mode info) b) =
      filtered_builder S E info filters b"
    by (simp add: filtered_builder_def)
  show ?thesis
    unfolding PlanFilesImpl_def planned_tasks_def Inr Let_def scan_builder_def [symmetric] sum.case builder
    by (auto simp: call_service_def split: sum.split prod.split)
qed

lemma CollectTasks_refuses:
  "\<exists>task \<in> set tasks. \<not> readable task \<Longrightarrow> \<exists>err. CollectTasks S n tasks plan = Inl err \<and> err_kind err = kNotImplemented"
  using CollectTasks_Inr_iff [of S n tasks plan] CollectTasks_Inl [of S n tasks plan]
  by (cases "CollectTasks S n tasks plan") (auto simp: readable_def)

lemma CollectTasks_accepts:
  "\<forall>task \<in> set tasks. readable task \<Longrightarrow>
   CollectTasks S n tasks \<lparr>data_files = [], total_record_count = 0\<rparr> =
     Inr \<lparr>data_files = map task_data_file tasks, total_record_count = (\<Sum>task \<leftarrow> tasks. record_count (task_data_file task))\<rparr>"
  by (simp add: CollectTasks_Inr_iff readable_def)

lemma unat_sum_list: "unat (\<Sum>x \<leftarrow> xs. f x :: 64 word) = (\<Sum>x \<leftarrow> xs. unat (f x)) mod 2 ^ 64"
proof (induction xs)
  case (Cons x xs)
  then show ?case by (simp add: unat_word_ariths(1) mod_simps)
qed simp

section \<open>One plan for all accesses\<close>

text \<open>
  What is relied on of \<open>iceberg::Lazy\<close>: a new one has no value; without a value, \<open>Get\<close> computes it
  once and a result that is returned is kept; with a value, it is returned without computing.
\<close>

definition lazy_laws :: "('w, 'l) lazy_api \<Rightarrow> ('l \<Rightarrow> scan_plan option) \<Rightarrow> bool" where
  "lazy_laws L cached \<longleftrightarrow>
     cached (LazyNew L) = None \<and>
     (\<forall>f l p env. cached l = Some p \<longrightarrow> LazyGet L f l env = (Inr p, l, env)) \<and>
     (\<forall>f l p env l' env'. LazyGet L f l env = (Inr p, l', env') \<longrightarrow> cached l' = Some p) \<and>
     (\<forall>f env. fst (LazyGet L f (LazyNew L) env) = fst (f env))"

lemma lazy_lawsD:
  assumes "lazy_laws L cached"
  shows "cached (LazyNew L) = None"
    and "cached l = Some p \<Longrightarrow> LazyGet L f l env = (Inr p, l, env)"
    and "LazyGet L f l env = (Inr p, l', env') \<Longrightarrow> cached l' = Some p"
    and "fst (LazyGet L f (LazyNew L) env) = fst (f env)"
  using assms unfolding lazy_laws_def by blast+

lemma PlanFiles_cached:
  "lazy_laws L cached \<Longrightarrow> cached (fl_plan fl) = Some plan \<Longrightarrow> PlanFiles S L E T fl env = (Inr plan, fl, env)"
  by (simp add: PlanFiles_def lazy_lawsD(2))

lemma PlanFiles_Inr:
  assumes "lazy_laws L cached" and "PlanFiles S L E T fl env = (Inr plan, fl', env')"
  shows "cached (fl_plan fl') = Some plan \<and> fl_scan_info fl' = fl_scan_info fl \<and> fl_filters fl' = fl_filters fl"
proof -
  obtain r lazy env1 where get:
    "LazyGet L (PlanFilesImpl S E T (fl_scan_info fl) (fl_filters fl)) (fl_plan fl) env = (r, lazy, env1)"
    using prod_cases3 by blast
  then have "r = Inr plan" and fl': "fl' = fl\<lparr>fl_plan := lazy\<rparr>"
    using assms(2) by (auto simp: PlanFiles_def UnwrapOrThrow_def split: sum.splits if_splits)
  with lazy_lawsD(3) [OF assms(1)] get have "cached lazy = Some plan" by blast
  with fl' show ?thesis by simp
qed

text \<open>
  C22. What planning returns: for the tasks iceberg-cpp plans (for the pinned snapshot and with the
  translated filters, where there are any), all their data files in order and the sum of their record
  counts modulo \<open>2^64\<close>; if a task has delete files or a file that is not Parquet, the error
  \<open>kNotImplemented\<close> and no plan; and iceberg-cpp's own error if it fails.
\<close>

theorem PlanFilesImpl_plan:
  "case planned_tasks S E info filters (world env) of
     Inl err \<Rightarrow> fst (PlanFilesImpl S E T info filters env) = Inl err
   | Inr tasks \<Rightarrow>
       if \<forall>task \<in> set tasks. readable task
       then (\<exists>plan. fst (PlanFilesImpl S E T info filters env) = Inr plan \<and>
               data_files plan = map task_data_file tasks \<and>
               unat (total_record_count plan) =
                 (\<Sum>task \<leftarrow> tasks. unat (record_count (task_data_file task))) mod 2 ^ 64)
       else (\<exists>err. fst (PlanFilesImpl S E T info filters env) = Inl err \<and> err_kind err = kNotImplemented)"
proof (cases "planned_tasks S E info filters (world env)")
  case (Inl err)
  then show ?thesis by (simp add: PlanFilesImpl_planned)
next
  case (Inr tasks)
  show ?thesis
  proof (cases "\<forall>task \<in> set tasks. readable task")
    case True
    then show ?thesis
      by (simp add: PlanFilesImpl_planned Inr CollectTasks_accepts unat_sum_list)
  next
    case False
    then have "\<exists>err. CollectTasks S (full_name T (si_table info)) tasks
        \<lparr>data_files = [], total_record_count = 0\<rparr> = Inl err \<and> err_kind err = kNotImplemented"
      by (intro CollectTasks_refuses) simp
    with False show ?thesis by (auto simp: PlanFilesImpl_planned Inr)
  qed
qed

text \<open>
  C23. All accesses of a scan see one plan: once the files have been planned, the list of files, the
  single files, their number and the cardinality are computed from that plan, agree with each other,
  plan nothing again and change nothing, whatever happened in between; an index past the end gives
  an empty file.
\<close>

theorem file_accesses_agree:
  assumes "lazy_laws L cached" and "PlanFiles S L E T fl env = (Inr plan, fl1, env1)"
  shows "\<exists>files. files = map MakeOpenFileInfo (data_files plan) \<and>
    GetAllFiles S L E T fl1 env2 = (Inr files, fl1, env2) \<and>
    GetTotalFileCount S L E T fl1 env2 = (Inr (length files), fl1, env2) \<and>
    GetFile S L E T idx fl1 env2 =
      (Inr (if idx < length files then files ! idx else \<lparr>open_path = [], extended_info = None\<rparr>), fl1, env2) \<and>
    GetCardinality S L E T fl1 env2 = (Inr (total_record_count plan, total_record_count plan), fl1, env2)"
proof -
  have "PlanFiles S L E T fl1 env2 = (Inr plan, fl1, env2)"
    using PlanFiles_cached [OF assms(1)] PlanFiles_Inr [OF assms] by blast
  then show ?thesis
    by (simp add: GetAllFiles_def GetTotalFileCount_def GetFile_def GetCardinality_def after_plan_def)
qed

text \<open>
  C21. A table that cannot be read correctly is refused: if any planned task has delete files or a
  data file that is not Parquet, every access of a new file list (its files, a single file, their number
  and the cardinality) throws a \<open>NotImplementedException\<close>, rather than give rows that were deleted.
\<close>

theorem unreadable_table_refused:
  assumes "lazy_laws L cached" and "fl_plan fl = LazyNew L"
    and "planned_tasks S E (fl_scan_info fl) (fl_filters fl) (world env) = Inr tasks"
    and "\<exists>task \<in> set tasks. delete_files task \<noteq> [] \<or> file_format_of (task_data_file task) \<noteq> kParquet"
  shows "\<exists>msg. fst (GetAllFiles S L E T fl env) = Inl (NotImplementedException msg) \<and>
    fst (GetFile S L E T idx fl env) = Inl (NotImplementedException msg) \<and>
    fst (GetTotalFileCount S L E T fl env) = Inl (NotImplementedException msg) \<and>
    fst (GetCardinality S L E T fl env) = Inl (NotImplementedException msg)"
proof -
  from assms(4) obtain err where "CollectTasks S (full_name T (si_table (fl_scan_info fl))) tasks
      \<lparr>data_files = [], total_record_count = 0\<rparr> = Inl err" and kind: "err_kind err = kNotImplemented"
    using CollectTasks_refuses [of tasks] by (fastforce simp: readable_def)
  then have "fst (PlanFilesImpl S E T (fl_scan_info fl) (fl_filters fl) env) = Inl err"
    by (simp add: PlanFilesImpl_planned assms(3))
  then have "fst (LazyGet L (PlanFilesImpl S E T (fl_scan_info fl) (fl_filters fl)) (fl_plan fl) env) = Inl err"
    using lazy_lawsD(4) [OF assms(1)] by (simp add: assms(2))
  then have "fst (PlanFiles S L E T fl env) = Inl (NotImplementedException (err_message err))"
    using kind by (auto simp: PlanFiles_def split: prod.split)
  then show ?thesis
    by (auto simp: GetAllFiles_def GetFile_def GetTotalFileCount_def GetCardinality_def after_plan_def
        split: prod.split sum.split)
qed

section \<open>Pushing filters down\<close>

text \<open>
  What is relied on of DuckDB: pushing a filter on a column makes the conjunction with what the set
  has, and filters that compare equal keep the same values.
\<close>

definition pushdown_laws :: "'x pushdown_api \<Rightarrow> 'v filter_semantics \<Rightarrow> bool" where
  "pushdown_laws K D \<longleftrightarrow>
     (\<forall>c f fs. om_ok fs \<longrightarrow>
        om_ok (PushFilter K c f fs) \<and>
        (\<forall>schema r. filters_keep D (PushFilter K c f fs) schema r \<longleftrightarrow>
           filters_keep D fs schema r \<and> filters_keep D [(c, f)] schema r)) \<and>
     (\<forall>f g x. FilterEquals K f g \<longrightarrow> filter_keeps D f x = filter_keeps D g x)"

lemma filters_keep_Nil [simp]: "filters_keep D [] schema r"
  by (simp add: filters_keep_def)

lemma filters_keep_Cons:
  "filters_keep D (p # fs) schema r \<longleftrightarrow> filters_keep D [p] schema r \<and> filters_keep D fs schema r"
  by (auto simp: filters_keep_def)

lemma pushdown_lawsD:
  assumes "pushdown_laws K D"
  shows "om_ok fs \<Longrightarrow> om_ok (PushFilter K c f fs)"
    and "om_ok fs \<Longrightarrow> filters_keep D (PushFilter K c f fs) schema r \<longleftrightarrow>
      filters_keep D fs schema r \<and> filters_keep D [(c, f)] schema r"
    and "FilterEquals K f g \<Longrightarrow> filter_keeps D f x = filter_keeps D g x"
  using assms unfolding pushdown_laws_def by blast+

lemma append_filters_keep:
  "pushdown_laws K D \<Longrightarrow> om_ok fs \<Longrightarrow>
   om_ok (append_filters K fs src) \<and>
   (filters_keep D (append_filters K fs src) schema r \<longleftrightarrow> filters_keep D fs schema r \<and> filters_keep D src schema r)"
proof (induction src arbitrary: fs)
  case Nil
  then show ?case by (simp add: append_filters_def)
next
  case (Cons p src)
  have "append_filters K fs (p # src) = append_filters K (PushFilter K (fst p) (snd p) fs) src"
    by (simp add: append_filters_def case_prod_unfold)
  with Cons show ?case
    by (simp add: pushdown_lawsD filters_keep_Cons [of D p src])
qed

lemma filtered_list_keep:
  assumes "pushdown_laws K D"
  shows "filters_keep D (fl_filters (CreateFilteredList L K new_filters fl)) schema r \<longleftrightarrow>
    filters_keep D (fl_filters fl) schema r \<and> filters_keep D new_filters schema r"
  using append_filters_keep [OF assms] by (simp add: CreateFilteredList_def ProtoIcebergMultiFileList_def Let_def)

text \<open>What dynamic filters ask of a row: those on a column that is projected and not virtual.\<close>

definition dynamic_keep ::
  "'x pushdown_api \<Rightarrow> 'v filter_semantics \<Rightarrow> nat list \<Rightarrow> table_filter_set \<Rightarrow> iceberg_schema \<Rightarrow> (string \<Rightarrow> 'v) \<Rightarrow> bool"
  where
  "dynamic_keep K D col_ids filters schema r \<longleftrightarrow>
     (\<forall>(idx, f) \<in> set filters. idx < length col_ids \<longrightarrow> \<not> IsVirtualColumn K (col_ids ! idx) \<longrightarrow>
        filters_keep D [(col_ids ! idx, f)] schema r)"

lemma pushed_keeps:
  "pushdown_laws K D \<Longrightarrow> om_find pushed c = Some g \<Longrightarrow> FilterEquals K f g \<Longrightarrow>
   filters_keep D pushed schema r \<Longrightarrow> filters_keep D [(c, f)] schema r"
  by (auto simp: filters_keep_def pushdown_lawsD(3) dest!: om_find_Some_in)

lemma NewFilters_keep:
  assumes laws: "pushdown_laws K D" and pushed: "filters_keep D pushed schema r"
  shows "om_ok new_filters \<Longrightarrow> filters_keep D (NewFilters K pushed col_ids filters new_filters) schema r \<longleftrightarrow>
    filters_keep D new_filters schema r \<and> dynamic_keep K D col_ids filters schema r"
proof (induction filters arbitrary: new_filters)
  case Nil
  then show ?case by (simp add: dynamic_keep_def)
next
  case (Cons p filters)
  obtain idx f where p: "p = (idx, f)" by fastforce
  have rest: "dynamic_keep K D col_ids (p # filters) schema r \<longleftrightarrow>
      (idx < length col_ids \<longrightarrow> \<not> IsVirtualColumn K (col_ids ! idx) \<longrightarrow>
        filters_keep D [(col_ids ! idx, f)] schema r) \<and> dynamic_keep K D col_ids filters schema r"
    by (simp add: dynamic_keep_def p)
  consider "length col_ids \<le> idx \<or> IsVirtualColumn K (col_ids ! idx)"
    | g where "idx < length col_ids" "\<not> IsVirtualColumn K (col_ids ! idx)"
        "om_find pushed (col_ids ! idx) = Some g" "FilterEquals K f g"
    | "idx < length col_ids" "\<not> IsVirtualColumn K (col_ids ! idx)"
        "\<not> (case om_find pushed (col_ids ! idx) of Some g \<Rightarrow> FilterEquals K f g | None \<Rightarrow> False)"
    by (cases "length col_ids \<le> idx \<or> IsVirtualColumn K (col_ids ! idx)";
        cases "om_find pushed (col_ids ! idx)") (auto simp: not_le)
  then show ?case
  proof cases
    case 1
    then have skip: "NewFilters K pushed col_ids (p # filters) new_filters =
        NewFilters K pushed col_ids filters new_filters"
      by (auto simp: p Let_def)
    from 1 have "dynamic_keep K D col_ids (p # filters) schema r \<longleftrightarrow> dynamic_keep K D col_ids filters schema r"
      unfolding rest by (metis leD)
    with Cons.IH [OF Cons.prems] show ?thesis unfolding skip by simp
  next
    case (2 g)
    then have skip: "NewFilters K pushed col_ids (p # filters) new_filters =
        NewFilters K pushed col_ids filters new_filters"
      by (simp add: p Let_def)
    have "dynamic_keep K D col_ids (p # filters) schema r \<longleftrightarrow> dynamic_keep K D col_ids filters schema r"
      unfolding rest using pushed_keeps [OF laws 2(3,4) pushed] by simp
    with Cons.IH [OF Cons.prems] show ?thesis unfolding skip by simp
  next
    case 3
    have push: "filters_keep D (PushFilter K (col_ids ! idx) f new_filters) schema r \<longleftrightarrow>
        filters_keep D new_filters schema r \<and> filters_keep D [(col_ids ! idx, f)] schema r"
      using pushdown_lawsD(2) [OF laws Cons.prems] .
    have new: "NewFilters K pushed col_ids (p # filters) new_filters =
        NewFilters K pushed col_ids filters (PushFilter K (col_ids ! idx) f new_filters)"
      using 3 by (simp add: p Let_def)
    show ?thesis
      unfolding new Cons.IH [OF pushdown_lawsD(1) [OF laws Cons.prems]] push rest
      using 3(1,2) by blast
  qed
qed


text \<open>
  C25. Pushing the optimizer's filters down makes the conjunction: a file list that is returned reads
  the same table version, plans afresh and filters by exactly the old filters and the new ones; and
  one is returned exactly when there are filters and at least one on a column of the schema can
  prune files.
\<close>

theorem ComplexFilterPushdown_filters:
  assumes "pushdown_laws K D" and "simplification_laws E"
  shows "case fst (ComplexFilterPushdown L K E filters fl env) of
      Some fl' \<Rightarrow>
        fl_scan_info fl' = fl_scan_info fl \<and> fl_plan fl' = LazyNew L \<and> filters \<noteq> [] \<and>
        (\<exists>(i, f) \<in> set (GenerateTableScanFilters K filters).
           i < length (si_schema (fl_scan_info fl)) \<and> \<not> widens f) \<and>
        (\<forall>schema r. filters_keep D (fl_filters fl') schema r \<longleftrightarrow>
           filters_keep D (fl_filters fl) schema r \<and>
           filters_keep D (GenerateTableScanFilters K filters) schema r)
    | None \<Rightarrow>
        filters = [] \<or>
        (\<forall>(i, f) \<in> set (GenerateTableScanFilters K filters).
           i < length (si_schema (fl_scan_info fl)) \<longrightarrow> widens f)"
proof -
  let ?G = "GenerateTableScanFilters K filters" and ?schema = "si_schema (fl_scan_info fl)"
  have prune: "CanPrunePlanning E ?G ?schema \<longleftrightarrow> (\<exists>(i, f) \<in> set ?G. i < length ?schema \<and> \<not> widens f)"
    by (auto simp: CanPrunePlanning_def filters_widen [OF assms(2)])
  show ?thesis
  proof (cases "filters = [] \<or> \<not> CanPrunePlanning E ?G ?schema")
    case True
    then show ?thesis
      using prune by (auto simp: ComplexFilterPushdown_def BuildTableFilterSet_def Let_def)
  next
    case False
    then have "?G \<noteq> []" using prune by auto
    with False have "fst (ComplexFilterPushdown L K E filters fl env) = Some (CreateFilteredList L K ?G fl)"
      by (simp add: ComplexFilterPushdown_def BuildTableFilterSet_def Let_def)
    then show ?thesis
      using False prune
      by (simp add: filtered_list_keep [OF assms(1)]) (simp add: CreateFilteredList_def ProtoIcebergMultiFileList_def Let_def)
  qed
qed

text \<open>
  C24. Pushing dynamic filters down makes the conjunction too, although filters that are pushed down
  already are skipped: the list that is returned filters by exactly the old filters and every dynamic
  filter on a projected, non-virtual column, on the column's own index; and when there is nothing new
  to push, the old filters imply the dynamic ones.
\<close>

theorem DynamicFilterPushdown_filters:
  assumes "pushdown_laws K D"
  shows "case fst (DynamicFilterPushdown L K E col_ids filters fl env) of
      Some fl' \<Rightarrow>
        fl_scan_info fl' = fl_scan_info fl \<and> fl_plan fl' = LazyNew L \<and>
        (\<forall>schema r. filters_keep D (fl_filters fl') schema r \<longleftrightarrow>
           filters_keep D (fl_filters fl) schema r \<and> dynamic_keep K D col_ids filters schema r)
    | None \<Rightarrow>
        (\<forall>schema r. filters_keep D (fl_filters fl) schema r \<longrightarrow> dynamic_keep K D col_ids filters schema r) \<or>
        \<not> CanPrunePlanning E (NewFilters K (fl_filters fl) col_ids filters []) (si_schema (fl_scan_info fl))"
proof -
  let ?N = "NewFilters K (fl_filters fl) col_ids filters []"
  have new: "filters_keep D (fl_filters fl) schema r \<Longrightarrow>
      filters_keep D ?N schema r \<longleftrightarrow> dynamic_keep K D col_ids filters schema r" for schema r
    using NewFilters_keep [OF assms] by simp
  show ?thesis
  proof (cases "fst (DynamicFilterPushdown L K E col_ids filters fl env)")
    case (Some fl')
    then have "fl' = CreateFilteredList L K ?N fl"
      by (auto simp: DynamicFilterPushdown_def Let_def split: if_splits)
    then show ?thesis
      using Some new
      by (auto simp: filtered_list_keep [OF assms]) (simp_all add: CreateFilteredList_def ProtoIcebergMultiFileList_def Let_def)
  next
    case None
    then have "?N = [] \<or> \<not> CanPrunePlanning E ?N (si_schema (fl_scan_info fl))"
      by (auto simp: DynamicFilterPushdown_def Let_def split: if_splits)
    moreover have "dynamic_keep K D col_ids filters schema r"
      if "?N = []" and "filters_keep D (fl_filters fl) schema r" for schema r
      using new [OF that(2)] by (simp add: that(1))
    ultimately show ?thesis using None by auto
  qed
qed

section \<open>No row is lost\<close>

text \<open>
  What is relied on of iceberg-cpp's planning: \<open>files_of b\<close> are the data files of the snapshot a builder
  \<open>b\<close> reads and \<open>rows\<close> their rows; a scan without a filter plans all of them, and a filter leaves out
  only files none of whose rows satisfies it.
\<close>

definition planning_laws ::
  "('w, 'tbl, 'e, 'b, 's) scan_api \<Rightarrow> ('e \<Rightarrow> 'r \<Rightarrow> bool) \<Rightarrow> ('b \<Rightarrow> data_file set) \<Rightarrow> (data_file \<Rightarrow> 'r set) \<Rightarrow> bool"
  where
  "planning_laws S holds files_of rows \<longleftrightarrow>
     (\<forall>tbl b scan w tasks. NewScan S tbl = Inr b \<longrightarrow>
        (\<forall>mode. let b = scan_builder S mode b in
          (BuildScan S b = Inr scan \<longrightarrow> fst (ScanPlanFiles S scan w) = Inr tasks \<longrightarrow>
             files_of b \<subseteq> task_data_file ` set tasks) \<and>
          (\<forall>e. BuildScan S (ScanFilter S e b) = Inr scan \<longrightarrow> fst (ScanPlanFiles S scan w) = Inr tasks \<longrightarrow>
             {d \<in> files_of b. \<exists>r \<in> rows d. holds e r} \<subseteq> task_data_file ` set tasks)))"

text \<open>The files of a plan hold every row the filters keep.\<close>

lemma planning_loses_no_row:
  assumes "expression_laws E holds" and "predicate_laws E holds"
    and "planning_laws S holds files_of rows"
    and "PlanFilesImpl S E T info filters env = (Inr plan, env')"
    and "NewScan S (si_table info) = Inr b"
    and "d \<in> files_of (scan_builder S (si_mode info) b)"
    and "r \<in> rows d" and "filters_keep (duckdb_semantics other_compare other) filters (si_schema info) r"
    and "nan_safe filters (si_schema info) r"
  shows "d \<in> set (data_files plan)"
proof -
  let ?e = "TranslateOrWidenFilters E filters (si_schema info)"
  let ?b = "scan_builder S (si_mode info) b"
  obtain scan tasks where scan: "BuildScan S (filtered_builder S E info filters b) = Inr scan"
    and tasks: "fst (ScanPlanFiles S scan (world env)) = Inr tasks"
    and files: "data_files plan = map task_data_file tasks"
    using PlanFilesImpl_Inr [OF assms(4)] assms(5) by (metis sum.inject(2))
  have law: "BuildScan S ?b = Inr scan \<Longrightarrow> files_of ?b \<subseteq> task_data_file ` set tasks"
    "BuildScan S (ScanFilter S ?e ?b) = Inr scan \<Longrightarrow>
       {d \<in> files_of ?b. \<exists>r \<in> rows d. holds ?e r} \<subseteq> task_data_file ` set tasks"
    using assms(3,5) tasks unfolding planning_laws_def Let_def by blast+
  have "holds ?e r" using filters_sound [OF assms(1,2,8,9)] .
  with assms(6,7) have "d \<in> {d \<in> files_of ?b. \<exists>r \<in> rows d. holds ?e r}" by blast
  then have "d \<in> task_data_file ` set tasks"
    using law scan assms(6) by (cases "filters = []") (auto simp: filtered_builder_def)
  then show ?thesis by (simp add: files)
qed

section \<open>A concrete table with two files\<close>

text \<open>
  A builder is the mode and the filter set so far, and is its own scan; each of the two files has one
  row, and planning keeps the files whose row satisfies the filter.
\<close>

definition example_file :: "string \<Rightarrow> 64 word \<Rightarrow> data_file" where
  "example_file path count = \<lparr>file_path = path, file_size_in_bytes = 1024, record_count = count,
     file_format_of = kParquet\<rparr>"

definition example_files :: "data_file list" where
  "example_files = [example_file ''a.parquet'' 3, example_file ''b.parquet'' 4]"

definition example_row :: "data_file \<Rightarrow> string \<Rightarrow> duckdb_value" where
  "example_row d c = (if file_path d = ''a.parquet'' then BigIntValue 1 else BigIntValue 7)"

definition example_scan_api ::
  "(nat, nat, tree_expression, scan_mode \<times> tree_expression option, scan_mode \<times> tree_expression option) scan_api"
  where
  "example_scan_api = \<lparr>
     NewScan = (\<lambda>t. Inr (CurrentRead, None)),
     UseSnapshot = (\<lambda>snap b. (PinnedRead snap, snd b)),
     ScanFilter = (\<lambda>e b. (fst b, Some e)),
     BuildScan = (\<lambda>b. Inr b),
     ScanPlanFiles = (\<lambda>b w. (Inr (map (\<lambda>d. \<lparr>task_data_file = d, delete_files = []\<rparr>)
        (filter (\<lambda>d. case snd b of None \<Rightarrow> True | Some e \<Rightarrow> tree_holds e (example_row d)) example_files)), w + 1)),
     ExpressionToString = (\<lambda>e. ''...''),
     FileFormatToString = (\<lambda>f. case f of kParquet \<Rightarrow> ''parquet'' | kOtherFormat n \<Rightarrow> n)\<rparr>"

definition example_lazy :: "(nat, scan_plan option) lazy_api" where
  "example_lazy = \<lparr>
     LazyGet = (\<lambda>f l env. case l of
        Some p \<Rightarrow> (Inr p, l, env)
      | None \<Rightarrow> (case f env of (Inr p, env) \<Rightarrow> (Inr p, Some p, env) | (Inl e, env) \<Rightarrow> (Inl e, None, env))),
     LazyNew = None\<rparr>"

lemma example_lazy_laws: "lazy_laws example_lazy (\<lambda>l. l)"
  by (auto simp: lazy_laws_def example_lazy_def split: option.splits prod.splits sum.splits)

definition example_pushdown :: "(nat \<times> table_filter) pushdown_api" where
  "example_pushdown = \<lparr>
     PushFilter = (\<lambda>c f fs. om_put c
        (case om_find fs c of None \<Rightarrow> f | Some g \<Rightarrow> ConjunctionAndFilter [g, f]) fs),
     GenerateTableScanFilters = (\<lambda>xs. foldl (\<lambda>fs (c, f). om_put c f fs) [] xs),
     FilterEquals = (\<lambda>f g. f = g),
     IsVirtualColumn = (\<lambda>c. 1000 \<le> c)\<rparr>"

lemma filters_keep_om:
  assumes "om_ok fs"
  shows "filters_keep D fs schema r \<longleftrightarrow>
    (\<forall>i < length schema. case om_find fs i of None \<Rightarrow> True | Some f \<Rightarrow> filter_keeps D f (r (field_name (schema ! i))))"
  using om_find_iff [OF assms] by (fastforce simp: filters_keep_def split: option.split)

lemma filters_keep_om_put:
  assumes "om_ok fs"
  shows "filters_keep D (om_put c h fs) schema r \<longleftrightarrow>
    (c < length schema \<longrightarrow> filter_keeps D h (r (field_name (schema ! c)))) \<and>
    (\<forall>i < length schema. i \<noteq> c \<longrightarrow>
       (case om_find fs i of None \<Rightarrow> True | Some f \<Rightarrow> filter_keeps D f (r (field_name (schema ! i)))))"
  unfolding filters_keep_om [OF om_ok_put [OF assms]] om_find_put by auto

lemma example_pushdown_laws: "pushdown_laws example_pushdown D"
proof -
  have "filters_keep D (om_put c (case om_find fs c of None \<Rightarrow> f | Some g \<Rightarrow> ConjunctionAndFilter [g, f]) fs) schema r \<longleftrightarrow>
      filters_keep D fs schema r \<and> filters_keep D [(c, f)] schema r" (is "?put \<longleftrightarrow> ?both")
    if "om_ok fs" for c f fs schema r
  proof -
    let ?K = "\<lambda>i. case om_find fs i of None \<Rightarrow> True | Some f \<Rightarrow> filter_keeps D f (r (field_name (schema ! i)))"
    have "?both \<longleftrightarrow> (\<forall>i < length schema. ?K i) \<and> (c < length schema \<longrightarrow> filter_keeps D f (r (field_name (schema ! c))))"
      unfolding filters_keep_om [OF that] by (simp add: filters_keep_def)
    also have "\<dots> \<longleftrightarrow> (c < length schema \<longrightarrow> ?K c \<and> filter_keeps D f (r (field_name (schema ! c)))) \<and>
        (\<forall>i < length schema. i \<noteq> c \<longrightarrow> ?K i)"
      by blast
    also have "\<dots> \<longleftrightarrow> ?put"
      unfolding filters_keep_om_put [OF that] by (cases "om_find fs c") auto
    finally show ?thesis by simp
  qed
  then show ?thesis by (simp add: pushdown_laws_def example_pushdown_def)
qed

definition example_info :: "nat scan_info" where
  "example_info = \<lparr>si_table = 7, si_mode = CurrentRead, si_schema = [SchemaField 1 ''id'' kLong []]\<rparr>"

definition example_list_of :: "table_filter_set \<Rightarrow> (nat, scan_plan option) file_list" where
  "example_list_of filters = \<lparr>fl_scan_info = example_info, fl_filters = filters, fl_plan = None\<rparr>"

text \<open>The filter \<open>id >= 5\<close>, which the second file's row passes, and the plans with and without it.\<close>

definition example_filters :: table_filter_set where
  "example_filters = [(0, ConstantFilter COMPARE_GREATERTHANOREQUALTO (BigIntValue 5))]"

definition example_scan_plan :: scan_plan where
  "example_scan_plan = \<lparr>data_files = example_files, total_record_count = 7\<rparr>"

lemma example_tasks:
  "planned_tasks example_scan_api tree_expressions example_info [] w =
     Inr (map (\<lambda>d. \<lparr>task_data_file = d, delete_files = []\<rparr>) example_files)"
  by (simp add: planned_tasks_def example_scan_api_def filtered_builder_def scan_builder_def example_info_def)

theorem PlanFilesImpl_plan_witness:
  "\<exists>plan. fst (PlanFilesImpl example_scan_api tree_expressions example_table example_info [] example_env) =
      Inr plan \<and> data_files plan = example_files \<and> unat (total_record_count plan) = 7"
  using PlanFilesImpl_plan [where S = example_scan_api and E = tree_expressions and info = example_info and filters = "[]" and env = example_env and T = example_table]
  by (simp add: example_tasks readable_def example_files_def example_file_def)

definition example_planned ::
  "scan_plan throws \<times> (nat, scan_plan option) file_list \<times> nat env" where
  "example_planned = PlanFiles example_scan_api example_lazy tree_expressions example_table
     (example_list_of []) example_env"

lemma example_planned_plan: "fst example_planned = Inr example_scan_plan"
proof -
  have "fst (PlanFilesImpl example_scan_api tree_expressions example_table example_info [] example_env) =
      Inr example_scan_plan"
    by (simp add: PlanFilesImpl_planned example_tasks example_scan_plan_def example_files_def example_file_def)
  then obtain env' where "PlanFilesImpl example_scan_api tree_expressions example_table example_info []
      example_env = (Inr example_scan_plan, env')"
    by (metis prod.collapse)
  then show ?thesis
    by (simp add: example_planned_def PlanFiles_def example_lazy_def example_list_of_def)
qed

theorem file_accesses_agree_witness:
  "GetTotalFileCount example_scan_api example_lazy tree_expressions example_table
     (fst (snd example_planned)) example_env = (Inr 2, fst (snd example_planned), example_env)"
proof -
  have "PlanFiles example_scan_api example_lazy tree_expressions example_table (example_list_of []) example_env
      = (Inr example_scan_plan, fst (snd example_planned), snd (snd example_planned))"
    using example_planned_plan unfolding example_planned_def by (metis prod.collapse)
  from file_accesses_agree [OF example_lazy_laws this, of example_env 0]
  show ?thesis by (auto simp: example_scan_plan_def example_files_def)
qed

text \<open>The same table after a row of the first file was deleted.\<close>

definition example_deleted_api where
  "example_deleted_api = example_scan_api\<lparr>
     ScanPlanFiles := (\<lambda>b w. (Inr [\<lparr>task_data_file = example_file ''a.parquet'' 3,
       delete_files = [example_file ''d.parquet'' 1]\<rparr>], w + 1))\<rparr>"

theorem unreadable_table_refused_witness:
  "\<exists>msg. fst (GetAllFiles example_deleted_api example_lazy tree_expressions example_table
     (example_list_of []) example_env) = Inl (NotImplementedException msg)"
proof -
  have new: "fl_plan (example_list_of []) = LazyNew example_lazy"
    by (simp add: example_list_of_def example_lazy_def)
  have tasks: "planned_tasks example_deleted_api tree_expressions (fl_scan_info (example_list_of []))
      (fl_filters (example_list_of [])) (world example_env) =
      Inr [\<lparr>task_data_file = example_file ''a.parquet'' 3, delete_files = [example_file ''d.parquet'' 1]\<rparr>]"
    by (simp add: planned_tasks_def example_deleted_api_def example_scan_api_def filtered_builder_def
        scan_builder_def example_info_def example_list_of_def)
  show ?thesis
    using unreadable_table_refused [OF example_lazy_laws new tasks, of example_table 0] by auto
qed

theorem ComplexFilterPushdown_filters_witness:
  "\<exists>fl'. fst (ComplexFilterPushdown example_lazy example_pushdown tree_expressions example_filters
     (example_list_of [(0, IsNotNullFilter)]) example_env) = Some fl' \<and>
   filters_keep example_semantics (fl_filters fl') [SchemaField 1 ''id'' kLong []] (\<lambda>c. BigIntValue 7) \<and>
   \<not> filters_keep example_semantics (fl_filters fl') [SchemaField 1 ''id'' kLong []] (\<lambda>c. BigIntValue 1)"
proof -
  let ?call = "fst (ComplexFilterPushdown example_lazy example_pushdown tree_expressions example_filters
     (example_list_of [(0, IsNotNullFilter)]) example_env)"
  have gen: "GenerateTableScanFilters example_pushdown example_filters = example_filters"
    by (simp add: example_pushdown_def example_filters_def)
  note laws = ComplexFilterPushdown_filters [OF example_pushdown_laws tree_simplification_laws,
      where D = example_semantics and L = example_lazy and filters = example_filters
        and fl = "example_list_of [(0, IsNotNullFilter)]" and env = example_env]
  have all: "filters_keep example_semantics (fl_filters fl') schema r \<longleftrightarrow>
      filters_keep example_semantics [(0, IsNotNullFilter)] schema r \<and>
      filters_keep example_semantics example_filters schema r" if "?call = Some fl'" for fl' schema r
    using laws unfolding that by (simp add: gen example_list_of_def)
  have prunes: "\<not> (example_filters = [] \<or> (\<forall>(i, f) \<in> set (GenerateTableScanFilters example_pushdown example_filters).
      i < length (si_schema (fl_scan_info (example_list_of [(0, IsNotNullFilter)]))) \<longrightarrow> widens f))"
    by (simp add: gen) (simp add: example_filters_def example_list_of_def example_info_def ConvertFilterConstant_def)
  obtain fl' where call: "?call = Some fl'"
    using laws prunes by (cases ?call) simp_all
  show ?thesis
    unfolding call
    by (intro exI [of _ fl'], unfold all [OF call])
       (simp add: filters_keep_def example_filters_def duckdb_semantics_def scalar_compare_def)
qed

theorem DynamicFilterPushdown_filters_witness:
  "\<exists>fl'. fst (DynamicFilterPushdown example_lazy example_pushdown tree_expressions [1000, 0]
     ((0, IsNullFilter) # [(1, ConstantFilter COMPARE_GREATERTHANOREQUALTO (BigIntValue 5))])
     (example_list_of [(0, IsNotNullFilter)]) example_env) = Some fl' \<and>
   filters_keep example_semantics (fl_filters fl') [SchemaField 1 ''id'' kLong []] (\<lambda>c. BigIntValue 7) \<and>
   \<not> filters_keep example_semantics (fl_filters fl') [SchemaField 1 ''id'' kLong []] (\<lambda>c. BigIntValue 1)"
proof -
  let ?filters = "(0, IsNullFilter) # [(1, ConstantFilter COMPARE_GREATERTHANOREQUALTO (BigIntValue 5))]"
  let ?call = "fst (DynamicFilterPushdown example_lazy example_pushdown tree_expressions [1000, 0]
     ?filters (example_list_of [(0, IsNotNullFilter)]) example_env)"
  note laws = DynamicFilterPushdown_filters [OF example_pushdown_laws,
      where D = example_semantics and L = example_lazy and filters = ?filters and E = tree_expressions
        and fl = "example_list_of [(0, IsNotNullFilter)]" and env = example_env and col_ids = "[1000, 0]"]
  have all: "filters_keep example_semantics (fl_filters fl') schema r \<longleftrightarrow>
      filters_keep example_semantics [(0, IsNotNullFilter)] schema r \<and>
      dynamic_keep example_pushdown example_semantics [1000, 0] ?filters schema r"
    if "?call = Some fl'" for fl' schema r
    using laws unfolding that by (simp add: example_list_of_def)
  have new: "NewFilters example_pushdown [(0, IsNotNullFilter)] [1000, 0] ?filters [] = example_filters"
    by (simp add: example_pushdown_def example_filters_def om_find_def)
  have "CanPrunePlanning tree_expressions example_filters (si_schema example_info)"
    by (simp add: CanPrunePlanning_def filters_widen [OF tree_simplification_laws] example_filters_def
        example_info_def ConvertFilterConstant_def)
  then obtain fl' where call: "?call = Some fl'"
    using new by (simp add: DynamicFilterPushdown_def Let_def example_list_of_def example_filters_def)
  show ?thesis
    unfolding call
    by (intro exI [of _ fl'], unfold all [OF call])
       (simp add: filters_keep_def dynamic_keep_def example_pushdown_def duckdb_semantics_def scalar_compare_def)
qed

lemma example_planning_laws:
  "planning_laws example_scan_api tree_holds (\<lambda>b. set example_files) (\<lambda>d. {example_row d})"
  by (auto simp: planning_laws_def example_scan_api_def scan_builder_def Let_def image_iff split: scan_mode.splits)

end
