(* ===== verification/TableEntry.thy ===== *)
theory TableEntry
  imports SchemaEntry
begin

text \<open>
  Scanning a table (src/src/proto_iceberg_table_entry.cpp): the S3 secret for a table's vended
  credentials, a connection's \<open>ScopedSecrets\<close> and the scan function. The lemmas show how secrets are
  named and scoped, that an entry gets one secret, and that a transaction's end drops them.

  Parameters: DuckDB's secret manager \<open>M\<close> over its own state \<open>'m\<close>, the accessors \<open>T\<close> of iceberg-cpp's
  tables, its property names \<open>P\<close>, and the functions \<open>F\<close> with which DuckDB finds and binds
  \<open>parquet_scan\<close>.
\<close>

section \<open>Secrets for vended credentials\<close>

datatype on_create_conflict = REPLACE_ON_CONFLICT | OTHER_ON_CONFLICT nat

datatype persist_type = TEMPORARY | OTHER_PERSIST nat

record create_secret_input =
  cs_type :: string
  cs_provider :: string
  cs_storage_type :: string
  cs_on_conflict :: on_create_conflict
  cs_persist_type :: persist_type
  cs_scope :: "string list"
  cs_name :: string
  cs_options :: secret_options

definition MakeBaseS3SecretInput :: create_secret_input where
  "MakeBaseS3SecretInput =
     \<lparr>cs_type = kS3SecretType, cs_provider = kConfigProvider, cs_storage_type = ''memory'',
      cs_on_conflict = REPLACE_ON_CONFLICT, cs_persist_type = TEMPORARY,
      cs_scope = [], cs_name = [], cs_options = Map.empty\<rparr>"

definition scope_with_slash :: "string \<Rightarrow> string" where
  "scope_with_slash p = (if p \<noteq> [] \<and> last p \<noteq> CHR ''/'' then p @ ''/'' else p)"

definition BuildScopedS3Secret ::
  "'tbl iceberg_table \<Rightarrow> s3_properties \<Rightarrow> 'tbl \<Rightarrow> create_secret_input throws" where
  "BuildScopedS3Secret T P table =
     (case io_properties T table of
        None \<Rightarrow> Inl (IOException (''Table '' @ CHR 0x27 # full_name T table @ CHR 0x27 #
                  '' has no FileIO; cannot vend S3 credentials''))
      | Some io \<Rightarrow>
          (let scope_prefix = scope_with_slash (location T table)
           in if scope_prefix = []
              then Inl (IOException (''Cannot create scoped S3 secret for table '' @ CHR 0x27 #
                     full_name T table @ CHR 0x27 # '': empty location''))
              else
                (let input = MakeBaseS3SecretInput\<lparr>cs_scope := [scope_prefix]\<rparr>;
                   write_data_path = write_data_location T table;
                   input = (if write_data_path \<noteq> []
                            then input\<lparr>cs_scope := cs_scope input @ [scope_with_slash write_data_path]\<rparr>
                            else input)
                 in Inr (input\<lparr>cs_options := ConvertIcebergPropertiesToS3Secret P io\<rparr>))))"

section \<open>Scoped secrets\<close>

text \<open>
  DuckDB's secret manager: \<open>CreateSecret\<close> returns whether there is a secret (the pointer is not
  null); the others throw or not. Dropping runs in a transaction of a new connection.
\<close>

record 'm secret_manager =
  CreateSecret :: "create_secret_input \<Rightarrow> 'm \<Rightarrow> bool throws \<times> 'm"
  OpenAndBegin :: "'m \<Rightarrow> unit throws \<times> 'm"
  DropSecretByName :: "string \<Rightarrow> 'm \<Rightarrow> unit throws \<times> 'm"
  Commit :: "'m \<Rightarrow> unit throws \<times> 'm"

text \<open>\<open>StringUtil::Format\<close> with the catalog's name, the transaction's ID and the secret's index.\<close>

definition scoped_secret_name :: "string \<Rightarrow> nat \<Rightarrow> nat \<Rightarrow> string" where
  "scoped_secret_name catalog_name txn_id index =
     ''__proto_ic_'' @ catalog_name @ ''_'' @ to_string txn_id @ ''_'' @ to_string index"

text \<open>\<open>ScopedSecrets::Create\<close>; the state is \<open>names_\<close> and the manager's.\<close>

definition ScopedSecretsCreate ::
  "'m secret_manager \<Rightarrow> 'tbl iceberg_table \<Rightarrow> s3_properties \<Rightarrow> nat \<Rightarrow> string \<Rightarrow> 'tbl \<Rightarrow>
   string list \<Rightarrow> 'm \<Rightarrow> unit throws \<times> string list \<times> 'm" where
  "ScopedSecretsCreate M T P txn_id catalog_name table names m =
     (case BuildScopedS3Secret T P table of
        Inl e \<Rightarrow> (Inl e, names, m)
      | Inr input \<Rightarrow>
          (let input = input\<lparr>cs_name := scoped_secret_name catalog_name txn_id (length names)\<rparr>
           in case CreateSecret M input m of
                (Inl e, m) \<Rightarrow> (Inl e, names, m)
              | (Inr created, m) \<Rightarrow>
                  (if \<not> created
                   then (Inl (IOException (''Failed to create scoped S3 secret '' @ CHR 0x27 # cs_name input @
                           CHR 0x27 # '' for table '' @ CHR 0x27 # full_name T table @ [CHR 0x27])), names, m)
                   else (Inr (), names @ [cs_name input], m))))"

fun DropSecrets :: "'m secret_manager \<Rightarrow> string list \<Rightarrow> 'm \<Rightarrow> unit throws \<times> 'm" where
  "DropSecrets M [] m = (Inr (), m)"
| "DropSecrets M (name # names) m =
     (case DropSecretByName M name m of
        (Inl e, m) \<Rightarrow> (Inl e, m)
      | (Inr _, m) \<Rightarrow> DropSecrets M names m)"

text \<open>
  \<open>ScopedSecrets::DropAll\<close>, which \<open>TransactionCommit\<close> and \<open>TransactionRollback\<close> call: whatever
  is thrown is caught and logged, with its text.
\<close>

definition DropAll ::
  "'m secret_manager \<Rightarrow> (exception \<Rightarrow> string) \<Rightarrow> string list \<Rightarrow> 'm \<Rightarrow> 'w env \<Rightarrow> string list \<times> 'm \<times> 'w env"
  where
  "DropAll M what names m env =
     (if names = [] then ([], m, env)
      else
        (let (r, m) =
           (case OpenAndBegin M m of
              (Inl e, m) \<Rightarrow> (Inl e, m)
            | (Inr _, m) \<Rightarrow>
                (case DropSecrets M names m of
                   (Inl e, m) \<Rightarrow> (Inl e, m)
                 | (Inr _, m) \<Rightarrow> Commit M m))
         in case r of
              Inl e \<Rightarrow> ([], m, write_log (LogSecretsNotDropped (what e)) env)
            | Inr _ \<Rightarrow> ([], m, env)))"

text \<open>
  A connection's registered states, of which the source uses its own: \<open>ScopedSecrets::Get\<close> gets or
  creates it. DuckDB calls the other two when the connection's whole transaction has ended.
\<close>

definition kScopedSecretsStateKey :: string where
  "kScopedSecretsStateKey = ''proto_iceberg_scoped_secrets''"

definition ScopedSecretsGet :: "(string \<rightharpoonup> string list) \<Rightarrow> string list \<times> (string \<rightharpoonup> string list)" where
  "ScopedSecretsGet registered_state =
     (case registered_state kScopedSecretsStateKey of
        Some names \<Rightarrow> (names, registered_state)
      | None \<Rightarrow> ([], registered_state(kScopedSecretsStateKey \<mapsto> [])))"

definition TransactionCommit ::
  "'m secret_manager \<Rightarrow> (exception \<Rightarrow> string) \<Rightarrow> string list \<Rightarrow> 'm \<Rightarrow> 'w env \<Rightarrow> string list \<times> 'm \<times> 'w env"
  where "TransactionCommit M what names m env = DropAll M what names m env"

definition TransactionRollback ::
  "'m secret_manager \<Rightarrow> (exception \<Rightarrow> string) \<Rightarrow> string list \<Rightarrow> 'm \<Rightarrow> 'w env \<Rightarrow> string list \<times> 'm \<times> 'w env"
  where "TransactionRollback M what names m env = DropAll M what names m env"

section \<open>The scan function\<close>

datatype multi_file_reader = DefaultReader | ProtoIcebergMultiFileReader

text \<open>\<open>TableFunction\<close>: the members the source sets, and the rest of \<open>parquet_scan\<close>.\<close>

record ('tbl, 'f) table_function =
  tf_name :: string
  get_multi_file_reader :: multi_file_reader
  function_info :: "'tbl scan_info option"
  projection_pushdown :: bool
  tf_rest :: 'f

text \<open>
  DuckDB's functions: \<open>AutoLoadExtension\<close>, the lookup of a function set in the system catalog, the
  choice of an overload, and the function's \<open>bind\<close> on the placeholder paths.
\<close>

record ('tbl, 'f, 'fs, 'b) scan_functions =
  AutoLoadExtension :: "string \<Rightarrow> unit throws"
  GetFunctionEntry :: "string \<Rightarrow> 'fs option"
  GetFunctionByArguments :: "'fs \<Rightarrow> logical_type list \<Rightarrow> ('tbl, 'f) table_function throws"
  bind_function :: "('tbl, 'f) table_function \<Rightarrow> string list \<Rightarrow> 'b throws"

definition kParquetScan :: string where "kParquetScan = ''parquet_scan''"
definition kParquetExtension :: string where "kParquetExtension = ''parquet''"
definition kHttpfsExtension :: string where "kHttpfsExtension = ''httpfs''"
definition kTableScanName :: string where "kTableScanName = ''proto_iceberg_table_scan''"

definition GetParquetScanFunction ::
  "('tbl, 'f, 'fs, 'b) scan_functions \<Rightarrow> ('tbl, 'f) table_function throws" where
  "GetParquetScanFunction F =
     (case AutoLoadExtension F kParquetExtension of
        Inl e \<Rightarrow> Inl e
      | Inr _ \<Rightarrow>
          (case GetFunctionEntry F kParquetScan of
             None \<Rightarrow> Inl (InvalidInputException (''Function '' @ CHR 0x27 # kParquetScan @ CHR 0x27 #
                       '' not found - parquet extension could not be loaded''))
           | Some func_set \<Rightarrow> GetFunctionByArguments F func_set [LIST VARCHAR]))"

definition ConfigureIcebergScan ::
  "('tbl, 'f, 'fs, 'b) scan_functions \<Rightarrow> 'tbl scan_info \<Rightarrow> ('tbl, 'f) table_function throws" where
  "ConfigureIcebergScan F info =
     (case GetParquetScanFunction F of
        Inl e \<Rightarrow> Inl e
      | Inr iceberg_scan \<Rightarrow>
          Inr (iceberg_scan\<lparr>get_multi_file_reader := ProtoIcebergMultiFileReader,
                 function_info := Some info, tf_name := kTableScanName, projection_pushdown := True\<rparr>))"

definition MakePlaceholderScanInputs :: "string list" where
  "MakePlaceholderScanInputs = [''iceberg_placeholder'']"

definition BindIcebergScan ::
  "('tbl, 'f, 'fs, 'b) scan_functions \<Rightarrow> ('tbl, 'f) table_function \<Rightarrow>
   (('tbl, 'f) table_function \<times> 'b) throws" where
  "BindIcebergScan F iceberg_scan =
     (case bind_function F iceberg_scan MakePlaceholderScanInputs of
        Inl e \<Rightarrow> Inl e
      | Inr bind_data \<Rightarrow> Inr (iceberg_scan, bind_data))"

text \<open>
  \<open>GetScanFunction\<close> on the entry a reference points to. The state is the registry that holds the
  entry, the connection's secret names and the secret manager.
\<close>

definition GetScanFunction ::
  "('tbl, 'f, 'fs, 'b) scan_functions \<Rightarrow> 'm secret_manager \<Rightarrow> 'tbl iceberg_table \<Rightarrow> s3_properties \<Rightarrow>
   nat \<Rightarrow> string \<Rightarrow> nat \<Rightarrow> 'tbl registry \<Rightarrow> string list \<Rightarrow> 'm \<Rightarrow>
   (('tbl, 'f) table_function \<times> 'b) throws \<times> 'tbl registry \<times> string list \<times> 'm" where
  "GetScanFunction F M T P txn_id catalog_name i reg names m =
     (let entry = deref reg i
      in case te_scan_info entry of
           None \<Rightarrow> (Inl (InternalException (''Cannot scan Iceberg table '' @ CHR 0x27 # te_name entry @
                      CHR 0x27 # '' before it is fully loaded'')), reg, names, m)
         | Some info \<Rightarrow>
             (case AutoLoadExtension F kHttpfsExtension of
                Inl e \<Rightarrow> (Inl e, reg, names, m)
              | Inr _ \<Rightarrow>
                  (case (if te_has_secret entry then (Inr (), names, m)
                         else ScopedSecretsCreate M T P txn_id catalog_name (si_table info) names m) of
                     (Inl e, names, m) \<Rightarrow> (Inl e, reg, names, m)
                   | (Inr _, names, m) \<Rightarrow>
                       (let reg = (if te_has_secret entry then reg else SetHasSecret i reg)
                        in case ConfigureIcebergScan F info of
                             Inl e \<Rightarrow> (Inl e, reg, names, m)
                           | Inr iceberg_scan \<Rightarrow> (BindIcebergScan F iceberg_scan, reg, names, m)))))"

text \<open>There are no statistics of a column.\<close>

definition GetStatistics :: "nat \<Rightarrow> 'st option" where
  "GetStatistics column_id = None"

text \<open>The update a read-only table refuses.\<close>

definition BindUpdateConstraints :: "'a throws" where
  "BindUpdateConstraints = Inl (NotImplementedException ''UPDATE is not supported in a read-only Iceberg catalog'')"

section \<open>Names and scopes\<close>

lemma scoped_secret_name_eq:
  "scoped_secret_name c x i = scoped_secret_name c' x' i' \<longleftrightarrow> c = c' \<and> x = x' \<and> i = i'"
proof -
  have split: "scoped_secret_name c x i =
      (''__proto_ic_'' @ c @ ''_'' @ to_string x) @ CHR ''_'' # to_string i" for c x i
    by (simp add: scoped_secret_name_def)
  have inner: "''__proto_ic_'' @ c @ ''_'' @ to_string x = (''__proto_ic_'' @ c) @ CHR ''_'' # to_string x"
    for c x by simp
  show ?thesis
    unfolding split append_separator_eq [OF to_string_no_underscore to_string_no_underscore] inner
    by (auto simp: append_separator_eq [OF to_string_no_underscore to_string_no_underscore])
qed

lemma scope_with_slash_last: "p \<noteq> [] \<Longrightarrow> last (scope_with_slash p) = CHR ''/''"
  by (simp add: scope_with_slash_def)

lemma scope_with_slash_Nil [simp]: "scope_with_slash p = [] \<longleftrightarrow> p = []"
  by (simp add: scope_with_slash_def)

lemma scope_with_slash_covers:
  "p \<noteq> [] \<Longrightarrow> last p \<noteq> CHR ''/'' \<Longrightarrow>
   starts_with (p @ path) (scope_with_slash p) \<longleftrightarrow> (\<exists>rest. path = CHR ''/'' # rest)"
  by (cases path) (auto simp: scope_with_slash_def starts_with_def)

text \<open>
  C27. A table's secret covers its directories and nothing beside them: it is refused exactly when
  the table has no FileIO or no location; otherwise its scopes are the table's location and, where
  the table sets one, its data path, each ended by a slash, so that a file is covered when it lies
  below one of them and not merely when its path starts with the same text.
\<close>

theorem BuildScopedS3Secret_scope:
  "case BuildScopedS3Secret T P table of
     Inl e \<Rightarrow> (\<exists>msg. e = IOException msg) \<and> (io_properties T table = None \<or> location T table = [])
   | Inr input \<Rightarrow>
       location T table \<noteq> [] \<and>
       io_properties T table \<noteq> None \<and>
       cs_scope input =
         scope_with_slash (location T table) #
         (if write_data_location T table = [] then [] else [scope_with_slash (write_data_location T table)]) \<and>
       (\<forall>path. last (location T table) \<noteq> CHR ''/'' \<longrightarrow>
          starts_with (location T table @ path) (hd (cs_scope input)) = (\<exists>rest. path = CHR ''/'' # rest)) \<and>
       Ball (set (cs_scope input)) (\<lambda>scope. last scope = CHR ''/'') \<and>
       cs_options input = ConvertIcebergPropertiesToS3Secret P (the (io_properties T table)) \<and>
       cs_persist_type input = TEMPORARY"
proof (cases "io_properties T table")
  case None
  then show ?thesis by (simp add: BuildScopedS3Secret_def)
next
  case (Some io)
  show ?thesis
  proof (cases "location T table = []")
    case True
    with Some show ?thesis by (simp add: BuildScopedS3Secret_def Let_def)
  next
    case False
    have "starts_with (location T table @ path) (scope_with_slash (location T table)) =
        (\<exists>rest. path = CHR ''/'' # rest)" if "last (location T table) \<noteq> CHR ''/''" for path
      using scope_with_slash_covers [OF False that] .
    with Some False show ?thesis
      by (auto simp: BuildScopedS3Secret_def Let_def MakeBaseS3SecretInput_def scope_with_slash_last)
  qed
qed

section \<open>The life of scoped secrets\<close>

text \<open>
  What is relied on of DuckDB's secret manager, seen as the set of secrets that exist and the set of
  those being dropped: a secret exists once its creation returned it; the drops of a transaction take
  effect when it commits; an operation that throws leaves the secrets as they are.
\<close>

definition secret_manager_laws ::
  "'m secret_manager \<Rightarrow> ('m \<Rightarrow> string set) \<Rightarrow> ('m \<Rightarrow> string set) \<Rightarrow> bool" where
  "secret_manager_laws M secrets dropping \<longleftrightarrow>
     (\<forall>input m. secrets (snd (CreateSecret M input m)) =
        (if fst (CreateSecret M input m) = Inr True then insert (cs_name input) (secrets m) else secrets m)) \<and>
     (\<forall>m. secrets (snd (OpenAndBegin M m)) = secrets m \<and>
        (fst (OpenAndBegin M m) = Inr () \<longrightarrow> dropping (snd (OpenAndBegin M m)) = {})) \<and>
     (\<forall>name m. secrets (snd (DropSecretByName M name m)) = secrets m \<and>
        (fst (DropSecretByName M name m) = Inr () \<longrightarrow>
           dropping (snd (DropSecretByName M name m)) = insert name (dropping m))) \<and>
     (\<forall>m. secrets (snd (Commit M m)) =
        (if fst (Commit M m) = Inr () then secrets m - dropping m else secrets m))"

lemma DropSecrets_laws:
  assumes "secret_manager_laws M secrets dropping" and "DropSecrets M names m = (r, m')"
  shows "secrets m' = secrets m \<and> (r = Inr () \<longrightarrow> dropping m' = dropping m \<union> set names)"
  using assms(2)
proof (induction names arbitrary: m)
  case (Cons name names)
  obtain r1 m1 where drop: "DropSecretByName M name m = (r1, m1)" by fastforce
  then have "secrets m1 = secrets m" "r1 = Inr () \<longrightarrow> dropping m1 = insert name (dropping m)"
    using assms(1) unfolding secret_manager_laws_def by (metis fst_conv snd_conv)+
  then show ?case
    using Cons drop by (cases r1) auto
qed simp

text \<open>The secrets of a transaction, for the tables scanned in it, failures included.\<close>

fun create_secrets ::
  "'m secret_manager \<Rightarrow> 'tbl iceberg_table \<Rightarrow> s3_properties \<Rightarrow> nat \<Rightarrow> (string \<times> 'tbl) list \<Rightarrow>
   string list \<times> 'm \<Rightarrow> string list \<times> 'm" where
  "create_secrets M T P txn_id [] s = s"
| "create_secrets M T P txn_id ((catalog_name, table) # rest) (names, m) =
     create_secrets M T P txn_id rest
       (snd (ScopedSecretsCreate M T P txn_id catalog_name table names m))"

text \<open>Names given so far: distinct, and each has its own index.\<close>

definition names_ok :: "nat \<Rightarrow> string list \<Rightarrow> bool" where
  "names_ok txn_id names \<longleftrightarrow>
     (\<forall>i < length names. \<exists>catalog_name. names ! i = scoped_secret_name catalog_name txn_id i)"

lemma names_ok_distinct: "names_ok txn_id names \<Longrightarrow> distinct names"
  unfolding names_ok_def distinct_conv_nth by (metis scoped_secret_name_eq)

lemma ScopedSecretsCreate_cases [consumes 1, case_names failed created]:
  assumes "ScopedSecretsCreate M T P txn_id catalog_name table names m = (r, names', m')"
  obtains e where "r = Inl e" "names' = names"
      "m' = m \<or> (\<exists>input. m' = snd (CreateSecret M input m) \<and> fst (CreateSecret M input m) \<noteq> Inr True)"
  | input where "r = Inr ()" "BuildScopedS3Secret T P table = Inr input"
      "names' = names @ [scoped_secret_name catalog_name txn_id (length names)]"
      "CreateSecret M (input\<lparr>cs_name := scoped_secret_name catalog_name txn_id (length names)\<rparr>) m =
         (Inr True, m')"
proof (cases "BuildScopedS3Secret T P table")
  case (Inl e)
  with assms show ?thesis by (intro that(1)) (auto simp: ScopedSecretsCreate_def)
next
  case (Inr input)
  let ?input = "input\<lparr>cs_name := scoped_secret_name catalog_name txn_id (length names)\<rparr>"
  obtain c m1 where create: "CreateSecret M ?input m = (c, m1)" by fastforce
  show ?thesis
  proof (cases "c = Inr True")
    case True
    with assms Inr create show ?thesis
      by (intro that(2) [of input]) (auto simp: ScopedSecretsCreate_def Let_def)
  next
    case False
    have "m' = m1" "names' = names" "\<exists>e. r = Inl e"
      using assms Inr create False
      by (auto simp: ScopedSecretsCreate_def Let_def split: sum.splits if_splits)
    with False create show ?thesis by (metis that(1) fst_conv snd_conv)
  qed
qed

lemma ScopedSecretsCreate_laws:
  assumes "secret_manager_laws M secrets dropping" and "names_ok txn_id names"
    and "ScopedSecretsCreate M T P txn_id catalog_name table names m = (r, names', m')"
  shows "names_ok txn_id names' \<and> (\<exists>added. names' = names @ added \<and> secrets m' = secrets m \<union> set added)"
proof -
  have secrets: "secrets (snd (CreateSecret M input m)) =
      (if fst (CreateSecret M input m) = Inr True then insert (cs_name input) (secrets m) else secrets m)"
    for input using assms(1) by (simp add: secret_manager_laws_def)
  from assms(3) show ?thesis
  proof (cases rule: ScopedSecretsCreate_cases)
    case (failed e)
    then show ?thesis using assms(2) secrets by auto
  next
    case (created input)
    let ?name = "scoped_secret_name catalog_name txn_id (length names)"
    have "names_ok txn_id (names @ [?name])"
      using assms(2) by (auto simp: names_ok_def nth_append less_Suc_eq)
    moreover have "secrets m' = insert ?name (secrets m)"
      using secrets [of "input\<lparr>cs_name := ?name\<rparr>"] created(4) by simp
    ultimately show ?thesis using created(3) by simp
  qed
qed

lemma create_secrets_laws:
  assumes "secret_manager_laws M secrets dropping" and "names_ok txn_id (fst s)"
    and "create_secrets M T P txn_id scans s = (names', m')"
  shows "names_ok txn_id names' \<and>
    (\<exists>added. names' = fst s @ added \<and> secrets m' = secrets (snd s) \<union> set added)"
  using assms(2,3)
proof (induction scans arbitrary: s)
  case (Cons scan scans)
  obtain catalog_name table where scan: "scan = (catalog_name, table)" by fastforce
  obtain names m where s: "s = (names, m)" by fastforce
  obtain r names1 m1 where create:
    "ScopedSecretsCreate M T P txn_id catalog_name table names m = (r, names1, m1)"
    using prod_cases3 by blast
  from ScopedSecretsCreate_laws [OF assms(1) _ create] Cons.prems(1)
  obtain added1 where "names_ok txn_id names1" "names1 = names @ added1"
    "secrets m1 = secrets m \<union> set added1" by (auto simp: s)
  moreover from this Cons.IH [of "(names1, m1)"] Cons.prems(2) create
  obtain added2 where "names_ok txn_id names'" "names' = names1 @ added2"
    "secrets m' = secrets m1 \<union> set added2" by (auto simp: s scan)
  ultimately show ?case
    by (intro conjI exI [of _ "added1 @ added2"]) (auto simp: s)
qed simp

text \<open>
  A transaction leaves no secrets behind: whatever scans it made, the secrets it created have
  distinct names and, when it ends and dropping them raises no error, the secrets that exist are
  those that existed before; if dropping fails, that is logged, nothing is raised, and at most the
  transaction's own secrets remain. Either way the connection starts its next transaction with none.
\<close>

lemma ScopedSecrets_life:
  assumes "secret_manager_laws M secrets dropping"
    and "\<forall>c i. scoped_secret_name c txn_id i \<notin> secrets m"
    and "create_secrets M T P txn_id scans ([], m) = (names, m1)"
    and "DropAll M what names m1 env = (names', m2, env')"
  shows "names' = [] \<and> distinct names \<and> secrets m1 = secrets m \<union> set names \<and>
    (if env' = env then secrets m2 = secrets m
     else secrets m2 = secrets m1 \<and> (\<exists>e. env' = write_log (LogSecretsNotDropped (what e)) env))"
proof -
  have ok: "names_ok txn_id names" and m1: "secrets m1 = secrets m \<union> set names"
    using create_secrets_laws [OF assms(1) _ assms(3)] by (auto simp: names_ok_def)
  have fresh: "set names \<inter> secrets m = {}"
    using ok assms(2) by (fastforce simp: names_ok_def in_set_conv_nth)
  have changed: "write_log msg env \<noteq> env" for msg
    using write_log_simps(2) [of msg env] by (metis not_Cons_self2 append_self_conv)
  have begin_law: "secrets (snd (OpenAndBegin M m)) = secrets m"
      "fst (OpenAndBegin M m) = Inr () \<Longrightarrow> dropping (snd (OpenAndBegin M m)) = {}"
    and commit_law: "secrets (snd (Commit M m)) =
        (if fst (Commit M m) = Inr () then secrets m - dropping m else secrets m)" for m
    using assms(1) unfolding secret_manager_laws_def by blast+
  obtain rb mb where beg: "OpenAndBegin M m1 = (rb, mb)" by fastforce
  obtain rd md where drop: "DropSecrets M names mb = (rd, md)" by fastforce
  obtain rc mc where com: "Commit M md = (rc, mc)" by fastforce
  have "secrets mb = secrets m1" "rb = Inr () \<Longrightarrow> dropping mb = {}"
    using begin_law [of m1] beg by simp_all
  moreover have "secrets md = secrets mb" "rd = Inr () \<Longrightarrow> dropping md = dropping mb \<union> set names"
    using DropSecrets_laws [OF assms(1) drop] by simp_all
  moreover have "secrets mc = (if rc = Inr () then secrets md - dropping md else secrets md)"
    using commit_law [of md] com by simp
  ultimately show ?thesis
    using assms(4) beg drop com m1 fresh changed names_ok_distinct [OF ok]
    by (cases rb; cases rd; cases rc) (auto simp: DropAll_def split: if_splits)
qed

section \<open>Scanning\<close>

lemma GetScanFunction_has_secret:
  "te_has_secret (deref reg i) \<Longrightarrow> snd (GetScanFunction F M T P txn_id c i reg names m) = (reg, names, m)"
  by (auto simp: GetScanFunction_def Let_def split: option.split sum.split)

lemma GetScanFunction_returned:
  assumes "GetScanFunction F M T P txn_id c i reg names m = (Inr (scan, bind_data), reg', names', m')"
    and "i < length (reg_entries reg)"
  shows "\<exists>info. te_scan_info (deref reg i) = Some info \<and> function_info scan = Some info \<and>
    get_multi_file_reader scan = ProtoIcebergMultiFileReader \<and> tf_name scan = kTableScanName \<and>
    projection_pushdown scan \<and> te_has_secret (deref reg' i) \<and> retained reg reg' \<and>
    names' = (if te_has_secret (deref reg i) then names
              else names @ [scoped_secret_name c txn_id (length names)])"
proof (cases "te_scan_info (deref reg i)")
  case None
  with assms show ?thesis by (simp add: GetScanFunction_def Let_def)
next
  case (Some info)
  obtain r1 names1 m1 where create: "(if te_has_secret (deref reg i) then (Inr (), names, m)
      else ScopedSecretsCreate M T P txn_id c (si_table info) names m) = (r1, names1, m1)"
    using prod_cases3 by blast
  let ?reg = "if te_has_secret (deref reg i) then reg else SetHasSecret i reg"
  from assms(1) Some create obtain iceberg_scan where
    r1: "r1 = Inr ()" and conf: "ConfigureIcebergScan F info = Inr iceberg_scan"
    and bind: "BindIcebergScan F iceberg_scan = Inr (scan, bind_data)"
    and state: "reg' = ?reg" "names' = names1" "m' = m1"
    by (auto simp: GetScanFunction_def Let_def split: sum.splits)
  have "scan = iceberg_scan" using bind by (auto simp: BindIcebergScan_def split: sum.splits)
  with conf have scan: "function_info scan = Some info" "tf_name scan = kTableScanName"
    "get_multi_file_reader scan = ProtoIcebergMultiFileReader" "projection_pushdown scan"
    by (auto simp: ConfigureIcebergScan_def split: sum.splits)
  have "names1 = (if te_has_secret (deref reg i) then names
      else names @ [scoped_secret_name c txn_id (length names)])"
    using create r1
    by (auto simp: ScopedSecretsCreate_def Let_def split: if_splits sum.splits prod.splits)
  moreover have "te_has_secret (deref ?reg i)" and "retained reg ?reg"
    using assms(2) by (auto simp: deref_SetHasSecret)
  ultimately show ?thesis using Some scan state by simp
qed

text \<open>What a scan leaves behind, whether it returns or throws.\<close>

lemma GetScanFunction_state:
  assumes "GetScanFunction F M T P txn_id c i reg names m = (r, reg', names', m')"
  shows "(reg' = reg \<and> names' = names) \<or>
    (\<not> te_has_secret (deref reg i) \<and> reg' = SetHasSecret i reg \<and>
     names' = names @ [scoped_secret_name c txn_id (length names)])"
proof (cases "te_scan_info (deref reg i)")
  case None
  with assms show ?thesis by (simp add: GetScanFunction_def Let_def)
next
  case (Some info)
  obtain r1 names1 m1 where create: "(if te_has_secret (deref reg i) then (Inr (), names, m)
      else ScopedSecretsCreate M T P txn_id c (si_table info) names m) = (r1, names1, m1)"
    using prod_cases3 by blast
  have names1: "names1 = (if te_has_secret (deref reg i) \<or> isl r1 then names
      else names @ [scoped_secret_name c txn_id (length names)])"
    using create by (auto simp: ScopedSecretsCreate_def Let_def split: if_splits sum.splits prod.splits)
  from assms Some create names1 show ?thesis
    by (cases "te_has_secret (deref reg i)"; cases r1)
       (auto simp: GetScanFunction_def Let_def split: sum.splits)
qed

text \<open>
  C26. Scanning an entry: a listing placeholder is refused with an internal error before anything
  happens; a scan that is returned reads, with this extension's reader, exactly the scan information
  the entry was loaded with, and by then the entry has its secret, created if it had none, under the
  next free name. Whether or not the scan succeeds, the entry is noted to have a secret exactly if it
  had one or the connection's list of secrets has grown by this one.
\<close>

theorem GetScanFunction_outcome:
  assumes "i < length (reg_entries reg)"
  shows "case GetScanFunction F M T P txn_id c i reg names m of (r, reg', names', m') \<Rightarrow>
    (te_has_secret (deref reg' i) \<longleftrightarrow> te_has_secret (deref reg i) \<or> names' \<noteq> names) \<and>
    (names' = names \<or> names' = names @ [scoped_secret_name c txn_id (length names)]) \<and>
    (case r of
       Inl e \<Rightarrow>
         if NeedsLoad (deref reg i)
         then (\<exists>msg. e = InternalException msg) \<and> reg' = reg \<and> names' = names \<and> m' = m else retained reg reg'
     | Inr (scan, bind_data) \<Rightarrow>
         \<not> NeedsLoad (deref reg i) \<and>
         function_info scan = te_scan_info (deref reg i) \<and>
         get_multi_file_reader scan = ProtoIcebergMultiFileReader \<and>
         te_has_secret (deref reg' i))"
proof -
  obtain r reg' names' m' where call: "GetScanFunction F M T P txn_id c i reg names m = (r, reg', names', m')"
    using prod_cases4 by blast
  from GetScanFunction_state [OF call] assms
  have state: "te_has_secret (deref reg' i) \<longleftrightarrow> te_has_secret (deref reg i) \<or> names' \<noteq> names"
    "names' = names \<or> names' = names @ [scoped_secret_name c txn_id (length names)]" "retained reg reg'"
    by (auto simp: deref_SetHasSecret)
  show ?thesis
  proof (cases r)
    case (Inl e)
    have "(\<exists>msg. e = InternalException msg) \<and> reg' = reg \<and> names' = names \<and> m' = m" if "NeedsLoad (deref reg i)"
      using call that Inl by (auto simp: GetScanFunction_def Let_def NeedsLoad_def)
    then show ?thesis using state by (simp add: call Inl)
  next
    case (Inr x)
    obtain scan bind_data where x: "x = (scan, bind_data)" by fastforce
    from GetScanFunction_returned [OF call [unfolded Inr x] assms] show ?thesis
      using state by (auto simp: call Inr x NeedsLoad_def)
  qed
qed

text \<open>
  A table entry gets one secret: once a scan of it has been returned, at no later point in the
  transaction does scanning it create a secret or change anything else.
\<close>

lemma GetScanFunction_one_secret:
  assumes "i < length (reg_entries reg)"
    and "GetScanFunction F M T P txn_id c i reg names m = (Inr x, reg1, names1, m1)"
    and "retained reg1 reg2"
  shows "snd (GetScanFunction F M T P txn_id c i reg2 names2 m2) = (reg2, names2, m2)"
proof -
  obtain scan bind_data where "x = (scan, bind_data)" by fastforce
  with GetScanFunction_returned [of F M T P txn_id c i reg names m scan bind_data reg1 names1 m1]
  have secret: "te_has_secret (deref reg1 i)" and "retained reg reg1"
    using assms(1,2) by auto
  then have "i < length (reg_entries reg1)" using assms(1) by (simp add: retained_def)
  then have "same_entry (deref reg1 i) (deref reg2 i)" using assms(3) by (simp add: deref_retained)
  with secret have "te_has_secret (deref reg2 i)" by (simp add: same_entry_def)
  then show ?thesis by (rule GetScanFunction_has_secret)
qed

section \<open>A concrete secret manager\<close>

definition example_manager :: "(string set \<times> string set) secret_manager" where
  "example_manager = \<lparr>
     CreateSecret = (\<lambda>input (existing, dropping). (Inr True, (insert (cs_name input) existing, dropping))),
     OpenAndBegin = (\<lambda>(existing, dropping). (Inr (), (existing, {}))),
     DropSecretByName = (\<lambda>name (existing, dropping). (Inr (), (existing, insert name dropping))),
     Commit = (\<lambda>(existing, dropping). (Inr (), (existing - dropping, {})))\<rparr>"

lemma example_manager_laws: "secret_manager_laws example_manager fst snd"
  by (auto simp: secret_manager_laws_def example_manager_def)

theorem BuildScopedS3Secret_scope_witness:
  "\<exists>input. BuildScopedS3Secret example_table example_s3_properties 7 = Inr input \<and>
     cs_scope input = [''s3://bucket/orders/''] \<and>
     starts_with ''s3://bucket/orders/data/a.parquet'' (hd (cs_scope input)) \<and>
     \<not> starts_with ''s3://bucket/orders2/data/a.parquet'' (hd (cs_scope input))"
proof -
  obtain input where built: "BuildScopedS3Secret example_table example_s3_properties 7 = Inr input"
    by (simp add: BuildScopedS3Secret_def example_table_def scope_with_slash_def)
  from BuildScopedS3Secret_scope [where T = example_table and P = example_s3_properties and table = 7]
  have scope: "cs_scope input = [scope_with_slash ''s3://bucket/orders'']"
    unfolding built by (simp_all add: example_table_def)
  then show ?thesis
    using built by (simp add: scope_with_slash_def starts_with_def)
qed

definition example_scan_functions :: "(nat, unit, unit, unit) scan_functions" where
  "example_scan_functions = \<lparr>
     AutoLoadExtension = (\<lambda>name. Inr ()),
     GetFunctionEntry = (\<lambda>name. if name = kParquetScan then Some () else None),
     GetFunctionByArguments = (\<lambda>func_set args. Inr \<lparr>tf_name = kParquetScan,
       get_multi_file_reader = DefaultReader, function_info = None, projection_pushdown = False,
       tf_rest = ()\<rparr>),
     bind_function = (\<lambda>f paths. Inr ())\<rparr>"

definition example_scan_call ::
  "((nat, unit) table_function \<times> unit) throws \<times> nat registry \<times> string list \<times> string set \<times> string set" where
  "example_scan_call = GetScanFunction example_scan_functions example_manager example_table
     example_s3_properties 42 ''lake'' 0 (tables example_loaded) [] ({}, {})"

lemma example_loaded_valid: "0 < length (reg_entries (tables example_loaded))"
  by (simp add: example_loaded_def)

lemma example_scan_returned: "\<exists>x. fst example_scan_call = Inr x"
  by (simp add: example_scan_call_def GetScanFunction_def ScopedSecretsCreate_def
      BuildScopedS3Secret_def example_table_def scope_with_slash_def example_manager_def
      example_scan_functions_def ConfigureIcebergScan_def GetParquetScanFunction_def
      BindIcebergScan_def example_loaded_def deref_def Let_def)

theorem GetScanFunction_outcome_witness:
  "case example_scan_call of (r, reg', names', m') \<Rightarrow>
     names' = [scoped_secret_name ''lake'' 42 0] \<and> te_has_secret (deref reg' 0) \<and>
     (case r of
        Inl e \<Rightarrow> False
      | Inr (scan, bind_data) \<Rightarrow> function_info scan = te_scan_info (deref (tables example_loaded) 0))"
proof -
  obtain x where returned: "fst example_scan_call = Inr x"
    using example_scan_returned by blast
  have fresh: "\<not> te_has_secret (deref (tables example_loaded) 0)"
    by (simp add: example_loaded_def deref_def)
  obtain r reg' names' m' where call: "example_scan_call = (r, reg', names', m')"
    using prod_cases4 by blast
  have "r = Inr x" using returned unfolding call by simp
  then show ?thesis
    using fresh GetScanFunction_outcome [OF example_loaded_valid, where F = example_scan_functions
        and M = example_manager and T = example_table and P = example_s3_properties and txn_id = 42
        and c = "''lake''" and names = "[]" and m = "({}, {})", folded example_scan_call_def]
    unfolding call by (cases x) auto
qed

end
