(* ===== verification/MultiFileReader.thy ===== *)
theory MultiFileReader
  imports MultiFileList TableEntry
begin

text \<open>
  The reader DuckDB's \<open>parquet_scan\<close> is given (src/src/proto_iceberg_multi_file_reader.cpp): from the
  scan function's information to the file list, and the columns and options it binds. The lemmas show
  that what it binds are the columns of the table entry that was looked up.

  Parameters: \<open>L\<close> as in MultiFileList, and \<open>B\<close>, DuckDB's own \<open>BindOptions\<close>.
\<close>

section \<open>The reader\<close>

record 'tbl iceberg_reader =
  rd_function_info :: "'tbl scan_info option"

definition MakeReader :: "'tbl scan_info option \<Rightarrow> 'tbl iceberg_reader" where
  "MakeReader function_info_p = \<lparr>rd_function_info = function_info_p\<rparr>"

definition CreateInstance :: "('tbl, 'f) table_function \<Rightarrow> 'tbl iceberg_reader" where
  "CreateInstance f = MakeReader (function_info f)"

text \<open>\<open>CreateFileList\<close> asserts that there is scan information: \<open>None\<close> is the assertion's failure.\<close>

definition CreateFileList :: "('w, 'l) lazy_api \<Rightarrow> 'tbl iceberg_reader \<Rightarrow> ('tbl, 'l) file_list option" where
  "CreateFileList L reader =
     (case rd_function_info reader of
        None \<Rightarrow> None
      | Some scan_info \<Rightarrow> Some (ProtoIcebergMultiFileList L scan_info []))"

datatype column_mapping_mode = BY_NAME | BY_FIELD_ID

record 'b reader_bind_data =
  bd_schema :: "column_definition list"
  bd_mapping :: column_mapping_mode
  bd_rest :: 'b

text \<open>\<open>Bind\<close> appends to the return types and names it is given.\<close>

definition Bind ::
  "('tbl, 'l) file_list \<Rightarrow> logical_type list \<Rightarrow> string list \<Rightarrow> 'b reader_bind_data \<Rightarrow>
   (bool \<times> logical_type list \<times> string list \<times> 'b reader_bind_data) throws" where
  "Bind fl return_types names bind_data =
     (case BuildColumnList (GetScanSchema fl) of
        Inl e \<Rightarrow> Inl e
      | Inr schema \<Rightarrow>
          (let bind_data = bind_data\<lparr>bd_schema := schema\<rparr>;
             (names, return_types) =
               foldl (\<lambda>(names, return_types) col. (names @ [column_name col], return_types @ [column_type col]))
                 (names, return_types) (bd_schema bind_data)
           in Inr (True, return_types, names, bind_data\<lparr>bd_mapping := BY_FIELD_ID\<rparr>)))"

record 'o multi_file_options =
  auto_detect_hive_partitioning :: bool
  hive_partitioning :: bool
  union_by_name :: bool
  mfo_rest :: 'o

definition BindOptions :: "('o multi_file_options \<Rightarrow> 'r) \<Rightarrow> 'o multi_file_options \<Rightarrow> 'r" where
  "BindOptions B options =
     B (options\<lparr>auto_detect_hive_partitioning := False, hive_partitioning := False, union_by_name := False\<rparr>)"

section \<open>What is bound\<close>

lemma Bind_fold:
  "foldl (\<lambda>(names, return_types) col. (names @ [column_name col], return_types @ [column_type col]))
     (names, return_types) cols = (names @ map column_name cols, return_types @ map column_type cols)"
  by (induction cols arbitrary: names return_types) auto

lemma Bind_eq:
  "Bind fl return_types names bind_data =
     (case BuildColumnList (GetScanSchema fl) of
        Inl e \<Rightarrow> Inl e
      | Inr cols \<Rightarrow> Inr (True, return_types @ map column_type cols, names @ map column_name cols,
          bind_data\<lparr>bd_schema := cols, bd_mapping := BY_FIELD_ID\<rparr>))"
  by (simp add: Bind_def Bind_fold split: sum.split)

text \<open>
  C37. Binding a scan: the columns are those of the schema the scan reads with, one per top-level field
  and in order, with the fields' names and mapped types appended to what DuckDB has; each is coherent
  with DuckDB's nested types at every level, and the identifiers by which a data file's columns are
  found are the schema's field IDs, nested ones included, so that renames do not matter.
\<close>

theorem Bind_columns:
  assumes "Bind fl return_types names bind_data = Inr (b, return_types', names', bind_data')"
  shows "b \<and> names' = names @ map field_name (GetScanSchema fl) \<and>
    map Inr return_types' =
      map Inr return_types @ map (MapIcebergType \<circ> field_type) (GetScanSchema fl) \<and>
    (\<forall>col \<in> set (bd_schema bind_data'). column_coherent col) \<and>
    bd_mapping bind_data' = BY_FIELD_ID \<and>
    concat (map column_ids (bd_schema bind_data')) = concat (map field_ids (GetScanSchema fl))"
proof -
  obtain cols where cols: "BuildColumnList (GetScanSchema fl) = Inr cols"
    and eq: "b" "return_types' = return_types @ map column_type cols" "names' = names @ map column_name cols"
      "bind_data' = bind_data\<lparr>bd_schema := cols, bd_mapping := BY_FIELD_ID\<rparr>"
    using assms by (auto simp: Bind_eq split: sum.splits)
  from BuildColumnList_columns [OF cols] show ?thesis
    by (simp add: eq comp_def)
qed

lemma mirrored_schema_binds:
  assumes "columns_mirror columns (GetScanSchema fl)"
  shows "\<exists>bind_data'. Bind fl return_types names bind_data =
    Inr (True, return_types @ map col_type columns, names @ map col_name columns, bind_data')"
proof (cases "BuildColumnList (GetScanSchema fl)")
  case (Inl e)
  then obtain f where f: "f \<in> set (GetScanSchema fl)" and "BuildColumnDefinition f = Inl e"
    unfolding BuildColumnList_def using traverse_Inl_in_set by metis
  then have throws: "MapIcebergType (field_type f) = Inl e" by (simp add: BuildColumnDefinition_throws)
  have "(MapIcebergType \<circ> field_type) f \<in> set (map (Inr \<circ> col_type) columns)"
    using f assms by (simp add: columns_mirror_def del: set_map) (simp add: image_def, blast)
  with throws show ?thesis by auto
next
  case (Inr cols)
  have "map Inr (map column_type cols) = (map Inr (map col_type columns) :: logical_type throws list)"
    using BuildColumnList_columns [OF Inr] assms by (simp add: columns_mirror_def comp_def)
  then have "map column_type cols = map col_type columns"
    by (rule map_injective) (simp add: inj_def)
  moreover have "map column_name cols = map col_name columns"
    using BuildColumnList_columns [OF Inr] assms by (simp add: columns_mirror_def)
  ultimately show ?thesis by (simp add: Bind_eq Inr)
qed

theorem Bind_columns_witness:
  "\<exists>types bind_data. Bind (ProtoIcebergMultiFileList example_lazy (example_info\<lparr>si_schema :=
        [SchemaField 1 ''id'' kLong [],
         SchemaField 2 ''tags'' (kList (SchemaField 3 ''element'' kString [])) []]\<rparr>) [])
      [] [] \<lparr>bd_schema = [], bd_mapping = BY_NAME, bd_rest = ()\<rparr> =
        Inr (True, types, [''id'', ''tags''], bind_data) \<and>
     types = [BIGINT, LIST VARCHAR] \<and> concat (map column_ids (bd_schema bind_data)) = [1, 2, 3]"
  (is "\<exists>types bind_data. Bind ?fl [] [] ?bd = _ \<and> _")
proof -
  obtain types names bind_data b where bind: "Bind ?fl [] [] ?bd = Inr (b, types, names, bind_data)"
    by (simp add: Bind_eq GetScanSchema_def ProtoIcebergMultiFileList_def BuildColumnList_def
        BuildColumnDefinition.simps AddChildColumns.simps)
  from Bind_columns [OF bind]
  have "b" "names = [''id'', ''tags'']" and ids: "concat (map column_ids (bd_schema bind_data)) = [1, 2, 3]"
    and types: "map Inr types = (map Inr [BIGINT, LIST VARCHAR] :: logical_type throws list)"
    by (simp_all add: GetScanSchema_def ProtoIcebergMultiFileList_def field_ids.simps)
  moreover have "types = [BIGINT, LIST VARCHAR]"
    using types by (rule map_injective) (simp add: inj_def)
  ultimately show ?thesis using bind by auto
qed

end
