(* ===== verification/Transaction.thy ===== *)
theory Transaction
  imports SchemaEntry "HOL-Library.Signed_Division"
begin

text \<open>
  Transactions (src/src/proto_iceberg_transaction.cpp, src/src/include/proto_iceberg_transaction.hpp):
  the start time of a transaction, its schemas behind a lock (\<open>LockedSchemas\<close>), and the transaction
  manager. A schema entry is owned by the map \<open>schemas\<close>; a pointer to it is its key. The lemmas show
  that the start time is the microsecond clock in milliseconds, that schemas are never lost, and that
  every transaction ends exactly once.
\<close>

section \<open>Start time\<close>

text \<open>\<open>duckdb_timestamp.value / 1000\<close> on \<open>int64_t\<close>: division towards zero.\<close>

definition start_timestamp_ms_of :: "64 word \<Rightarrow> 64 word" where
  "start_timestamp_ms_of duckdb_timestamp = word_of_int (sint duckdb_timestamp sdiv 1000)"

lemma sdiv_1000_bounds:
  "(-(2^63) :: int) \<le> i \<Longrightarrow> i < 2^63 \<Longrightarrow> -(2^63) \<le> i sdiv 1000 \<and> i sdiv 1000 < 2^63"
  by (auto simp: signed_divide_int_def sgn_if)

lemma sint_start_timestamp_ms: "sint (start_timestamp_ms_of ts) = sint ts sdiv 1000"
proof -
  have "-(2^63) \<le> sint ts" "sint ts < 2^63"
    using sint_ge [of ts] sint_lt [of ts] by simp_all
  from sdiv_1000_bounds [OF this] show ?thesis
    unfolding start_timestamp_ms_of_def sint_sbintrunc' by (intro signed_take_bit_int_eq_self) simp_all
qed

text \<open>
  The transaction's start time in milliseconds is its start time in microseconds without the
  part below a millisecond: the division does not overflow, loses less than a millisecond and, for
  a time since the epoch, never lies after the start.
\<close>

lemma start_timestamp_ms_truncates:
  "\<bar>sint ts - 1000 * sint (start_timestamp_ms_of ts)\<bar> < 1000 \<and>
   (if 0 \<le> sint ts then 1000 * sint (start_timestamp_ms_of ts) \<le> sint ts
    else sint ts \<le> 1000 * sint (start_timestamp_ms_of ts))"
  unfolding sint_start_timestamp_ms signed_divide_int_def by (auto simp: sgn_if abs_if)

section \<open>The schemas of a transaction\<close>

record 'tbl schema_state =
  schemas :: "(string, 'tbl schema_entry) omap"
  schemas_listed :: bool

record 'tbl transaction =
  start_timestamp_ms :: "64 word"
  schema_state :: "'tbl schema_state"

definition ProtoIcebergTransaction :: "64 word \<Rightarrow> 'tbl transaction" where
  "ProtoIcebergTransaction duckdb_timestamp =
     \<lparr>start_timestamp_ms = start_timestamp_ms_of duckdb_timestamp,
      schema_state = \<lparr>schemas = [], schemas_listed = False\<rparr>\<rparr>"

definition SchemasLookup :: "'tbl schema_state \<Rightarrow> string \<Rightarrow> 'tbl schema_entry option" where
  "SchemasLookup st name = om_find (schemas st) name"

definition SchemasStore :: "string \<Rightarrow> 'tbl schema_entry \<Rightarrow> 'tbl schema_state \<Rightarrow> 'tbl schema_state" where
  "SchemasStore name entry st = st\<lparr>schemas := om_put name entry (schemas st)\<rparr>"

definition SchemasListed :: "'tbl schema_state \<Rightarrow> bool" where
  "SchemasListed st = schemas_listed st"

definition CompleteListing :: "string set \<Rightarrow> 'tbl schema_state \<Rightarrow> 'tbl schema_state" where
  "CompleteListing listed_names st =
     st\<lparr>schemas := map (\<lambda>(name, entry).
            (name, if se_name entry \<notin> listed_names then MarkNamespaceMissing entry else entry))
          (schemas st),
        schemas_listed := True\<rparr>"

text \<open>\<open>ForEach\<close>: the callback gets the pointer to the entry, its key.\<close>

fun SchemasForEach ::
  "(string \<Rightarrow> 's \<Rightarrow> exception + 's) \<Rightarrow> (string, 'tbl schema_entry) omap \<Rightarrow> 's \<Rightarrow> exception + 's" where
  "SchemasForEach fn [] s = Inr s"
| "SchemasForEach fn ((name, entry) # rest) s =
     (if \<not> IsNamespaceMissing entry
      then (case fn name s of Inl e \<Rightarrow> Inl e | Inr s' \<Rightarrow> SchemasForEach fn rest s')
      else SchemasForEach fn rest s)"

text \<open>The schemas \<open>ForEach\<close> visits, in order.\<close>

definition schemas_visited :: "'tbl schema_state \<Rightarrow> string list" where
  "schemas_visited st = map fst (filter (\<lambda>(name, entry). \<not> IsNamespaceMissing entry) (schemas st))"

lemma SchemasForEach_foldl:
  "SchemasForEach fn m s =
   foldl (\<lambda>r name. case r of Inl e \<Rightarrow> Inl e | Inr s \<Rightarrow> fn name s) (Inr s)
     (map fst (filter (\<lambda>(name, entry). \<not> IsNamespaceMissing entry) m))"
  by (induction fn m s rule: SchemasForEach.induct) (auto simp: foldl_stopped split: sum.split)

section \<open>Invariant of the schemas\<close>

definition schemas_ok :: "'tbl schema_state \<Rightarrow> bool" where
  "schemas_ok st \<longleftrightarrow>
     om_ok (schemas st) \<and>
     (\<forall>name entry. SchemasLookup st name = Some entry \<longrightarrow>
        se_name entry = name \<and> registry_ok (tables entry))"

text \<open>
  \<open>schemas_later\<close>: the schemas some operations later: none is lost or replaced, each has only moved on
  as a schema entry does, and a completed listing stays completed.
\<close>

definition schemas_later :: "'tbl schema_state \<Rightarrow> 'tbl schema_state \<Rightarrow> bool" where
  "schemas_later st st' \<longleftrightarrow>
     schemas_ok st' \<and> (schemas_listed st \<longrightarrow> schemas_listed st') \<and>
     (\<forall>name entry. SchemasLookup st name = Some entry \<longrightarrow>
        (\<exists>entry'. SchemasLookup st' name = Some entry' \<and> later entry entry'))"

lemma schemas_okD:
  "schemas_ok st \<Longrightarrow> SchemasLookup st name = Some entry \<Longrightarrow>
   se_name entry = name \<and> registry_ok (tables entry)"
  by (simp add: schemas_ok_def)

lemma schemas_later_refl: "schemas_ok st \<Longrightarrow> schemas_later st st"
  by (auto simp: schemas_later_def schemas_ok_def intro: later_refl)

lemma schemas_later_trans: "schemas_later a b \<Longrightarrow> schemas_later b c \<Longrightarrow> schemas_later a c"
  unfolding schemas_later_def using later_trans by blast

lemma schemas_laterD:
  "schemas_later st st' \<Longrightarrow> SchemasLookup st n = Some e \<Longrightarrow> SchemasLookup st' n = Some e' \<Longrightarrow>
   later e e'"
  unfolding schemas_later_def by fastforce

lemma schemas_later_find:
  "schemas_later st st' \<Longrightarrow> SchemasLookup st n = Some e \<Longrightarrow>
   \<exists>e'. SchemasLookup st' n = Some e' \<and> later e e'"
  unfolding schemas_later_def by blast

lemma SchemasLookup_Store [simp]:
  "SchemasLookup (SchemasStore name entry st) n =
   (if n = name then Some entry else SchemasLookup st n)"
  by (simp add: SchemasLookup_def SchemasStore_def omap_simps)

lemma SchemasStore_listed [simp]: "schemas_listed (SchemasStore name entry st) = schemas_listed st"
  by (simp add: SchemasStore_def)

lemma schemas_ok_Store:
  "schemas_ok st \<Longrightarrow> se_name entry = name \<Longrightarrow> registry_ok (tables entry) \<Longrightarrow>
   schemas_ok (SchemasStore name entry st)"
  by (simp add: schemas_ok_def) (simp add: SchemasStore_def)

lemma schemas_later_Store_new:
  assumes "schemas_ok st" and "SchemasLookup st name = None" and "se_name entry = name"
    and "registry_ok (tables entry)"
  shows "schemas_later st (SchemasStore name entry st)"
  using assms schemas_okD [OF assms(1)]
  by (auto simp: schemas_later_def schemas_ok_Store intro: later_refl)

lemma schemas_later_Store_later:
  assumes "schemas_ok st" and "SchemasLookup st name = Some entry" and "later entry entry'"
  shows "schemas_later st (SchemasStore name entry' st)"
proof -
  have "se_name entry' = name" and "registry_ok (tables entry')"
    using schemas_okD [OF assms(1,2)] assms(3) by (simp_all add: later_def)
  then show ?thesis
    using assms schemas_okD [OF assms(1)]
    by (auto simp: schemas_later_def schemas_ok_Store intro: later_refl)
qed

lemma om_find_map: "om_find (map (\<lambda>(k, v). (k, f v)) m) k = map_option f (om_find m k)"
  by (induction m) (auto simp: omap_simps)

lemma om_ok_map: "om_ok (map (\<lambda>(k, v). (k, f v)) m) = om_ok m"
  by (simp add: om_ok_def comp_def case_prod_unfold)

lemma SchemasLookup_CompleteListing:
  "SchemasLookup (CompleteListing names st) name =
   map_option (\<lambda>entry. if se_name entry \<notin> names then MarkNamespaceMissing entry else entry)
     (SchemasLookup st name)"
  by (simp add: SchemasLookup_def CompleteListing_def om_find_map)

lemma schemas_later_CompleteListing:
  assumes "schemas_ok st"
  shows "schemas_later st (CompleteListing names st)"
proof -
  have "later entry (if se_name entry \<notin> names then MarkNamespaceMissing entry else entry)"
    if "SchemasLookup st name = Some entry" for name entry
    using schemas_okD [OF assms that] by (simp add: later_refl later_MarkNamespaceMissing)
  moreover from this have "schemas_ok (CompleteListing names st)"
    using assms
    by (auto simp: schemas_ok_def SchemasLookup_CompleteListing later_def
        MarkNamespaceMissing_def)
      (simp add: CompleteListing_def om_ok_map)
  ultimately show ?thesis
    by (simp add: schemas_later_def SchemasLookup_CompleteListing) (simp add: CompleteListing_def)
qed

lemma set_schemas_visited:
  "schemas_ok st \<Longrightarrow>
   name \<in> set (schemas_visited st) \<longleftrightarrow>
     (\<exists>entry. SchemasLookup st name = Some entry \<and> \<not> namespace_missing entry)"
  by (force simp: schemas_visited_def schemas_ok_def SchemasLookup_def IsNamespaceMissing_def om_find_iff)

lemma schemas_visited_sorted: "schemas_ok st \<Longrightarrow> sorted_wrt (<) (schemas_visited st)"
  unfolding schemas_visited_def schemas_ok_def om_ok_def
  by (metis sorted_wrt_filter sorted_wrt_map)

section \<open>The transaction manager\<close>

text \<open>
  \<open>transactions_\<close> maps the address of each active transaction to it. A new transaction's address is
  given by the allocator. \<open>CommitTransaction\<close> returns its error (\<open>ErrorData\<close>),
  \<open>RollbackTransaction\<close> throws it.
\<close>

type_synonym 'tbl transactions = "nat \<rightharpoonup> 'tbl transaction"

definition StartTransaction :: "nat \<Rightarrow> 64 word \<Rightarrow> 'tbl transactions \<Rightarrow> nat \<times> 'tbl transactions" where
  "StartTransaction address duckdb_timestamp txns =
     (address, txns(address \<mapsto> ProtoIcebergTransaction duckdb_timestamp))"

definition CommitTransaction :: "nat \<Rightarrow> 'tbl transactions \<Rightarrow> exception option \<times> 'tbl transactions" where
  "CommitTransaction address txns =
     (case txns address of
        Some _ \<Rightarrow> (None, txns(address := None))
      | None \<Rightarrow>
          (Some (TransactionException ''Cannot commit a transaction that is not active''), txns))"

definition RollbackTransaction :: "nat \<Rightarrow> 'tbl transactions \<Rightarrow> unit throws \<times> 'tbl transactions" where
  "RollbackTransaction address txns =
     (case txns address of
        Some _ \<Rightarrow> (Inr (), txns(address := None))
      | None \<Rightarrow>
          (Inl (TransactionException ''Cannot rollback a transaction that is not active''), txns))"

text \<open>Calls on the manager, and the use of an active transaction, which changes its state.\<close>

datatype 'tbl txn_call =
    CallStart nat "64 word"
  | CallUse nat "'tbl transaction \<Rightarrow> 'tbl transaction"
  | CallCommit nat
  | CallRollback nat

fun run_call :: "'tbl txn_call \<Rightarrow> 'tbl transactions \<Rightarrow> 'tbl transactions" where
  "run_call (CallStart a ts) txns = snd (StartTransaction a ts txns)"
| "run_call (CallUse a f) txns = txns(a := map_option f (txns a))"
| "run_call (CallCommit a) txns = snd (CommitTransaction a txns)"
| "run_call (CallRollback a) txns = snd (RollbackTransaction a txns)"

definition run_calls :: "'tbl txn_call list \<Rightarrow> 'tbl transactions" where
  "run_calls calls = foldl (\<lambda>txns c. run_call c txns) Map.empty calls"

text \<open>
  What a sequence of calls means for one address, without the other transactions: started fresh,
  changed by its own use, gone once committed or rolled back.
\<close>

fun life_step :: "nat \<Rightarrow> 'tbl transaction option \<Rightarrow> 'tbl txn_call \<Rightarrow> 'tbl transaction option" where
  "life_step a t (CallStart b ts) = (if a = b then Some (ProtoIcebergTransaction ts) else t)"
| "life_step a t (CallUse b f) = (if a = b then map_option f t else t)"
| "life_step a t (CallCommit b) = (if a = b then None else t)"
| "life_step a t (CallRollback b) = (if a = b then None else t)"

definition life :: "nat \<Rightarrow> 'tbl txn_call list \<Rightarrow> 'tbl transaction option" where
  "life a calls = foldl (life_step a) None calls"

lemma run_call_life: "run_call c txns a = life_step a (txns a) c"
  by (cases c) (auto simp: StartTransaction_def CommitTransaction_def RollbackTransaction_def
      split: option.split)

lemma run_calls_life: "run_calls calls a = life a calls"
proof -
  have "foldl (\<lambda>txns c. run_call c txns) txns calls a = foldl (life_step a) (txns a) calls" for txns
    by (induction calls arbitrary: txns) (simp_all add: run_call_life)
  then show ?thesis by (simp add: run_calls_def life_def)
qed

text \<open>
  Transactions are isolated and end once: after any interleaving of starts, uses, commits and
  rollbacks of any number of transactions, each one's state is what its own calls made of it; a
  commit or rollback succeeds exactly on an active transaction, which it ends, and otherwise reports
  the error and changes nothing.
\<close>

lemma transactions_isolated:
  "run_calls calls a = life a calls \<and>
   CommitTransaction a (run_calls calls) =
     (case life a calls of
        Some t \<Rightarrow> (None, (run_calls calls)(a := None))
      | None \<Rightarrow> (Some (TransactionException ''Cannot commit a transaction that is not active''),
                 run_calls calls)) \<and>
   RollbackTransaction a (run_calls calls) =
     (case life a calls of
        Some t \<Rightarrow> (Inr (), (run_calls calls)(a := None))
      | None \<Rightarrow> (Inl (TransactionException ''Cannot rollback a transaction that is not active''),
                 run_calls calls)) \<and>
   life a (calls @ [CallCommit a]) = None \<and> life a (calls @ [CallRollback a]) = None"
  by (simp add: run_calls_life CommitTransaction_def RollbackTransaction_def life_def
      split: option.split)

end
