(* ===== verification/Catalog.thy ===== *)
theory Catalog
  imports Transaction
begin

text \<open>
  The catalog (src/src/proto_iceberg_catalog.cpp, src/src/include/proto_iceberg_catalog.hpp): listing
  the root's namespaces once per transaction, looking up a schema without asking the service, and
  the operations a read-only catalog refuses. The lemmas show what a listing and a lookup find, that
  they agree with each other, and that no schema a transaction has seen is lost.

  Parameters: iceberg-cpp's catalog \<open>C\<close> and DuckDB's name of its default schema, \<open>DEFAULT_SCHEMA\<close>.
\<close>

section \<open>The catalog\<close>

record catalog =
  catalog_uri :: string
  default_schema :: string

definition MakeSchemaEntry :: "string \<Rightarrow> 'tbl schema_entry" where
  "MakeSchemaEntry name = ProtoIcebergSchemaEntry name"

text \<open>The loop over the listed namespaces, with the set \<open>listed_names\<close>.\<close>

fun StoreNamespaces ::
  "iceberg_namespace list \<Rightarrow> string set \<Rightarrow> 'tbl schema_state \<Rightarrow> 'w env \<Rightarrow>
   string set \<times> 'tbl schema_state \<times> 'w env" where
  "StoreNamespaces [] listed_names st env = (listed_names, st, env)"
| "StoreNamespaces (child # namespaces) listed_names st env =
     (if length (levels child) \<noteq> 1
      then StoreNamespaces namespaces listed_names st (write_log (LogSkippedNamespace (levels child)) env)
      else (let schema_name = levels child ! 0
            in StoreNamespaces namespaces (insert schema_name listed_names)
                 (if SchemasLookup st schema_name = None
                  then SchemasStore schema_name (MakeSchemaEntry schema_name) st else st)
                 env))"

definition ListSchemasOnce ::
  "('w, 'tbl) iceberg_catalog \<Rightarrow> 'tbl schema_state \<Rightarrow> 'w env \<Rightarrow>
   unit throws \<times> 'tbl schema_state \<times> 'w env" where
  "ListSchemasOnce C st env =
     (if SchemasListed st then (Inr (), st, env)
      else (let env = write_log LogListNamespaces env;
              (result, env) = call_service (ListNamespaces C \<lparr>levels = []\<rparr>) env
            in case UnwrapOrThrow IOException result ''Failed to list namespaces'' of
                 Inl e \<Rightarrow> (Inl e, st, env)
               | Inr namespaces \<Rightarrow>
                   (case StoreNamespaces namespaces {} st env of
                      (listed_names, st, env) \<Rightarrow> (Inr (), CompleteListing listed_names st, env))))"

definition ScanSchemas ::
  "('w, 'tbl) iceberg_catalog \<Rightarrow> (string \<Rightarrow> 's \<Rightarrow> exception + 's) \<Rightarrow> 's \<Rightarrow>
   'tbl schema_state \<Rightarrow> 'w env \<Rightarrow> 's throws \<times> 'tbl schema_state \<times> 'w env" where
  "ScanSchemas C callback s st env =
     (case ListSchemasOnce C st env of
        (Inl e, st, env) \<Rightarrow> (Inl e, st, env)
      | (Inr _, st, env) \<Rightarrow> (SchemasForEach callback (schemas st) s, st, env))"

datatype on_entry_not_found = THROW_EXCEPTION | RETURN_NULL

function LookupSchema ::
  "string \<Rightarrow> catalog \<Rightarrow> string \<Rightarrow> on_entry_not_found \<Rightarrow> 'tbl schema_state \<Rightarrow>
   string option throws \<times> 'tbl schema_state" where
  "LookupSchema DEFAULT_SCHEMA cat schema_name if_not_found st =
     (if schema_name = DEFAULT_SCHEMA \<and> default_schema cat \<noteq> DEFAULT_SCHEMA
      then LookupSchema DEFAULT_SCHEMA cat (default_schema cat) if_not_found st
      else
        (let not_found =
           ((if if_not_found = RETURN_NULL then Inr None
             else Inl (CatalogException (''Schema '' @ CHR 0x27 # schema_name @ CHR 0x27 # '' does not exist''))),
            st)
         in case SchemasLookup st schema_name of
              Some schema \<Rightarrow>
                (if \<not> IsNamespaceMissing schema then (Inr (Some schema_name), st) else not_found)
            | None \<Rightarrow>
                (if \<not> SchemasListed st
                 then (Inr (Some schema_name), SchemasStore schema_name (MakeSchemaEntry schema_name) st)
                 else not_found)))"
  by pat_completeness auto
termination
  by (relation "measure (\<lambda>(D, cat, name, _, _).
        if name = D \<and> default_schema cat \<noteq> D then 1 else 0)") auto

declare LookupSchema.simps [simp del]

section \<open>What a read-only catalog refuses\<close>

datatype catalog_ddl = CREATE_SCHEMA | DROP_SCHEMA

fun CatalogDDL :: "catalog_ddl \<Rightarrow> 'a throws" where
  "CatalogDDL CREATE_SCHEMA =
     Inl (NotImplementedException ''CREATE SCHEMA is not supported in a read-only Iceberg catalog'')"
| "CatalogDDL DROP_SCHEMA =
     Inl (NotImplementedException ''DROP SCHEMA is not supported in a read-only Iceberg catalog'')"

datatype plan_operation =
  PlanCreateTableAs | PlanInsert | PlanDelete | PlanUpdate | BindCreateIndex

fun PlanWrite :: "plan_operation \<Rightarrow> 'a throws" where
  "PlanWrite PlanCreateTableAs =
     Inl (NotImplementedException ''CREATE TABLE AS is not supported in a read-only Iceberg catalog'')"
| "PlanWrite PlanInsert =
     Inl (NotImplementedException ''INSERT is not supported in a read-only Iceberg catalog'')"
| "PlanWrite PlanDelete =
     Inl (NotImplementedException ''DELETE is not supported in a read-only Iceberg catalog'')"
| "PlanWrite PlanUpdate =
     Inl (NotImplementedException ''UPDATE is not supported in a read-only Iceberg catalog'')"
| "PlanWrite BindCreateIndex =
     Inl (NotImplementedException ''CREATE INDEX is not supported in a read-only Iceberg catalog'')"

datatype lookup_behavior = STANDARD_LOOKUP | NEVER_LOOKUP

fun CatalogTypeLookupRule :: "catalog_type \<Rightarrow> lookup_behavior" where
  "CatalogTypeLookupRule TABLE_ENTRY = STANDARD_LOOKUP"
| "CatalogTypeLookupRule _ = NEVER_LOOKUP"

section \<open>What the catalog says of itself\<close>

definition ProtoIcebergCatalog :: "string \<Rightarrow> string \<Rightarrow> catalog" where
  "ProtoIcebergCatalog uri schema = \<lparr>catalog_uri = uri, default_schema = schema\<rparr>"

definition GetDefaultSchema :: "catalog \<Rightarrow> string" where
  "GetDefaultSchema cat = default_schema cat"

definition GetDBPath :: "catalog \<Rightarrow> string" where
  "GetDBPath cat = catalog_uri cat"

definition GetCatalogType :: string where
  "GetCatalogType = ''iceberg''"

definition HasConflictingAttachOptions :: bool where
  "HasConflictingAttachOptions = True"

definition CheckAmbiguousCatalogOrSchema :: bool where
  "CheckAmbiguousCatalogOrSchema = False"

definition InMemory :: bool where
  "InMemory = False"

section \<open>Listing\<close>

text \<open>The single-level names among the namespaces listed.\<close>

definition single_level :: "iceberg_namespace list \<Rightarrow> string set" where
  "single_level namespaces = {levels child ! 0 |child. child \<in> set namespaces \<and> length (levels child) = 1}"

lemma StoreNamespaces_spec:
  assumes "StoreNamespaces namespaces names st env = (names', st', env')" and "schemas_ok st"
  shows "names' = names \<union> single_level namespaces \<and> schemas_later st st' \<and>
    schemas_listed st' = schemas_listed st \<and>
    (\<forall>n. SchemasLookup st' n =
       (if SchemasLookup st n = None \<and> n \<in> single_level namespaces
        then Some (MakeSchemaEntry n) else SchemasLookup st n))"
  using assms
proof (induction namespaces names st env rule: StoreNamespaces.induct)
  case (1 names st env)
  then show ?case by (auto simp: single_level_def schemas_later_refl)
next
  case (2 child namespaces names st env)
  show ?case
  proof (cases "length (levels child) = 1")
    case False
    have "single_level (child # namespaces) = single_level namespaces"
      using False by (auto simp: single_level_def)
    then show ?thesis using 2 False by simp
  next
    case True
    let ?n = "levels child ! 0"
    let ?st = "if SchemasLookup st ?n = None then SchemasStore ?n (MakeSchemaEntry ?n) st else st"
    have single: "single_level (child # namespaces) = insert ?n (single_level namespaces)"
      using True by (auto simp: single_level_def)
    have later: "schemas_later st ?st"
      using "2.prems"(2)
      by (auto intro: schemas_later_refl schemas_later_Store_new
          simp: MakeSchemaEntry_def ProtoIcebergSchemaEntry_def)
    then have "schemas_ok ?st" by (simp add: schemas_later_def)
    with "2.IH"(2) [OF _ refl] "2.prems"(1) True
    have IH: "names' = insert ?n names \<union> single_level namespaces" "schemas_later ?st st'"
      "schemas_listed st' = schemas_listed ?st"
      "\<forall>n. SchemasLookup st' n =
         (if SchemasLookup ?st n = None \<and> n \<in> single_level namespaces
          then Some (MakeSchemaEntry n) else SchemasLookup ?st n)"
      by (simp_all add: Let_def)
    show ?thesis
      using IH(1,3,4) schemas_later_trans [OF later IH(2)]
      by (cases "SchemasLookup st ?n = None") (auto simp: single)
  qed
qed

lemma ListSchemasOnce_cases [consumes 2, case_names known failed listed]:
  assumes "ListSchemasOnce C st env = (r, st', env')" and "schemas_ok st"
  obtains "schemas_listed st" "r = Inr ()" "st' = st" "env' = env"
  | e where "\<not> schemas_listed st" "r = Inl e" "st' = st"
  | namespaces where "\<not> schemas_listed st" "r = Inr ()" "schemas_listed st'" "schemas_later st st'"
      "fst (ListNamespaces C \<lparr>levels = []\<rparr> (world env)) = Inr namespaces"
      "\<And>n. SchemasLookup st' n =
        (if n \<in> single_level namespaces
         then (case SchemasLookup st n of None \<Rightarrow> Some (MakeSchemaEntry n) | Some e \<Rightarrow> Some e)
         else map_option MarkNamespaceMissing (SchemasLookup st n))"
proof (cases "schemas_listed st")
  case True
  with assms show ?thesis by (intro that(1)) (simp_all add: ListSchemasOnce_def SchemasListed_def)
next
  case False
  obtain result w where call: "ListNamespaces C \<lparr>levels = []\<rparr> (world env) = (result, w)"
    by fastforce
  note unfolded = assms(1) [unfolded ListSchemasOnce_def SchemasListed_def Let_def call_service_def
      env_simps call prod.case]
  show ?thesis
  proof (cases result)
    case (Inl err)
    from unfolded False Inl show ?thesis by (intro that(2)) auto
  next
    case (Inr namespaces)
    let ?env = "(write_log LogListNamespaces env)\<lparr>world := w\<rparr>"
    obtain names st1 env1 where store: "StoreNamespaces namespaces {} st ?env = (names, st1, env1)"
      using prod_cases3 by blast
    from StoreNamespaces_spec [OF store assms(2)] have names: "names = single_level namespaces"
      and later1: "schemas_later st st1"
      and lookup1: "\<And>n. SchemasLookup st1 n =
         (if SchemasLookup st n = None \<and> n \<in> single_level namespaces
          then Some (MakeSchemaEntry n) else SchemasLookup st n)"
      by simp_all
    from unfolded False Inr store have r: "r = Inr ()" and st': "st' = CompleteListing names st1"
      by auto
    have ok1: "schemas_ok st1" using later1 by (simp add: schemas_later_def)
    show ?thesis
    proof (rule that(3) [OF False r])
      show "schemas_listed st'" by (simp add: st' CompleteListing_def)
      show "schemas_later st st'"
        using schemas_later_trans [OF later1 schemas_later_CompleteListing [OF ok1]] by (simp add: st')
      show "fst (ListNamespaces C \<lparr>levels = []\<rparr> (world env)) = Inr namespaces"
        by (simp add: call Inr)
      show "SchemasLookup st' n =
        (if n \<in> single_level namespaces
         then (case SchemasLookup st n of None \<Rightarrow> Some (MakeSchemaEntry n) | Some e \<Rightarrow> Some e)
         else map_option MarkNamespaceMissing (SchemasLookup st n))" for n
        using schemas_okD [OF assms(2), of n]
        by (auto simp: st' SchemasLookup_CompleteListing lookup1 names MakeSchemaEntry_def
            ProtoIcebergSchemaEntry_def split: option.split)
    qed
  qed
qed

lemma ScanSchemas_state: "snd (ScanSchemas C callback s st env) = snd (ListSchemasOnce C st env)"
  by (auto simp: ScanSchemas_def split: prod.split sum.split)

lemma ScanSchemas_later:
  assumes "ScanSchemas C callback s st env = (r, st', env')" and "schemas_ok st"
  shows "schemas_later st st' \<and>
    (schemas_listed st \<longrightarrow> st' = st \<and> env' = env) \<and> ((\<exists>x. r = Inr x) \<longrightarrow> schemas_listed st')"
proof -
  obtain l st1 env1 where list: "ListSchemasOnce C st env = (l, st1, env1)" using prod_cases3 by blast
  then have "st' = st1" "env' = env1"
    using assms(1) ScanSchemas_state [of C callback s st env] by simp_all
  moreover have "l = Inr ()" if "r = Inr x" for x
    using assms(1) list that by (cases l) (auto simp: ScanSchemas_def)
  moreover from list assms(2) have "schemas_later st st1 \<and>
      (schemas_listed st \<longrightarrow> st1 = st \<and> env1 = env) \<and> (l = Inr () \<longrightarrow> schemas_listed st1)"
    by (cases rule: ListSchemasOnce_cases) (auto intro: schemas_later_refl [OF assms(2)])
  ultimately show ?thesis by auto
qed

section \<open>Lookup\<close>

text \<open>The name a lookup is about, once DuckDB's default schema is redirected.\<close>

definition resolved :: "string \<Rightarrow> catalog \<Rightarrow> string \<Rightarrow> string" where
  "resolved DEFAULT_SCHEMA cat name = (if name = DEFAULT_SCHEMA then default_schema cat else name)"

text \<open>Whether the transaction takes a schema to exist: not known to be missing, or not yet listed.\<close>

definition presumed :: "'tbl schema_state \<Rightarrow> string \<Rightarrow> bool" where
  "presumed st n =
     (case SchemasLookup st n of
        Some entry \<Rightarrow> \<not> namespace_missing entry
      | None \<Rightarrow> \<not> schemas_listed st)"

lemma LookupSchema_resolved:
  "LookupSchema D cat name if_not_found st =
   (let n = resolved D cat name
    in if presumed st n
       then (Inr (Some n),
             if SchemasLookup st n = None then SchemasStore n (MakeSchemaEntry n) st else st)
       else if if_not_found = RETURN_NULL then (Inr None, st)
       else (Inl (CatalogException (''Schema '' @ CHR 0x27 # n @ CHR 0x27 # '' does not exist'')), st))"
proof -
  have direct: "LookupSchema D cat n if_not_found st =
      (if presumed st n
       then (Inr (Some n),
             if SchemasLookup st n = None then SchemasStore n (MakeSchemaEntry n) st else st)
       else if if_not_found = RETURN_NULL then (Inr None, st)
       else (Inl (CatalogException (''Schema '' @ CHR 0x27 # n @ CHR 0x27 # '' does not exist'')), st))"
    if "n \<noteq> D \<or> default_schema cat = D" for n
    using that
    by (subst LookupSchema.simps)
      (auto simp: Let_def presumed_def IsNamespaceMissing_def SchemasListed_def split: option.split)
  have "LookupSchema D cat name if_not_found st = LookupSchema D cat (resolved D cat name) if_not_found st"
    by (cases "name = D \<and> default_schema cat \<noteq> D")
      (subst LookupSchema.simps, auto simp: resolved_def)
  then show ?thesis
    using direct [of "resolved D cat name"] by (auto simp: resolved_def Let_def)
qed

lemma LookupSchema_later:
  assumes "LookupSchema D cat name if_not_found st = (r, st')" and "schemas_ok st"
  shows "schemas_later st st' \<and> (schemas_listed st \<longrightarrow> st' = st)"
  using assms
  by (auto simp: LookupSchema_resolved Let_def MakeSchemaEntry_def ProtoIcebergSchemaEntry_def
      presumed_def intro: schemas_later_refl schemas_later_Store_new split: if_splits option.splits)

section \<open>A transaction on the catalog\<close>

text \<open>
  The steps of a transaction: a schema lookup, a scan of the schemas, and a step of one of its schema
  entries, reached through the pointer the transaction keeps.
\<close>

inductive catalog_step ::
  "('w, 'tbl) iceberg_catalog \<Rightarrow> 'tbl iceberg_table \<Rightarrow> add_column \<Rightarrow> 64 word \<Rightarrow> string \<Rightarrow> catalog \<Rightarrow>
   'tbl schema_state \<times> 'w env \<Rightarrow> 'tbl schema_state \<times> 'w env \<Rightarrow> bool"
  for C T A start D cat
  where
    cstep_lookup: "LookupSchema D cat name if_not_found st = (r, st') \<Longrightarrow>
      catalog_step C T A start D cat (st, env) (st', env)"
  | cstep_scan: "ScanSchemas C (callback :: string \<Rightarrow> unit \<Rightarrow> exception + unit) () st env = (r, st', env') \<Longrightarrow>
      catalog_step C T A start D cat (st, env) (st', env')"
  | cstep_schema: "SchemasLookup st n = Some se \<Longrightarrow> schema_step C T A start (se, env) (se', env') \<Longrightarrow>
      catalog_step C T A start D cat (st, env) (SchemasStore n se' st, env')"

inductive catalog_steps ::
  "('w, 'tbl) iceberg_catalog \<Rightarrow> 'tbl iceberg_table \<Rightarrow> add_column \<Rightarrow> 64 word \<Rightarrow> string \<Rightarrow> catalog \<Rightarrow>
   'tbl schema_state \<times> 'w env \<Rightarrow> 'tbl schema_state \<times> 'w env \<Rightarrow> bool"
  for C T A start D cat
  where
    csteps_refl [simp, intro]: "catalog_steps C T A start D cat x x"
  | csteps_step: "catalog_steps C T A start D cat x y \<Longrightarrow> catalog_step C T A start D cat y z \<Longrightarrow>
      catalog_steps C T A start D cat x z"

lemma catalog_step_later:
  assumes "catalog_step C T A start D cat x y" and "schemas_ok (fst x)"
  shows "schemas_later (fst x) (fst y) \<and>
    (schemas_listed (fst x) \<longrightarrow> (\<forall>n. SchemasLookup (fst y) n = None \<longleftrightarrow> SchemasLookup (fst x) n = None))"
  using assms(1)
proof (cases rule: catalog_step.cases)
  case (cstep_lookup name if_not_found st r st' env)
  then show ?thesis using LookupSchema_later [OF cstep_lookup(3)] assms(2) by simp
next
  case (cstep_scan callback st env r st' env')
  then show ?thesis using ScanSchemas_later [OF cstep_scan(3)] assms(2) by auto
next
  case (cstep_schema st n se env se' env')
  then have "later se se'"
    using schema_step_later [OF cstep_schema(4)] schemas_okD [of st n se] assms(2) by simp
  then show ?thesis
    using schemas_later_Store_later [of st n se se'] cstep_schema assms(2) by simp
qed

lemma catalog_steps_later:
  assumes "catalog_steps C T A start D cat x y" and "schemas_ok (fst x)"
  shows "schemas_later (fst x) (fst y) \<and>
    (schemas_listed (fst x) \<longrightarrow> (\<forall>n. SchemasLookup (fst y) n = None \<longleftrightarrow> SchemasLookup (fst x) n = None))"
  using assms
proof (induction rule: catalog_steps.induct)
  case (csteps_refl x)
  then show ?case by (simp add: schemas_later_refl)
next
  case (csteps_step x y z)
  then have "schemas_later (fst x) (fst y)" and "schemas_ok (fst y)"
    by (simp_all add: schemas_later_def)
  then show ?case
    using csteps_step catalog_step_later [OF csteps_step.hyps(2)] schemas_later_trans
    by (metis schemas_later_def)
qed

lemma presumed_listed:
  "schemas_ok st \<Longrightarrow> schemas_listed st \<Longrightarrow> presumed st n \<longleftrightarrow> n \<in> set (schemas_visited st)"
  by (auto simp: presumed_def set_schemas_visited split: option.splits)

section \<open>The tables of all schemas as repeatable answers\<close>

text \<open>
  Looking a table up through the entry of its schema, which stays in the transaction's schemas.
\<close>

definition lookup_table ::
  "('w, 'tbl) iceberg_catalog \<Rightarrow> 'tbl iceberg_table \<Rightarrow> add_column \<Rightarrow> 64 word \<Rightarrow> string \<times> string \<Rightarrow>
   'tbl schema_state \<times> 'w env \<Rightarrow> (unit + nat option) \<times> 'tbl schema_state \<times> 'w env" where
  "lookup_table C T A start = (\<lambda>(n, t) (st, env).
     case SchemasLookup st n of
       None \<Rightarrow> (Inl (), st, env)
     | Some se \<Rightarrow>
         (case LookupEntry C T A start TABLE_ENTRY t se env of
            (r, se, env) \<Rightarrow> (map_sum (\<lambda>_. ()) id r, SchemasStore n se st, env)))"

definition table_settled :: "'tbl schema_state \<Rightarrow> string \<times> string \<Rightarrow> nat option \<Rightarrow> bool" where
  "table_settled st = (\<lambda>(n, t) r. \<exists>se. SchemasLookup st n = Some se \<and> settled se t r)"

lemma catalog_steps_rtranclp: "catalog_steps C T A start D cat x y \<longleftrightarrow> (catalog_step C T A start D cat)\<^sup>*\<^sup>* x y"
proof
  show "catalog_steps C T A start D cat x y \<Longrightarrow> (catalog_step C T A start D cat)\<^sup>*\<^sup>* x y"
    by (induction rule: catalog_steps.induct) auto
  show "(catalog_step C T A start D cat)\<^sup>*\<^sup>* x y \<Longrightarrow> catalog_steps C T A start D cat x y"
    by (induction rule: rtranclp_induct) (auto intro: csteps_step)
qed

lemma SchemasStore_same: "schemas_ok st \<Longrightarrow> SchemasLookup st n = Some se \<Longrightarrow> SchemasStore n se st = st"
  by (simp add: schemas_ok_def SchemasStore_def SchemasLookup_def om_put_idem)

lemma lookup_table_later:
  assumes "lookup_table C T A start (n, t) (st, env) = (Inr r, st', env')" and "schemas_ok st"
  shows "schemas_later st st' \<and> table_settled st' (n, t) r"
proof -
  obtain se where se: "SchemasLookup st n = Some se"
    using assms(1) by (auto simp: lookup_table_def split: option.splits)
  obtain r1 se1 env1 where call: "LookupEntry C T A start TABLE_ENTRY t se env = (r1, se1, env1)"
    using prod_cases3 by blast
  have "r1 = Inr r" and st': "st' = SchemasStore n se1 st"
    using assms(1) by (cases r1; simp add: lookup_table_def se call)+
  moreover have "later se se1" "r1 = Inr r \<Longrightarrow> settled se1 t r"
    using LookupEntry_later [OF call] schemas_okD [OF assms(2) se] by auto
  ultimately show ?thesis
    using schemas_later_Store_later [OF assms(2) se] by (simp add: table_settled_def)
qed

interpretation catalog_reads: repeatable "catalog_step C T A start D cat" "\<lambda>(st, env). schemas_ok st"
  "lookup_table C T A start" "\<lambda>(st, env). table_settled st"
  for C T A start D cat
proof (unfold_locales, goal_cases)
  case (1 s s')
  then show ?case using catalog_step_later [of C T A start D cat s s']
    by (auto simp: schemas_later_def split: prod.splits)
next
  case (2 s s' k r)
  then have "schemas_later (fst s) (fst s')"
    using catalog_step_later [of C T A start D cat s s'] by (auto split: prod.splits)
  then have "table_settled (fst s) k r \<Longrightarrow> table_settled (fst s') k r"
    using schemas_later_find [of "fst s" "fst s'"]
    by (cases k) (fastforce simp: table_settled_def later_def)
  then show ?case using 2(3) by (auto split: prod.splits)
next
  case (3 s k r s')
  then show ?case
    by (cases k; cases s; cases s') (auto simp: schemas_later_def dest!: lookup_table_later)
next
  case (4 s k r s')
  then show ?case
    by (cases k; cases s; cases s') (auto dest!: lookup_table_later)
next
  case (5 s k r)
  then show ?case
    by (cases k; cases s)
       (auto simp: table_settled_def lookup_table_def LookupEntry_settled SchemasStore_same)
qed

section \<open>Properties\<close>

text \<open>
  C34. The first scan of the schemas lists the root: it visits, each once and in name order, the
  single-level namespaces the service listed, except those a table load has shown to be missing; a
  schema that was only presumed and is not listed becomes missing; and no schema entry known before
  is lost or replaced.
\<close>

theorem ScanSchemas_visits:
  assumes "schemas_ok st" and "\<not> schemas_listed st"
    and "fst (ListNamespaces C \<lparr>levels = []\<rparr> (world env)) = Inr namespaces"
    and "ScanSchemas C callback s st env = (r, st', env')"
  shows "r = foldl (\<lambda>r name. case r of Inl e \<Rightarrow> Inl e | Inr s \<Rightarrow> callback name s) (Inr s)
               (schemas_visited st') \<and>
    sorted_wrt (<) (schemas_visited st') \<and>
    set (schemas_visited st') = single_level namespaces -
      {n. \<exists>entry. SchemasLookup st n = Some entry \<and> namespace_missing entry} \<and>
    schemas_later st st'"
proof -
  obtain l st1 env1 where list: "ListSchemasOnce C st env = (l, st1, env1)" using prod_cases3 by blast
  have same: "st' = st1"
    using assms(4) ScanSchemas_state [of C callback s st env] list by simp
  from list assms(1) show ?thesis
  proof (cases rule: ListSchemasOnce_cases)
    case known
    with assms(2) show ?thesis by simp
  next
    case (failed e)
    with list assms(2,3) show ?thesis
      by (auto simp: ListSchemasOnce_def SchemasListed_def call_service_def env_simps
          split: prod.splits sum.splits)
  next
    case (listed ns)
    then have ns: "ns = namespaces" using assms(3) by simp
    have ok: "schemas_ok st'" using listed(4) same by (simp add: schemas_later_def)
    have "n \<in> set (schemas_visited st') \<longleftrightarrow> n \<in> single_level namespaces \<and>
        \<not> (\<exists>entry. SchemasLookup st n = Some entry \<and> namespace_missing entry)" for n
      using set_schemas_visited [OF ok, of n] listed(6) [of n] same ns
      by (auto simp: MarkNamespaceMissing_def MakeSchemaEntry_def ProtoIcebergSchemaEntry_def
          split: option.splits if_splits)
    moreover have "r = foldl (\<lambda>r name. case r of Inl e \<Rightarrow> Inl e | Inr s \<Rightarrow> callback name s) (Inr s)
        (schemas_visited st')"
      using assms(4) list listed(2) same
      by (auto simp: ScanSchemas_def SchemasForEach_foldl schemas_visited_def)
    ultimately show ?thesis
      using schemas_visited_sorted [OF ok] listed(4) same by blast
  qed
qed

text \<open>
  Looking a schema up never asks the service and always ends: DuckDB's default schema is
  redirected to the configured one (once, even when that is DuckDB's own name); a schema known to be
  missing, or absent after a listing, is not found, which is NULL or a \<open>CatalogException\<close> naming the
  schema looked for, as the caller wishes, with nothing changed; any other schema is found, and
  stored when it was unknown.
\<close>

lemma LookupSchema_outcome:
  "LookupSchema D cat name if_not_found st =
   (let n = if name = D then default_schema cat else name
    in case SchemasLookup st n of
         Some entry \<Rightarrow>
           if \<not> namespace_missing entry then (Inr (Some n), st)
           else (case if_not_found of RETURN_NULL \<Rightarrow> Inr None
                 | THROW_EXCEPTION \<Rightarrow> Inl (CatalogException
                     (''Schema '' @ CHR 0x27 # n @ CHR 0x27 # '' does not exist'')), st)
       | None \<Rightarrow>
           if \<not> schemas_listed st
           then (Inr (Some n), SchemasStore n (MakeSchemaEntry n) st)
           else (case if_not_found of RETURN_NULL \<Rightarrow> Inr None
                 | THROW_EXCEPTION \<Rightarrow> Inl (CatalogException
                     (''Schema '' @ CHR 0x27 # n @ CHR 0x27 # '' does not exist'')), st))"
  by (cases if_not_found)
    (simp_all add: LookupSchema_resolved resolved_def presumed_def Let_def split: option.split)

text \<open>
  C15. Listing and lookup agree: once a transaction has listed the schemas, at any later point a
  lookup finds a schema exactly when a scan would visit it, neither of the two asks the service
  again or changes anything, and no schema appears that was not there at the listing.
\<close>

theorem listing_and_lookup_agree:
  assumes "schemas_ok st" and "ScanSchemas C callback s st env = (Inr s1, st1, env1)"
    and "catalog_steps C T A start D cat (st1, env1) (st2, env2)"
  shows "LookupSchema D cat name RETURN_NULL st2 =
      (Inr (if resolved D cat name \<in> set (schemas_visited st2) then Some (resolved D cat name) else None),
       st2) \<and>
    snd (ScanSchemas C callback' s' st2 env2) = (st2, env2) \<and>
    set (schemas_visited st2) \<subseteq> set (schemas_visited st1)"
proof -
  from ScanSchemas_later [OF assms(2,1)] have ok1: "schemas_ok st1" and listed1: "schemas_listed st1"
    by (simp_all add: schemas_later_def)
  from catalog_steps_later [OF assms(3)] ok1 listed1 have later: "schemas_later st1 st2"
    and dom: "\<forall>n. SchemasLookup st2 n = None \<longleftrightarrow> SchemasLookup st1 n = None"
    by simp_all
  then have ok2: "schemas_ok st2" and listed2: "schemas_listed st2"
    using listed1 by (simp_all add: schemas_later_def)
  have call: "LookupSchema D cat name RETURN_NULL st2 =
      (Inr (if presumed st2 (resolved D cat name) then Some (resolved D cat name) else None), st2)"
    using LookupSchema_later [OF prod.collapse [symmetric] ok2, of D cat name RETURN_NULL] listed2
    by (auto simp: LookupSchema_resolved Let_def split: if_splits)
  have "n \<in> set (schemas_visited st1)" if "n \<in> set (schemas_visited st2)" for n
  proof -
    from that obtain e2 where e2: "SchemasLookup st2 n = Some e2" "\<not> namespace_missing e2"
      using set_schemas_visited [OF ok2] by blast
    then obtain e1 where e1: "SchemasLookup st1 n = Some e1" using dom by (metis not_None_eq)
    then have "later e1 e2" using schemas_laterD [OF later] e2(1) by blast
    with e1 e2(2) show ?thesis using set_schemas_visited [OF ok1] by (auto simp: later_def)
  qed
  moreover obtain r st3 env3 where scan: "ScanSchemas C callback' s' st2 env2 = (r, st3, env3)"
    using prod_cases3 by blast
  ultimately show ?thesis
    using presumed_listed [OF ok2 listed2] ScanSchemas_later [OF scan ok2] listed2
    by (auto simp: call scan)
qed

text \<open>
  A transaction reads one version of a table: once a table has been looked up, through any
  sequence of schema lookups, schema scans and operations on this and other schemas the schema's entry
  is still there, a lookup of the table gives the same answer without asking the service, and the
  entry's columns and scan information are the same. Looking the schema up by any name that stands for
  it finds it too, unless a listing or a table load has shown that its namespace is gone.
\<close>

lemma transaction_reads_one_version:
  assumes "schemas_ok st" and "SchemasLookup st n = Some se"
    and "LookupEntry C T A start TABLE_ENTRY t se env = (Inr r, se1, env1)"
    and "catalog_steps C T A start D cat (SchemasStore n se1 st, env1) (st2, env2)"
  shows "\<exists>se2. SchemasLookup st2 n = Some se2 \<and>
    LookupEntry C T A start TABLE_ENTRY t se2 env2 = (Inr r, se2, env2) \<and>
    (case r of
       None \<Rightarrow> True
     | Some i \<Rightarrow> te_columns (deref (tables se2) i) = te_columns (deref (tables se1) i) \<and>
                te_scan_info (deref (tables se2) i) = te_scan_info (deref (tables se1) i)) \<and>
    (resolved D cat name = n \<longrightarrow>
       LookupSchema D cat name RETURN_NULL st2 = (Inr (if namespace_missing se2 then None else Some n), st2))"
proof -
  have ok: "registry_ok (tables se)" using schemas_okD [OF assms(1,2)] by simp
  from LookupEntry_later [OF assms(3) ok] have later1: "later se se1" and settled: "settled se1 t r"
    by simp_all
  have ok1: "schemas_ok (SchemasStore n se1 st)"
    using schemas_later_Store_later [OF assms(1,2) later1] by (simp add: schemas_later_def)
  then obtain se2 where se2: "SchemasLookup st2 n = Some se2" and later2: "later se1 se2"
    using schemas_later_find [of "SchemasStore n se1 st" st2 n se1] catalog_steps_later [OF assms(4)] by auto
  have "table_settled (SchemasStore n se1 st) (n, t) r" using settled by (simp add: table_settled_def)
  from catalog_reads.steps_settled [OF assms(4) [unfolded catalog_steps_rtranclp], of "(n, t)" r] this ok1
  have "settled se2 t r" by (simp add: table_settled_def se2)
  then have "LookupEntry C T A start TABLE_ENTRY t se2 env2 = (Inr r, se2, env2)" by (rule LookupEntry_settled)
  moreover have "te_columns (deref (tables se2) i) = te_columns (deref (tables se1) i) \<and>
      te_scan_info (deref (tables se2) i) = te_scan_info (deref (tables se1) i)"
    if "r = Some i" for i
  proof -
    have "i < length (reg_entries (tables se1))"
      using registry_okD [of "tables se1" t i] settled later1 that by (simp add: settled_def later_def)
    then have "same_entry (deref (tables se1) i) (deref (tables se2) i)"
      using later2 by (simp add: later_def deref_retained)
    then show ?thesis by (auto dest: same_entry_simps)
  qed
  moreover have "LookupSchema D cat name RETURN_NULL st2 = (Inr (if namespace_missing se2 then None else Some n), st2)"
    if "resolved D cat name = n"
    using that se2 by (auto simp: LookupSchema_resolved presumed_def)
  ultimately show ?thesis
    using se2 by (cases r) auto
qed

text \<open>What a scan of the schemas logs: its request, and the namespaces it skips.\<close>

lemma StoreNamespaces_log:
  "StoreNamespaces namespaces names st env = (names', st', env') \<Longrightarrow>
   \<exists>skipped. log env' = log env @ map LogSkippedNamespace skipped"
proof (induction namespaces names st env rule: StoreNamespaces.induct)
  case (2 child namespaces names st env)
  show ?case
  proof (cases "length (levels child) = 1")
    case True
    then show ?thesis using "2.IH"(2) [OF _ refl] "2.prems" by (auto simp: Let_def)
  next
    case False
    then obtain skipped where "log env' = log env @ map LogSkippedNamespace (levels child # skipped)"
      using "2.IH"(1) "2.prems" by (auto simp: env_simps)
    then show ?thesis by blast
  qed
qed simp

lemma ScanSchemas_log:
  assumes "ScanSchemas C callback s st env = (r, st', env')"
  shows "\<exists>skipped. log env' = log env @
    (if schemas_listed st then [] else LogListNamespaces # map LogSkippedNamespace skipped)"
proof -
  obtain l st1 env1 where list: "ListSchemasOnce C st env = (l, st1, env1)" using prod_cases3 by blast
  have env': "env' = env1" using assms ScanSchemas_state [of C callback s st env] by (simp add: list)
  show ?thesis
    using list unfolding env'
    by (auto simp: ListSchemasOnce_def SchemasListed_def Let_def call_service_def env_simps
        split: if_splits sum.splits prod.splits dest!: StoreNamespaces_log)
qed

section \<open>A concrete transaction\<close>

definition example_cat :: catalog where
  "example_cat = \<lparr>catalog_uri = ''http://localhost:8181'', default_schema = ''sales''\<rparr>"

definition example_txn :: "nat transaction" where
  "example_txn = ProtoIcebergTransaction 200000"

lemma example_txn_ok [simp]: "schemas_ok (schema_state example_txn)"
  by (simp add: example_txn_def ProtoIcebergTransaction_def schemas_ok_def SchemasLookup_def)

text \<open>A scan of the schemas that collects the names, first thing in the transaction.\<close>

definition example_list :: "string list throws \<times> nat schema_state \<times> nat env" where
  "example_list = ScanSchemas example_catalog (\<lambda>n xs. Inr (xs @ [n])) [] (schema_state example_txn) example_env"

lemmas example_list_defs = example_list_def ScanSchemas_def ListSchemasOnce_def SchemasListed_def
  example_txn_def ProtoIcebergTransaction_def example_catalog_def example_env_def call_service_def
  write_log_def GetNamespace_def SchemasLookup_def SchemasStore_def CompleteListing_def
  MakeSchemaEntry_def ProtoIcebergSchemaEntry_def IsNamespaceMissing_def

lemma example_list_result: "fst example_list = Inr [''sales'']"
  by (simp add: example_list_defs Let_def)

lemma example_list_call:
  "ScanSchemas example_catalog (\<lambda>n xs. Inr (xs @ [n])) [] (schema_state example_txn) example_env =
   (Inr [''sales''], fst (snd example_list), snd (snd example_list))"
  using example_list_result by (metis example_list_def prod.collapse)

theorem ScanSchemas_visits_witness:
  "set (schemas_visited (fst (snd example_list))) = {''sales''}"
proof -
  have "fst (ListNamespaces example_catalog \<lparr>levels = []\<rparr> (world example_env)) = Inr [GetNamespace ''sales'']"
    by (simp add: example_catalog_def)
  from ScanSchemas_visits [OF example_txn_ok _ this example_list_call]
  show ?thesis
    by (simp add: example_txn_def ProtoIcebergTransaction_def SchemasLookup_def single_level_def
        GetNamespace_def)
qed

theorem listing_and_lookup_agree_witness:
  "LookupSchema ''main'' example_cat ''main'' RETURN_NULL (fst (snd example_list)) =
     (Inr (Some ''sales''), fst (snd example_list)) \<and>
   LookupSchema ''main'' example_cat ''absent'' RETURN_NULL (fst (snd example_list)) =
     (Inr None, fst (snd example_list))"
proof -
  have visited: "schemas_visited (fst (snd example_list)) = [''sales'']"
    by (simp add: schemas_visited_def example_list_defs Let_def)
  show ?thesis
    using listing_and_lookup_agree [OF example_txn_ok example_list_call csteps_refl [where T = example_table
          and A = example_add_column and start = 200 and D = "''main''" and cat = example_cat],
        of "''main''" "\<lambda>_ _. Inr ()" "()"]
      listing_and_lookup_agree [OF example_txn_ok example_list_call csteps_refl [where T = example_table
          and A = example_add_column and start = 200 and D = "''main''" and cat = example_cat],
        of "''absent''" "\<lambda>_ _. Inr ()" "()"]
    by (simp add: visited resolved_def example_cat_def)
qed

end
