(* ===== verification/CatalogAttach.thy ===== *)
theory CatalogAttach
  imports Catalog "HOL-Library.Multiset"
begin

text \<open>
  Attaching a catalog (src/src/proto_iceberg_catalog_attach.cpp): the ATTACH options, the ICEBERG and S3
  secrets, and the catalog that is made of them. The lemmas show that the options mean the same in
  every order, which setting wins, and what the service and the catalog get.

  Parameters: DuckDB's \<open>StringUtil\<close> \<open>U\<close> and value operations \<open>V\<close>, its secrets \<open>M\<close>, and iceberg-cpp's
  property names \<open>P\<close> and REST catalogs \<open>R\<close>.
\<close>

section \<open>Parameters\<close>

record string_util =
  StringLower :: "string \<Rightarrow> string"
  RTrim :: "string \<Rightarrow> string \<Rightarrow> string"

text \<open>
  A secret has a type; \<open>key_values\<close> is what the cast to \<open>KeyValueSecret\<close> gives. The lookups may throw;
  the outer option of \<open>GetSecretByName\<close> is the entry, the inner one its \<open>secret\<close> member.
\<close>

record key_value_secret =
  secret_map :: secret_options
  TryGetValue :: "string \<Rightarrow> duckdb_value option"

record duckdb_secret =
  GetType :: string
  key_values :: "key_value_secret option"

record secret_lookups =
  LookupSecret :: "string \<Rightarrow> string \<Rightarrow> duckdb_secret option throws"
  GetSecretByName :: "string \<Rightarrow> duckdb_secret option option throws"

record ('w, 'cfg, 'rest) rest_api =
  FromMap :: "properties \<Rightarrow> 'cfg"
  MakeRestCatalog :: "'cfg \<Rightarrow> 'w \<Rightarrow> 'rest ice_result \<times> 'w"

section \<open>Attaching\<close>

definition kUri :: string where "kUri = ''uri''"
definition kHeaderAuthorization :: string where "kHeaderAuthorization = ''header.Authorization''"
definition kS3RootPath :: string where "kS3RootPath = ''s3://''"

definition ReadS3SecretAsIcebergProperties ::
  "value_ops \<Rightarrow> s3_properties \<Rightarrow> secret_lookups \<Rightarrow> properties throws" where
  "ReadS3SecretAsIcebergProperties V P M =
     (case LookupSecret M kS3RootPath kS3SecretType of
        Inl e \<Rightarrow> Inl e
      | Inr None \<Rightarrow> Inr Map.empty
      | Inr (Some secret_match) \<Rightarrow>
          (case key_values secret_match of
             None \<Rightarrow> Inr Map.empty
           | Some kv_secret \<Rightarrow> ConvertS3SecretToIcebergProperties V P (secret_map kv_secret)))"

record catalog_params =
  cp_uri :: string
  cp_warehouse :: string
  cp_token :: string
  cp_default_schema :: string

text \<open>The loop over the options, an \<open>unordered_map\<close>, in the order it iterates in.\<close>

fun ParseOptions ::
  "value_ops \<Rightarrow> string_util \<Rightarrow> (string \<times> duckdb_value) list \<Rightarrow> catalog_params \<Rightarrow> catalog_params throws" where
  "ParseOptions V U [] params = Inr params"
| "ParseOptions V U ((key, val) # options) params =
     (let lower_key = StringLower U key
      in if lower_key = kEndpoint then ParseOptions V U options (params\<lparr>cp_uri := ToString V val\<rparr>)
         else if lower_key = kWarehouse then ParseOptions V U options (params\<lparr>cp_warehouse := ToString V val\<rparr>)
         else if lower_key = kToken then ParseOptions V U options (params\<lparr>cp_token := ToString V val\<rparr>)
         else if lower_key = kDefaultSchema
         then ParseOptions V U options (params\<lparr>cp_default_schema := ToString V val\<rparr>)
         else Inl (BinderException (''Unrecognized ATTACH option: '' @ CHR 0x27 # key @ [CHR 0x27])))"

definition ParseAttachOptions ::
  "value_ops \<Rightarrow> string_util \<Rightarrow> string \<Rightarrow> (string \<times> duckdb_value) list \<Rightarrow> catalog_params throws" where
  "ParseAttachOptions V U path options =
     (case ParseOptions V U options
             \<lparr>cp_uri = [], cp_warehouse = [], cp_token = [], cp_default_schema = []\<rparr> of
        Inl e \<Rightarrow> Inl e
      | Inr params \<Rightarrow>
          Inr (if cp_warehouse params = [] \<and> path \<noteq> [] then params\<lparr>cp_warehouse := path\<rparr> else params))"

text \<open>The lambda \<open>apply\<close> of \<open>MergeIcebergSecretParams\<close>.\<close>

definition ApplySecret :: "value_ops \<Rightarrow> key_value_secret \<Rightarrow> catalog_params \<Rightarrow> catalog_params" where
  "ApplySecret V kv params =
     (let params =
        (if cp_uri params = []
         then (case TryGetValue kv kEndpoint of Some v \<Rightarrow> params\<lparr>cp_uri := ToString V v\<rparr> | None \<Rightarrow> params)
         else params)
      in if cp_token params = []
         then (case TryGetValue kv kToken of Some v \<Rightarrow> params\<lparr>cp_token := ToString V v\<rparr> | None \<Rightarrow> params)
         else params)"

definition MergeIcebergSecretParams ::
  "value_ops \<Rightarrow> secret_lookups \<Rightarrow> string \<Rightarrow> catalog_params \<Rightarrow> catalog_params throws" where
  "MergeIcebergSecretParams V M name params =
     (case GetSecretByName M name of
        Inl e \<Rightarrow> Inl e
      | Inr entry \<Rightarrow>
          (case (case entry of
                   Some (Some secret) \<Rightarrow> if GetType secret = kIcebergSecretType then Some secret else None
                 | _ \<Rightarrow> None) of
             Some secret \<Rightarrow>
               (case key_values secret of Some kv \<Rightarrow> Inr (ApplySecret V kv params) | None \<Rightarrow> Inr params)
           | None \<Rightarrow>
               (case LookupSecret M [] kIcebergSecretType of
                  Inl e \<Rightarrow> Inl e
                | Inr None \<Rightarrow> Inr params
                | Inr (Some secret) \<Rightarrow>
                    (case key_values secret of Some kv \<Rightarrow> Inr (ApplySecret V kv params) | None \<Rightarrow> Inr params))))"

text \<open>
  \<open>Attach\<close> returns the catalog, whose members are the URI and the default schema, and the REST catalog
  it owns.
\<close>

definition Attach ::
  "value_ops \<Rightarrow> string_util \<Rightarrow> secret_lookups \<Rightarrow> s3_properties \<Rightarrow> ('w, 'cfg, 'rest) rest_api \<Rightarrow> string \<Rightarrow>
   string \<Rightarrow> (string \<times> duckdb_value) list \<Rightarrow> 'w env \<Rightarrow> (catalog \<times> 'rest) throws \<times> 'w env" where
  "Attach V U M P R name path options env =
     (case ParseAttachOptions V U path options of
        Inl e \<Rightarrow> (Inl e, env)
      | Inr params \<Rightarrow>
          (case MergeIcebergSecretParams V M name params of
             Inl e \<Rightarrow> (Inl e, env)
           | Inr params \<Rightarrow>
               (let params = (if cp_default_schema params = []
                              then params\<lparr>cp_default_schema := kDefaultNamespace\<rparr> else params)
                in if cp_uri params = []
                   then (Inl (InvalidConfigurationException ''Missing 'endpoint' option for Iceberg attach''), env)
                   else
                     (let params = params\<lparr>cp_uri := RTrim U (cp_uri params) ''/''\<rparr>
                      in case ReadS3SecretAsIcebergProperties V P M of
                           Inl e \<Rightarrow> (Inl e, env)
                         | Inr catalog_props \<Rightarrow>
                             (let catalog_props = catalog_props(kUri \<mapsto> cp_uri params);
                                catalog_props =
                                  (if cp_warehouse params \<noteq> []
                                   then catalog_props(kWarehouse \<mapsto> cp_warehouse params) else catalog_props);
                                catalog_props =
                                  (if cp_token params \<noteq> []
                                   then catalog_props(kHeaderAuthorization \<mapsto> kBearerPrefix @ cp_token params)
                                   else catalog_props)
                              in case call_service (MakeRestCatalog R (FromMap R catalog_props)) env of
                                   (result, env) \<Rightarrow>
                                     (case UnwrapOrThrow IOException result
                                             (''Failed to create Iceberg REST catalog at '' @ cp_uri params) of
                                        Inl e \<Rightarrow> (Inl e, env)
                                      | Inr rest_catalog \<Rightarrow>
                                          (Inr (ProtoIcebergCatalog (cp_uri params) (cp_default_schema params), rest_catalog),
                                           env)))))))"

section \<open>What the options mean\<close>

definition attach_keys :: "string set" where
  "attach_keys = {kEndpoint, kWarehouse, kToken, kDefaultSchema}"

text \<open>
  The text of an option, whatever the case of its key and its place among the others; where a key is
  given twice in different cases, the last one in iteration order counts.
\<close>

definition option_value :: "string_util \<Rightarrow> (string \<times> duckdb_value) list \<Rightarrow> string \<Rightarrow> duckdb_value option" where
  "option_value U options = map_of (rev (map (\<lambda>(key, val). (StringLower U key, val)) options))"

definition option_or ::
  "value_ops \<Rightarrow> string_util \<Rightarrow> (string \<times> duckdb_value) list \<Rightarrow> string \<Rightarrow> string \<Rightarrow> string" where
  "option_or V U options d key = (case option_value U options key of None \<Rightarrow> d | Some v \<Rightarrow> ToString V v)"

abbreviation option_text where "option_text V U options key \<equiv> option_or V U options [] key"

definition first_set :: "string \<Rightarrow> string \<Rightarrow> string" where
  "first_set a b = (if a \<noteq> [] then a else b)"

lemma option_or_simps:
  "option_or V U [] d k = d"
  "option_or V U ((key, val) # options) d k =
     option_or V U options (if k = StringLower U key then ToString V val else d) k"
  by (auto simp: option_or_def option_value_def map_add_def split: option.split)

lemma attach_keys_distinct [simp]:
  "kEndpoint \<noteq> kWarehouse" "kEndpoint \<noteq> kToken" "kEndpoint \<noteq> kDefaultSchema" "kWarehouse \<noteq> kToken"
  "kWarehouse \<noteq> kDefaultSchema" "kToken \<noteq> kDefaultSchema"
  "kWarehouse \<noteq> kEndpoint" "kToken \<noteq> kEndpoint" "kDefaultSchema \<noteq> kEndpoint" "kToken \<noteq> kWarehouse"
  "kDefaultSchema \<noteq> kWarehouse" "kDefaultSchema \<noteq> kToken"
  by (simp_all add: kEndpoint_def kWarehouse_def kToken_def kDefaultSchema_def)

abbreviation unrecognized :: "string \<Rightarrow> exception" where
  "unrecognized key \<equiv> BinderException (''Unrecognized ATTACH option: '' @ CHR 0x27 # key @ [CHR 0x27])"

lemma ParseOptions_eq:
  "ParseOptions V U options params =
     (case find (\<lambda>(key, val). StringLower U key \<notin> attach_keys) options of
        Some (key, val) \<Rightarrow> Inl (unrecognized key)
      | None \<Rightarrow> Inr \<lparr>cp_uri = option_or V U options (cp_uri params) kEndpoint,
                     cp_warehouse = option_or V U options (cp_warehouse params) kWarehouse,
                     cp_token = option_or V U options (cp_token params) kToken,
                     cp_default_schema = option_or V U options (cp_default_schema params) kDefaultSchema\<rparr>)"
proof (induction V U options params rule: ParseOptions.induct)
  case (2 V U key val options params)
  show ?case
  proof (cases "StringLower U key \<in> attach_keys")
    case True
    then consider "StringLower U key = kEndpoint" | "StringLower U key = kWarehouse"
      | "StringLower U key = kToken" | "StringLower U key = kDefaultSchema"
      by (auto simp: attach_keys_def)
    then show ?thesis
      using 2 True by cases (simp_all add: Let_def option_or_simps attach_keys_def split: option.split)
  next
    case False
    then show ?thesis by (simp add: Let_def attach_keys_def)
  qed
qed (simp add: option_or_simps)

definition parsed_params ::
  "value_ops \<Rightarrow> string_util \<Rightarrow> string \<Rightarrow> (string \<times> duckdb_value) list \<Rightarrow> catalog_params" where
  "parsed_params V U path options =
     \<lparr>cp_uri = option_text V U options kEndpoint,
      cp_warehouse = first_set (option_text V U options kWarehouse) path,
      cp_token = option_text V U options kToken,
      cp_default_schema = option_text V U options kDefaultSchema\<rparr>"

lemma ParseAttachOptions_eq:
  "ParseAttachOptions V U path options =
     (case find (\<lambda>(key, val). StringLower U key \<notin> attach_keys) options of
        Some (key, val) \<Rightarrow> Inl (unrecognized key)
      | None \<Rightarrow> Inr (parsed_params V U path options))"
  by (auto simp: ParseAttachOptions_def ParseOptions_eq parsed_params_def first_set_def split: option.split)

text \<open>
  C35. The ATTACH options mean the same in every order: whichever order the unordered map gives them
  in, as long as no two keys differ in case only, they give the same settings, each the text of the
  option of that name, and the path stands in for a missing warehouse; if a key is not one of
  \<open>endpoint\<close>, \<open>warehouse\<close>, \<open>token\<close> and \<open>default_schema\<close>, every order is refused with a \<open>BinderException\<close>
  that names such a key.
\<close>

theorem ParseAttachOptions_any_order:
  assumes "distinct (map (StringLower U \<circ> fst) options)" and "mset options' = mset options"
  shows "if StringLower U ` fst ` set options \<subseteq> attach_keys
    then ParseAttachOptions V U path options' = Inr
           \<lparr>cp_uri = option_text V U options kEndpoint,
            cp_warehouse = first_set (option_text V U options kWarehouse) path,
            cp_token = option_text V U options kToken,
            cp_default_schema = option_text V U options kDefaultSchema\<rparr>
    else (\<exists>key \<in> fst ` set options. StringLower U key \<notin> attach_keys \<and>
           ParseAttachOptions V U path options' = Inl (unrecognized key))"
proof -
  let ?low = "map (\<lambda>(key, val). (StringLower U key, val))"
  have keys: "map fst (?low xs) = map (StringLower U \<circ> fst) xs" for xs :: "(string \<times> duckdb_value) list"
    by (simp add: case_prod_unfold)
  have set_eq: "set options' = set options" using assms(2) by (rule mset_eq_setD)
  have "mset (map (StringLower U \<circ> fst) options') = mset (map (StringLower U \<circ> fst) options)"
    using assms(2) by simp
  then have "distinct (map (StringLower U \<circ> fst) options')"
    using assms(1) by (metis mset_eq_imp_distinct_iff)
  with assms(1) set_eq have "map_of (rev (?low options')) = map_of (rev (?low options))"
    by (subst map_of_inject_set) (simp_all add: rev_map [symmetric] keys [unfolded comp_def] comp_def case_prod_unfold)
  then have params: "option_or V U options' d key = option_or V U options d key" for d key
    by (simp add: option_or_def option_value_def)
  show ?thesis
  proof (cases "find (\<lambda>(key, val). StringLower U key \<notin> attach_keys) options'")
    case None
    then have "StringLower U ` fst ` set options \<subseteq> attach_keys"
      by (fastforce simp: find_None_iff set_eq)
    with None show ?thesis by (simp add: ParseAttachOptions_eq params parsed_params_def)
  next
    case (Some p)
    then have "p \<in> set options" "StringLower U (fst p) \<notin> attach_keys"
      by (auto simp: find_Some_iff set_eq [symmetric] in_set_conv_nth)
    with Some show ?thesis by (auto simp: ParseAttachOptions_eq split: prod.split)
  qed
qed

section \<open>Which settings win\<close>

text \<open>
  The ICEBERG secret an ATTACH uses: the one named like the alias if it is of that type, otherwise
  whichever matches the type; nothing when there is none or it has no key-value pairs.
\<close>

definition named_secret :: "secret_lookups \<Rightarrow> string \<Rightarrow> duckdb_secret option throws" where
  "named_secret M name =
     (case GetSecretByName M name of
        Inl e \<Rightarrow> Inl e
      | Inr entry \<Rightarrow>
          Inr (case entry of
                 Some (Some secret) \<Rightarrow> if GetType secret = kIcebergSecretType then Some secret else None
               | _ \<Rightarrow> None))"

definition iceberg_secret :: "secret_lookups \<Rightarrow> string \<Rightarrow> key_value_secret option throws" where
  "iceberg_secret M name =
     (case named_secret M name of
        Inl e \<Rightarrow> Inl e
      | Inr (Some secret) \<Rightarrow> Inr (key_values secret)
      | Inr None \<Rightarrow>
          (case LookupSecret M [] kIcebergSecretType of
             Inl e \<Rightarrow> Inl e
           | Inr secret \<Rightarrow> Inr (Option.bind secret key_values)))"

definition secret_text :: "value_ops \<Rightarrow> key_value_secret option \<Rightarrow> string \<Rightarrow> string" where
  "secret_text V kv key =
     (case Option.bind kv (\<lambda>kv. TryGetValue kv key) of None \<Rightarrow> [] | Some v \<Rightarrow> ToString V v)"

lemma secret_text_None [simp]: "secret_text V None key = []"
  by (simp add: secret_text_def)

lemma first_set_simps [simp]: "first_set a [] = a" "first_set [] b = b"
  by (simp_all add: first_set_def)

lemma ApplySecret_eq:
  "ApplySecret V kv params = params\<lparr>
     cp_uri := first_set (cp_uri params) (secret_text V (Some kv) kEndpoint),
     cp_token := first_set (cp_token params) (secret_text V (Some kv) kToken)\<rparr>"
  by (cases params) (simp add: ApplySecret_def Let_def first_set_def secret_text_def split: option.split)

lemma MergeIcebergSecretParams_eq:
  "MergeIcebergSecretParams V M name params =
     (case iceberg_secret M name of
        Inl e \<Rightarrow> Inl e
      | Inr kv \<Rightarrow> Inr (params\<lparr>
          cp_uri := first_set (cp_uri params) (secret_text V kv kEndpoint),
          cp_token := first_set (cp_token params) (secret_text V kv kToken)\<rparr>))"
  by (cases params)
     (auto simp: MergeIcebergSecretParams_def iceberg_secret_def named_secret_def ApplySecret_eq
       split: sum.split option.split)

definition attach_endpoint where
  "attach_endpoint V U kv options =
     first_set (option_text V U options kEndpoint) (secret_text V kv kEndpoint)"

definition attach_token where
  "attach_token V U kv options = first_set (option_text V U options kToken) (secret_text V kv kToken)"

text \<open>The properties the REST catalog is made from, over the S3 secret's.\<close>

definition attach_props ::
  "string \<Rightarrow> string \<Rightarrow> string \<Rightarrow> properties \<Rightarrow> properties" where
  "attach_props uri warehouse token s3 = (\<lambda>key.
     if key = kHeaderAuthorization \<and> token \<noteq> [] then Some (''Bearer '' @ token)
     else if key = kWarehouse \<and> warehouse \<noteq> [] then Some warehouse
     else if key = kUri then Some uri
     else s3 key)"

lemma property_keys_distinct [simp]:
  "kUri \<noteq> kWarehouse" "kWarehouse \<noteq> kUri" "kUri \<noteq> kHeaderAuthorization" "kHeaderAuthorization \<noteq> kUri"
  "kWarehouse \<noteq> kHeaderAuthorization" "kHeaderAuthorization \<noteq> kWarehouse"
  by (simp_all add: kUri_def kWarehouse_def kHeaderAuthorization_def)

lemma attach_props_upd:
  "attach_props uri [] [] s3 = s3(kUri \<mapsto> uri)"
  "w \<noteq> [] \<Longrightarrow> attach_props uri w [] s3 = s3(kUri \<mapsto> uri, kWarehouse \<mapsto> w)"
  "t \<noteq> [] \<Longrightarrow> attach_props uri [] t s3 = s3(kUri \<mapsto> uri, kHeaderAuthorization \<mapsto> kBearerPrefix @ t)"
  "w \<noteq> [] \<Longrightarrow> t \<noteq> [] \<Longrightarrow> attach_props uri w t s3 =
     s3(kUri \<mapsto> uri, kWarehouse \<mapsto> w, kHeaderAuthorization \<mapsto> kBearerPrefix @ t)"
  by (auto simp: attach_props_def kBearerPrefix_def)

lemma Attach_merged:
  assumes "ParseAttachOptions V U path options = Inr params"
    and "MergeIcebergSecretParams V M name params =
      Inr \<lparr>cp_uri = endpoint, cp_warehouse = warehouse, cp_token = token, cp_default_schema = schema\<rparr>"
    and "endpoint \<noteq> []"
  shows "Attach V U M P R name path options env =
     (case ReadS3SecretAsIcebergProperties V P M of
        Inl e \<Rightarrow> (Inl e, env)
      | Inr s3 \<Rightarrow>
          (case call_service (MakeRestCatalog R (FromMap R
                  (attach_props (RTrim U endpoint ''/'') warehouse token s3))) env of
             (result, env) \<Rightarrow>
               (case result of
                  Inl err \<Rightarrow> Inl (IOException (''Failed to create Iceberg REST catalog at '' @
                    RTrim U endpoint ''/'' @ '': '' @ err_message err))
                | Inr rest \<Rightarrow> Inr (\<lparr>catalog_uri = RTrim U endpoint ''/'',
                    default_schema = first_set schema kDefaultNamespace\<rparr>, rest), env)))"
  using assms(3)
  by (cases "ReadS3SecretAsIcebergProperties V P M"; cases "schema = []"; cases "warehouse = []";
      cases "token = []")
     (simp_all add: Attach_def ProtoIcebergCatalog_def assms(1,2) attach_props_upd UnwrapOrThrow_def first_set_def
       split: sum.split prod.split)

text \<open>
  The request ATTACH makes of the service: the REST catalog from the URI, the warehouse, the token and the
  S3 secret's properties.
\<close>

definition attach_request where
  "attach_request V U R kv s3 path options =
     MakeRestCatalog R (FromMap R (attach_props (RTrim U (attach_endpoint V U kv options) ''/'')
       (first_set (option_text V U options kWarehouse) path) (attach_token V U kv options) s3))"

text \<open>
  C17. What ATTACH makes: the catalog's URI is the endpoint without trailing slashes and the default
  schema is the one given or \<open>default\<close>; the REST catalog is made from that URI, the warehouse, the token
  as a bearer header and, for every other key, the S3 secret's properties; an ATTACH option wins over
  the ICEBERG secret's value. ATTACH fails, before it asks the service, exactly for an unknown option,
  a secret lookup that throws or a missing endpoint; otherwise it asks the service once and fails exactly
  if the REST catalog cannot be made, with the service's error.
\<close>

theorem Attach_outcome:
  "case Attach V U M P R name path options env of
     (Inr (cat, rest), env') \<Rightarrow>
       StringLower U ` fst ` set options \<subseteq> attach_keys \<and>
       (\<exists>kv s3. iceberg_secret M name = Inr kv \<and> ReadS3SecretAsIcebergProperties V P M = Inr s3 \<and>
          attach_endpoint V U kv options \<noteq> [] \<and>
          catalog_uri cat = RTrim U (attach_endpoint V U kv options) ''/'' \<and>
          default_schema cat = first_set (option_text V U options kDefaultSchema) kDefaultNamespace \<and>
          call_service (attach_request V U R kv s3 path options) env = (Inr rest, env'))
   | (Inl e, env') \<Rightarrow>
       if \<not> StringLower U ` fst ` set options \<subseteq> attach_keys
       then env' = env \<and> (\<exists>key \<in> fst ` set options. StringLower U key \<notin> attach_keys \<and> e = unrecognized key)
       else (case iceberg_secret M name of
               Inl e' \<Rightarrow> e = e' \<and> env' = env
             | Inr kv \<Rightarrow>
                 if attach_endpoint V U kv options = []
                 then env' = env \<and>
                   e = InvalidConfigurationException ''Missing 'endpoint' option for Iceberg attach''
                 else (case ReadS3SecretAsIcebergProperties V P M of
                         Inl e' \<Rightarrow> e = e' \<and> env' = env
                       | Inr s3 \<Rightarrow>
                           \<exists>err. call_service (attach_request V U R kv s3 path options) env = (Inl err, env') \<and>
                             e = IOException (''Failed to create Iceberg REST catalog at '' @
                               RTrim U (attach_endpoint V U kv options) ''/'' @ '': '' @ err_message err)))"
proof (cases "find (\<lambda>(key, val). StringLower U key \<notin> attach_keys) options")
  case (Some p)
  then have "p \<in> set options" "StringLower U (fst p) \<notin> attach_keys"
    by (auto simp: find_Some_iff in_set_conv_nth)
  with Some show ?thesis
    by (auto simp: Attach_def ParseAttachOptions_eq split: prod.split)
next
  case None
  then have known: "StringLower U ` fst ` set options \<subseteq> attach_keys" by (fastforce simp: find_None_iff)
  have parse: "ParseAttachOptions V U path options = Inr (parsed_params V U path options)"
    by (simp add: ParseAttachOptions_eq None)
  have merge: "MergeIcebergSecretParams V M name (parsed_params V U path options) =
      (case iceberg_secret M name of
         Inl e \<Rightarrow> Inl e
       | Inr kv \<Rightarrow> Inr \<lparr>cp_uri = attach_endpoint V U kv options,
           cp_warehouse = first_set (option_text V U options kWarehouse) path,
           cp_token = attach_token V U kv options, cp_default_schema = option_text V U options kDefaultSchema\<rparr>)"
    by (simp add: MergeIcebergSecretParams_eq parsed_params_def attach_endpoint_def attach_token_def
        split: sum.split)
  show ?thesis
  proof (cases "iceberg_secret M name")
    case (Inl e)
    then show ?thesis by (simp add: Attach_def parse merge known)
  next
    case kv: (Inr kv)
    show ?thesis
    proof (cases "attach_endpoint V U kv options = []")
      case True
      then show ?thesis by (simp add: Attach_def parse merge kv known)
    next
      case False
      note made = Attach_merged [OF parse merge [unfolded kv sum.case] False]
      show ?thesis
        unfolding made
        by (simp add: known kv False attach_request_def split: sum.split prod.split)
    qed
  qed
qed

lemma Attach_log: "Attach V U M P R name path options env = (r, env') \<Longrightarrow> log env' = log env"
  by (auto simp: Attach_def Let_def call_service_def UnwrapOrThrow_def
      split: sum.splits prod.splits if_splits)

section \<open>A concrete ATTACH\<close>

definition example_lower :: "string \<Rightarrow> string" where
  "example_lower = map (\<lambda>c. if 65 \<le> (of_char c :: nat) \<and> of_char c \<le> (90 :: nat)
     then char_of (of_char c + 32 :: nat) else c)"

definition example_string_util :: string_util where
  "example_string_util = \<lparr>StringLower = example_lower,
     RTrim = (\<lambda>s chars. rev (dropWhile (\<lambda>c. c \<in> set chars) (rev s)))\<rparr>"

definition example_kv :: key_value_secret where
  "example_kv = (let m = [''token'' \<mapsto> StringValue ''abc''] in \<lparr>secret_map = m, TryGetValue = m\<rparr>)"

definition example_lookups :: secret_lookups where
  "example_lookups = \<lparr>
     LookupSecret = (\<lambda>path type. Inr (if type = kIcebergSecretType
       then Some \<lparr>GetType = kIcebergSecretType, key_values = Some example_kv\<rparr> else None)),
     GetSecretByName = (\<lambda>name. Inr None)\<rparr>"

definition example_rest_api :: "(nat, properties, properties) rest_api" where
  "example_rest_api = \<lparr>FromMap = (\<lambda>props. props), MakeRestCatalog = (\<lambda>cfg calls. (Inr cfg, calls + 1))\<rparr>"

lemma example_lower_eval:
  "example_lower ''ENDPOINT'' = ''endpoint''" "example_lower ''Token'' = ''token''"
  by code_simp+

theorem ParseAttachOptions_any_order_witness:
  "ParseAttachOptions example_value_ops example_string_util ''lake''
     [(''Token'', StringValue ''t''), (''ENDPOINT'', StringValue ''http://host'')] =
   Inr \<lparr>cp_uri = ''http://host'', cp_warehouse = ''lake'', cp_token = ''t'', cp_default_schema = []\<rparr>"
proof -
  let ?options = "[(''ENDPOINT'', StringValue ''http://host''), (''Token'', StringValue ''t'')]"
  have lower: "StringLower example_string_util = example_lower" by (simp add: example_string_util_def)
  have "distinct (map (StringLower example_string_util \<circ> fst) ?options)"
    by (simp add: lower example_lower_eval)
  from ParseAttachOptions_any_order [OF this, of "[(''Token'', StringValue ''t''), (''ENDPOINT'', StringValue ''http://host'')]"
      example_value_ops "''lake''"]
  show ?thesis
    by (simp add: lower example_lower_eval attach_keys_def kEndpoint_def kToken_def kWarehouse_def kDefaultSchema_def
        option_or_def option_value_def first_set_def example_value_ops_def)
qed

text \<open>
  The endpoint is checked before its trailing slashes are removed, so an endpoint of slashes alone is
  accepted and the catalog is made for an empty URI.
\<close>

lemma slash_endpoint_accepted:
  "\<exists>rest env'. Attach example_value_ops example_string_util example_lookups example_s3_properties
       example_rest_api ''lake'' [] [(''ENDPOINT'', StringValue ''/'')] example_env =
     (Inr (\<lparr>catalog_uri = [], default_schema = ''default''\<rparr>, rest), env')"
  by (simp add: Attach_def ProtoIcebergCatalog_def ParseAttachOptions_def MergeIcebergSecretParams_def ReadS3SecretAsIcebergProperties_def
      example_string_util_def example_lower_eval example_lookups_def example_rest_api_def ApplySecret_def
      example_kv_def example_value_ops_def call_service_def kEndpoint_def kToken_def kDefaultNamespace_def
      kIcebergSecretType_def kS3SecretType_def Let_def)

end
