(* ===== verification/Extension.thy ===== *)
theory Extension
  imports CatalogAttach TableEntry
begin

text \<open>
  Loading the extension (src/src/proto_iceberg_extension.cpp): the ICEBERG secret type, the function that
  creates its secrets, and the storage extension that attaches catalogs and makes transaction
  managers. The lemmas show what a load registers, where it stops when DuckDB refuses, and that the
  secrets it creates serve an ATTACH and keep the token out of sight.

  Parameter: DuckDB's and iceberg-cpp's registries, a record \<open>X\<close> of operations over their state \<open>'d\<close>.
\<close>

section \<open>Secrets\<close>

text \<open>DuckDB's \<open>KeyValueSecret\<close>; its map and its key set are case-insensitive, with lower-case keys.\<close>

record base_secret =
  bs_scope :: "string list"
  bs_type :: string
  bs_provider :: string
  bs_name :: string
  bs_secret_map :: secret_options
  bs_redact_keys :: "string set"

definition CreateIcebergSecret :: "create_secret_input \<Rightarrow> base_secret" where
  "CreateIcebergSecret input =
     (let result = \<lparr>bs_scope = cs_scope input, bs_type = cs_type input, bs_provider = cs_provider input,
            bs_name = cs_name input, bs_secret_map = Map.empty, bs_redact_keys = {}\<rparr>;
        result = result\<lparr>bs_secret_map := bs_secret_map result ++ cs_options input\<rparr>
      in result\<lparr>bs_redact_keys := bs_redact_keys result \<union> kRedactedSecrets\<rparr>)"

text \<open>\<open>SecretType\<close>; its deserializer is one of DuckDB's functions, by name.\<close>

datatype secret_deserializer = KeyValueSecretDeserialize | OtherDeserializer nat

record secret_type =
  st_name :: string
  st_deserializer :: secret_deserializer
  st_default_provider :: string

record create_secret_function =
  sf_secret_type :: string
  sf_provider :: string
  sf_function :: "create_secret_input \<Rightarrow> base_secret"
  sf_named_parameters :: "string \<rightharpoonup> logical_type"

section \<open>The storage extension\<close>

definition kIcebergExtensionName :: string where "kIcebergExtensionName = ''proto_iceberg''"
definition kStorageExtensionName :: string where "kStorageExtensionName = ''iceberg''"

definition CreateIcebergTransactionManager :: "'tbl transactions" where
  "CreateIcebergTransactionManager = Map.empty"

record ('a, 'tbl) storage_extension =
  ext_attach :: 'a
  ext_create_transaction_manager :: "'tbl transactions"

definition ProtoIcebergStorageExtension where
  "ProtoIcebergStorageExtension =
     \<lparr>ext_attach = Attach, ext_create_transaction_manager = CreateIcebergTransactionManager\<rparr>"

section \<open>Registration\<close>

record ('a, 'tbl, 'd) registries =
  ArrowRegisterAll :: "'d \<Rightarrow> 'd"
  AvroRegisterAll :: "'d \<Rightarrow> 'd"
  RegisterSecretType :: "secret_type \<Rightarrow> 'd \<Rightarrow> unit throws \<times> 'd"
  RegisterFunction :: "create_secret_function \<Rightarrow> 'd \<Rightarrow> unit throws \<times> 'd"
  RegisterStorageExtension :: "string \<Rightarrow> ('a, 'tbl) storage_extension \<Rightarrow> 'd \<Rightarrow> unit throws \<times> 'd"

definition RegisterIcebergFileIO :: "('a, 'tbl, 'd) registries \<Rightarrow> 'd \<Rightarrow> 'd" where
  "RegisterIcebergFileIO X d = AvroRegisterAll X (ArrowRegisterAll X d)"

definition RegisterIcebergSecretType :: "('a, 'tbl, 'd) registries \<Rightarrow> 'd \<Rightarrow> unit throws \<times> 'd" where
  "RegisterIcebergSecretType X d =
     RegisterSecretType X \<lparr>st_name = kIcebergSecretType, st_deserializer = KeyValueSecretDeserialize,
       st_default_provider = kConfigProvider\<rparr> d"

definition iceberg_secret_function :: create_secret_function where
  "iceberg_secret_function =
     (let secret_function = \<lparr>sf_secret_type = kIcebergSecretType, sf_provider = kConfigProvider,
            sf_function = CreateIcebergSecret, sf_named_parameters = Map.empty\<rparr>
      in secret_function\<lparr>sf_named_parameters :=
           (sf_named_parameters secret_function)(kEndpoint \<mapsto> VARCHAR, kToken \<mapsto> VARCHAR)\<rparr>)"

definition RegisterIcebergSecretFunction :: "('a, 'tbl, 'd) registries \<Rightarrow> 'd \<Rightarrow> unit throws \<times> 'd" where
  "RegisterIcebergSecretFunction X d = RegisterFunction X iceberg_secret_function d"

definition LoadInternal where
  "LoadInternal X d =
     (case RegisterIcebergSecretType X (RegisterIcebergFileIO X d) of
        (Inl e, d) \<Rightarrow> (Inl e, d)
      | (Inr _, d) \<Rightarrow>
          (case RegisterIcebergSecretFunction X d of
             (Inl e, d) \<Rightarrow> (Inl e, d)
           | (Inr _, d) \<Rightarrow> RegisterStorageExtension X kStorageExtensionName ProtoIcebergStorageExtension d))"

definition Load where
  "Load X d = LoadInternal X d"

definition Name :: string where
  "Name = kIcebergExtensionName"

text \<open>The build may define the version as a macro, here a parameter.\<close>

definition Version :: "string option \<Rightarrow> string" where
  "Version EXT_VERSION_PROTO_ICEBERG = (case EXT_VERSION_PROTO_ICEBERG of Some v \<Rightarrow> v | None \<Rightarrow> '''')"

section \<open>What a load leaves behind\<close>

text \<open>
  What is relied on of DuckDB and iceberg-cpp, seen as the set of what is registered: a registration
  that returns adds itself, one that throws adds nothing, and nothing is ever removed.
\<close>

datatype ('a, 'tbl) registration =
    ArrowFileIO
  | AvroFileIO
  | SecretType secret_type
  | SecretFunction string string "string \<rightharpoonup> logical_type"
  | Storage string "('a, 'tbl) storage_extension"

definition adds :: "('d \<Rightarrow> 'r set) \<Rightarrow> 'r \<Rightarrow> 'd \<Rightarrow> unit throws \<times> 'd \<Rightarrow> bool" where
  "adds registered r d result \<longleftrightarrow>
     registered (snd result) = (if isl (fst result) then {} else {r}) \<union> registered d"

definition registries_laws ::
  "('a, 'tbl, 'd) registries \<Rightarrow> ('d \<Rightarrow> ('a, 'tbl) registration set) \<Rightarrow> bool" where
  "registries_laws X registered \<longleftrightarrow>
     (\<forall>d. registered (ArrowRegisterAll X d) = insert ArrowFileIO (registered d)) \<and>
     (\<forall>d. registered (AvroRegisterAll X d) = insert AvroFileIO (registered d)) \<and>
     (\<forall>st d. adds registered (SecretType st) d (RegisterSecretType X st d)) \<and>
     (\<forall>sf d. adds registered (SecretFunction (sf_secret_type sf) (sf_provider sf) (sf_named_parameters sf)) d
        (RegisterFunction X sf d)) \<and>
     (\<forall>n ext d. adds registered (Storage n ext) d (RegisterStorageExtension X n ext d))"

definition iceberg_type :: secret_type where
  "iceberg_type = \<lparr>st_name = ''iceberg'', st_deserializer = KeyValueSecretDeserialize,
     st_default_provider = ''config''\<rparr>"

definition iceberg_function :: "('a, 'tbl) registration" where
  "iceberg_function = SecretFunction ''iceberg'' ''config'' [''endpoint'' \<mapsto> VARCHAR, ''token'' \<mapsto> VARCHAR]"

text \<open>What DuckDB is asked to register, and what each registration adds, in order; file IO cannot fail.\<close>

definition load_steps where
  "load_steps X =
     [(RegisterSecretType X iceberg_type, SecretType iceberg_type),
      (RegisterFunction X iceberg_secret_function, iceberg_function),
      (RegisterStorageExtension X ''iceberg'' ProtoIcebergStorageExtension,
         Storage ''iceberg'' ProtoIcebergStorageExtension)]"

text \<open>The steps that returned before the first that throws, and what it throws.\<close>

fun accepted :: "(('d \<Rightarrow> unit throws \<times> 'd) \<times> 'r) list \<Rightarrow> 'd \<Rightarrow> 'r list \<times> exception option" where
  "accepted [] d = ([], None)"
| "accepted ((step, r) # steps) d =
     (case step d of
        (Inl e, d) \<Rightarrow> ([], Some e)
      | (Inr _, d) \<Rightarrow> (case accepted steps d of (rs, e) \<Rightarrow> (r # rs, e)))"

lemma iceberg_secret_function_simps:
  "sf_secret_type iceberg_secret_function = ''iceberg''"
  "sf_provider iceberg_secret_function = ''config''"
  "sf_named_parameters iceberg_secret_function = [''endpoint'' \<mapsto> VARCHAR, ''token'' \<mapsto> VARCHAR]"
  "sf_function iceberg_secret_function = CreateIcebergSecret"
  by (simp_all add: iceberg_secret_function_def kIcebergSecretType_def kConfigProvider_def kEndpoint_def
      kToken_def)

lemma registries_lawsD:
  assumes "registries_laws X registered"
  shows "registered (ArrowRegisterAll X d) = insert ArrowFileIO (registered d)"
    and "registered (AvroRegisterAll X d) = insert AvroFileIO (registered d)"
    and "adds registered (SecretType st) d (RegisterSecretType X st d)"
    and "adds registered (SecretFunction (sf_secret_type sf) (sf_provider sf) (sf_named_parameters sf)) d
      (RegisterFunction X sf d)"
    and "adds registered (Storage n ext) d (RegisterStorageExtension X n ext d)"
  using assms by (simp_all add: registries_laws_def)

text \<open>A load and its steps by what each of the three registrations answers.\<close>

lemma Load_stages:
  assumes "RegisterSecretType X iceberg_type (RegisterIcebergFileIO X d) = (r1, d1)"
    and "RegisterFunction X iceberg_secret_function d1 = (r2, d2)"
    and "RegisterStorageExtension X ''iceberg'' ProtoIcebergStorageExtension d2 = (r3, d3)"
  shows "Load X d = (case r1 of Inl e \<Rightarrow> (Inl e, d1) | Inr _ \<Rightarrow>
    (case r2 of Inl e \<Rightarrow> (Inl e, d2) | Inr _ \<Rightarrow> (r3, d3)))"
  using assms
  by (simp add: Load_def LoadInternal_def RegisterIcebergSecretType_def RegisterIcebergSecretFunction_def
      kIcebergSecretType_def kConfigProvider_def kStorageExtensionName_def iceberg_type_def split: sum.split)

lemma load_steps_stages:
  assumes "RegisterSecretType X iceberg_type d = (r1, d1)"
    and "RegisterFunction X iceberg_secret_function d1 = (r2, d2)"
    and "RegisterStorageExtension X ''iceberg'' ProtoIcebergStorageExtension d2 = (r3, d3)"
  shows "accepted (load_steps X) d = (case r1 of Inl e \<Rightarrow> ([], Some e) | Inr _ \<Rightarrow>
    (case r2 of Inl e \<Rightarrow> ([SecretType iceberg_type], Some e) | Inr _ \<Rightarrow>
      (case r3 of Inl e \<Rightarrow> ([SecretType iceberg_type, iceberg_function], Some e) | Inr _ \<Rightarrow>
        ([SecretType iceberg_type, iceberg_function, Storage ''iceberg'' ProtoIcebergStorageExtension], None))))"
  using assms by (simp add: load_steps_def split: sum.split)

text \<open>
  C36. A load registers the file IO, then the secret type, its function and the storage extension, in
  this order, and stops at the first that DuckDB refuses: it throws that exception, exactly what came
  before is registered and nothing else is. It returns exactly if nothing is refused. So the storage
  extension is never there without the secrets, and no catalog can be attached whose secret cannot be
  created.
\<close>

theorem Load_registers:
  assumes "registries_laws X registered" and "Load X d = (r, d')"
    and "accepted (load_steps X) (RegisterIcebergFileIO X d) = (done, refusal)"
  shows "registered d' = registered d \<union> {ArrowFileIO, AvroFileIO} \<union> set done \<and>
    r = (case refusal of None \<Rightarrow> Inr () | Some e \<Rightarrow> Inl e) \<and>
    done = take (length done) [SecretType iceberg_type, iceberg_function,
      Storage ''iceberg'' ProtoIcebergStorageExtension] \<and> (length done < 3 \<longleftrightarrow> refusal \<noteq> None)"
proof -
  note laws = registries_lawsD [OF assms(1)]
  let ?io = "RegisterIcebergFileIO X d" and ?ext = ProtoIcebergStorageExtension
  obtain r1 d1 where 1: "RegisterSecretType X iceberg_type ?io = (r1, d1)" by fastforce
  obtain r2 d2 where 2: "RegisterFunction X iceberg_secret_function d1 = (r2, d2)" by fastforce
  obtain r3 d3 where 3: "RegisterStorageExtension X ''iceberg'' ?ext d2 = (r3, d3)" by fastforce
  have io: "registered ?io = {ArrowFileIO, AvroFileIO} \<union> registered d"
    by (auto simp: RegisterIcebergFileIO_def laws)
  have adds: "adds registered (SecretType iceberg_type) ?io (r1, d1)"
    "adds registered iceberg_function d1 (r2, d2)" "adds registered (Storage ''iceberg'' ?ext) d2 (r3, d3)"
    using laws(3) [of iceberg_type ?io] laws(4) [of iceberg_secret_function d1] laws(5) [of "''iceberg''" ?ext d2]
    by (simp_all add: 1 2 3 iceberg_function_def iceberg_secret_function_simps)
  note load = Load_stages [OF 1 2 3] and steps = load_steps_stages [OF 1 2 3]
  show ?thesis
  proof (cases r1)
    case (Inl e)
    with assms(2) have "r = Inl e" "d' = d1" by (simp_all add: load)
    moreover from Inl assms(3) have "done = []" "refusal = Some e" by (simp_all add: steps)
    ultimately show ?thesis using adds(1) io Inl by (auto simp: adds_def)
  next
    case r1: (Inr u)
    show ?thesis
    proof (cases r2)
      case (Inl e)
      with r1 assms(2) have "r = Inl e" "d' = d2" by (simp_all add: load)
      moreover from r1 Inl assms(3) have "done = [SecretType iceberg_type]" "refusal = Some e" by (simp_all add: steps)
      ultimately show ?thesis using adds(1,2) io r1 Inl by (auto simp: adds_def)
    next
      case r2: (Inr u)
      with r1 assms(2) have r: "r = r3" "d' = d3" by (simp_all add: load)
      from r1 r2 assms(3) have "done = [SecretType iceberg_type, iceberg_function] @
          (if isl r3 then [] else [Storage ''iceberg'' ?ext])" "refusal = (if isl r3 then Some (projl r3) else None)"
        by (auto simp: steps split: sum.splits)
      then show ?thesis using adds io r1 r2 by (cases r3) (auto simp: r adds_def)
    qed
  qed
qed

section \<open>Secrets serve ATTACH\<close>

text \<open>DuckDB has stored a secret under its name, and looks its keys up in its map.\<close>

definition stores_secret :: "secret_lookups \<Rightarrow> base_secret \<Rightarrow> bool" where
  "stores_secret M b \<longleftrightarrow>
     GetSecretByName M (bs_name b) = Inr (Some (Some \<lparr>GetType = bs_type b,
       key_values = Some \<lparr>secret_map = bs_secret_map b, TryGetValue = bs_secret_map b\<rparr>\<rparr>))"

text \<open>
  C18. A created secret serves the ATTACH of its name: with a secret that the registered function made,
  every parameter of the function is one ATTACH reads; an ATTACH whose alias is the secret's name uses
  the secret's endpoint and token wherever its options give none, never misses the endpoint, and the
  token is among the keys DuckDB redacts.
\<close>

theorem secret_serves_attach:
  assumes "stores_secret M (sf_function iceberg_secret_function input)"
    and "cs_type input = kIcebergSecretType" and "ReadS3SecretAsIcebergProperties V P M = Inr s3"
    and "cs_options input kEndpoint = Some endpoint" and "ToString V endpoint \<noteq> []"
    and "cs_options input kToken = Some token"
  shows "kToken \<in> bs_redact_keys (sf_function iceberg_secret_function input) \<and>
    dom (sf_named_parameters iceberg_secret_function) = {kEndpoint, kToken} \<and>
    (case Attach V U M P R (cs_name input) path options env of
       (Inr (cat, rest), env') \<Rightarrow>
         catalog_uri cat = RTrim U (first_set (option_text V U options kEndpoint) (ToString V endpoint)) ''/'' \<and>
         fst (MakeRestCatalog R (FromMap R (attach_props (catalog_uri cat)
           (first_set (option_text V U options kWarehouse) path)
           (first_set (option_text V U options kToken) (ToString V token)) s3)) (world env)) = Inr rest
     | (Inl e, env') \<Rightarrow> (\<exists>key. e = unrecognized key) \<or> (\<exists>msg. e = IOException msg))"
proof -
  let ?b = "CreateIcebergSecret input"
  let ?kv = "\<lparr>secret_map = bs_secret_map ?b, TryGetValue = bs_secret_map ?b\<rparr>"
  have b: "bs_type ?b = kIcebergSecretType" "bs_name ?b = cs_name input" "bs_secret_map ?b = cs_options input"
    "bs_redact_keys ?b = {kToken}"
    by (simp_all add: CreateIcebergSecret_def assms(2) kRedactedSecrets_def Let_def)
  have secret: "iceberg_secret M (cs_name input) = Inr (Some ?kv)"
    using assms(1) unfolding stores_secret_def iceberg_secret_function_simps b
    by (simp add: iceberg_secret_def named_secret_def)
  have texts: "secret_text V (Some ?kv) kEndpoint = ToString V endpoint"
    "secret_text V (Some ?kv) kToken = ToString V token"
    by (simp_all add: secret_text_def b assms(4,6))
  have attach: "case Attach V U M P R (cs_name input) path options env of
       (Inr (cat, rest), env') \<Rightarrow>
         catalog_uri cat = RTrim U (first_set (option_text V U options kEndpoint) (ToString V endpoint)) ''/'' \<and>
         fst (MakeRestCatalog R (FromMap R (attach_props (catalog_uri cat)
           (first_set (option_text V U options kWarehouse) path)
           (first_set (option_text V U options kToken) (ToString V token)) s3)) (world env)) = Inr rest
     | (Inl e, env') \<Rightarrow> (\<exists>key. e = unrecognized key) \<or> (\<exists>msg. e = IOException msg)"
  proof (cases "ParseAttachOptions V U path options")
    case (Inl e)
    then show ?thesis by (auto simp: Attach_def ParseAttachOptions_eq split: option.splits prod.splits)
  next
    case (Inr params)
    then have params: "params = parsed_params V U path options"
      by (auto simp: ParseAttachOptions_eq split: option.splits prod.splits)
    have merge: "MergeIcebergSecretParams V M (cs_name input) params =
        Inr \<lparr>cp_uri = first_set (option_text V U options kEndpoint) (ToString V endpoint),
             cp_warehouse = first_set (option_text V U options kWarehouse) path,
             cp_token = first_set (option_text V U options kToken) (ToString V token),
             cp_default_schema = option_text V U options kDefaultSchema\<rparr>"
      by (simp add: MergeIcebergSecretParams_eq secret texts params parsed_params_def)
    have "first_set (option_text V U options kEndpoint) (ToString V endpoint) \<noteq> []"
      using assms(5) by (simp add: first_set_def)
    note made = Attach_merged [OF Inr merge this, of P R env]
    show ?thesis
      unfolding made by (auto simp: assms(3) call_service_def split: prod.split sum.split)
  qed
  then show ?thesis
    by (auto simp: iceberg_secret_function_simps b kEndpoint_def kToken_def)
qed

section \<open>A concrete load and secret\<close>

text \<open>A database that records what is registered, and one that refuses the secret function.\<close>

definition example_registries ::
  "bool \<Rightarrow> ('a, 'tbl, ('a, 'tbl) registration set) registries" where
  "example_registries refuses = \<lparr>
     ArrowRegisterAll = insert ArrowFileIO, AvroRegisterAll = insert AvroFileIO,
     RegisterSecretType = (\<lambda>st d. (Inr (), insert (SecretType st) d)),
     RegisterFunction = (\<lambda>sf d. if refuses then (Inl (CatalogException ''exists''), d)
       else (Inr (), insert (SecretFunction (sf_secret_type sf) (sf_provider sf) (sf_named_parameters sf)) d)),
     RegisterStorageExtension = (\<lambda>n ext d. (Inr (), insert (Storage n ext) d))\<rparr>"

lemma example_registries_laws: "registries_laws (example_registries refuses) (\<lambda>d. d)"
  by (simp add: registries_laws_def example_registries_def adds_def)

lemma example_load_steps:
  "accepted (load_steps (example_registries False)) (RegisterIcebergFileIO (example_registries False) {}) =
     ([SecretType iceberg_type, iceberg_function, Storage ''iceberg'' ProtoIcebergStorageExtension], None)"
  "accepted (load_steps (example_registries True)) (RegisterIcebergFileIO (example_registries True) {}) =
     ([SecretType iceberg_type], Some (CatalogException ''exists''))"
  by (simp_all add: load_steps_def example_registries_def)

theorem Load_registers_witness:
  "snd (Load (example_registries False) {}) =
     {ArrowFileIO, AvroFileIO, SecretType iceberg_type, iceberg_function,
      Storage ''iceberg'' ProtoIcebergStorageExtension} \<and>
   Load (example_registries True) {} =
     (Inl (CatalogException ''exists''), {ArrowFileIO, AvroFileIO, SecretType iceberg_type})"
  (is "snd ?accepts = _ \<and> ?refuses = _")
proof -
  obtain r d where accepts: "?accepts = (r, d)" by fastforce
  obtain r' d' where refuses: "?refuses = (r', d')" by fastforce
  from Load_registers [OF example_registries_laws accepts example_load_steps(1)]
  have "d = {} \<union> {ArrowFileIO, AvroFileIO} \<union> set [SecretType iceberg_type, iceberg_function,
      Storage ''iceberg'' ProtoIcebergStorageExtension]" by (elim conjE)
  moreover from Load_registers [OF example_registries_laws refuses example_load_steps(2)]
  have "d' = {} \<union> {ArrowFileIO, AvroFileIO} \<union> set [SecretType iceberg_type]"
    "r' = Inl (CatalogException ''exists'')" by simp_all
  ultimately show ?thesis by (auto simp: accepts refuses)
qed

definition example_secret_input :: create_secret_input where
  "example_secret_input = MakeBaseS3SecretInput\<lparr>cs_type := kIcebergSecretType, cs_name := ''lake'',
     cs_options := [kEndpoint \<mapsto> StringValue ''http://host/'', kToken \<mapsto> StringValue ''abc'']\<rparr>"

definition example_stored :: secret_lookups where
  "example_stored = example_lookups\<lparr>GetSecretByName := (\<lambda>name.
     let b = CreateIcebergSecret example_secret_input
     in Inr (Some (Some \<lparr>GetType = bs_type b,
          key_values = Some \<lparr>secret_map = bs_secret_map b, TryGetValue = bs_secret_map b\<rparr>\<rparr>)))\<rparr>"

theorem secret_serves_attach_witness:
  "\<exists>cat rest env'. Attach example_value_ops example_string_util example_stored example_s3_properties
       example_rest_api ''lake'' ''warehouse'' [] example_env = (Inr (cat, rest), env') \<and>
     catalog_uri cat = ''http://host'' \<and> rest kHeaderAuthorization = Some ''Bearer abc''"
proof -
  let ?attach = "Attach example_value_ops example_string_util example_stored example_s3_properties
       example_rest_api (cs_name example_secret_input) ''warehouse'' [] example_env"
  have stored: "stores_secret example_stored (sf_function iceberg_secret_function example_secret_input)"
    by (simp add: stores_secret_def example_stored_def iceberg_secret_function_simps Let_def)
  have s3: "ReadS3SecretAsIcebergProperties example_value_ops example_s3_properties example_stored =
      Inr Map.empty"
    by (simp add: ReadS3SecretAsIcebergProperties_def example_stored_def example_lookups_def
        kIcebergSecretType_def kS3SecretType_def)
  have type: "cs_type example_secret_input = kIcebergSecretType"
    and opts: "cs_options example_secret_input kEndpoint = Some (StringValue ''http://host/'')"
      "cs_options example_secret_input kToken = Some (StringValue ''abc'')"
    and nonempty: "ToString example_value_ops (StringValue ''http://host/'') \<noteq> []"
    by (simp_all add: example_secret_input_def kEndpoint_def kToken_def example_value_ops_def)
  note serves = secret_serves_attach [OF stored type s3 opts(1) nonempty opts(2), where U = example_string_util
      and R = example_rest_api and path = "''warehouse''" and options = "[]" and env = example_env]
  have "\<exists>x env'. ?attach = (Inr x, env')"
    by (simp add: Attach_def ParseAttachOptions_def MergeIcebergSecretParams_def ReadS3SecretAsIcebergProperties_def example_stored_def
        example_lookups_def kIcebergSecretType_def kS3SecretType_def
        example_secret_input_def CreateIcebergSecret_def ApplySecret_def example_rest_api_def
        example_value_ops_def call_service_def kEndpoint_def kToken_def Let_def)
  then obtain cat rest env' where attach: "?attach = (Inr (cat, rest), env')" by (metis prod.exhaust)
  from serves have "catalog_uri cat = ''http://host''"
    unfolding attach by (simp add: option_or_simps example_string_util_def example_value_ops_def)
  moreover from serves have "rest = attach_props (catalog_uri cat) ''warehouse'' ''abc'' Map.empty"
    unfolding attach by (auto simp: option_or_simps example_value_ops_def example_rest_api_def)
  then have "rest kHeaderAuthorization = Some ''Bearer abc''" by (simp add: attach_props_def)
  ultimately show ?thesis using attach by (auto simp: example_secret_input_def)
qed

end
