(* ===== verification/Mutex.thy ===== *)
theory Mutex
  imports Prelude
begin

text \<open>
  \<open>Mutex<T>\<close> (src/src/include/mutex.hpp): a value behind a lock, reached only through the guard that
  \<open>Lock\<close> returns and that can be moved. The lemmas show that at most one guard gives access at a time,
  that a moved lock stays locked until its last holder goes, and that whatever threads do with their
  guards is what their critical sections do one after another; this is why the components model each
  operation that holds a lock as one step.

  A guard is identified by a number, its address. \<open>std::mutex\<close> and \<open>std::unique_lock\<close> are the standard
  library's. An operation that blocks, or that an assertion or the lifetime rules exclude, is \<open>None\<close>.
\<close>

section \<open>The mutex and its guards\<close>

text \<open>\<open>mutex_locked\<close> is the state of \<open>mutex_\<close>; a live guard is mapped to its \<open>lock_.owns_lock()\<close>.\<close>

record 'a mutex =
  mutex_locked :: bool
  mutex_data :: 'a
  guards :: "nat \<rightharpoonup> bool"

text \<open>The constructor that builds the value in place.\<close>

definition MakeMutex :: "'a \<Rightarrow> 'a mutex" where
  "MakeMutex val = \<lparr>mutex_locked = False, mutex_data = val, guards = Map.empty\<rparr>"

text \<open>\<open>Lock\<close>: constructs a guard \<open>g\<close>, which blocks while the mutex is locked.\<close>

definition LockMutex :: "nat \<Rightarrow> 'a mutex \<Rightarrow> 'a mutex option" where
  "LockMutex g m =
     (if guards m g = None \<and> \<not> mutex_locked m
      then Some (m\<lparr>mutex_locked := True, guards := (guards m)(g \<mapsto> True)\<rparr>) else None)"

text \<open>\<open>operator*\<close> and \<open>operator->\<close>, with the assertion that the guard owns the lock.\<close>

definition Deref :: "nat \<Rightarrow> 'a mutex \<Rightarrow> 'a option" where
  "Deref g m = (if guards m g = Some True then Some (mutex_data m) else None)"

definition Modify :: "nat \<Rightarrow> ('a \<Rightarrow> 'a) \<Rightarrow> 'a mutex \<Rightarrow> 'a mutex option" where
  "Modify g f m = (case Deref g m of None \<Rightarrow> None | Some x \<Rightarrow> Some (m\<lparr>mutex_data := f x\<rparr>))"

text \<open>The implicit move constructor, which moves \<open>lock_\<close> and leaves a guard that owns nothing.\<close>

definition MoveGuard :: "nat \<Rightarrow> nat \<Rightarrow> 'a mutex \<Rightarrow> 'a mutex option" where
  "MoveGuard g g' m =
     (case guards m g of
        None \<Rightarrow> None
      | Some owns \<Rightarrow>
          if guards m g' = None then Some (m\<lparr>guards := (guards m)(g \<mapsto> False, g' \<mapsto> owns)\<rparr>) else None)"

text \<open>The implicit destructor, which releases the mutex if the guard owns it.\<close>

definition DestroyGuard :: "nat \<Rightarrow> 'a mutex \<Rightarrow> 'a mutex option" where
  "DestroyGuard g m =
     (case guards m g of
        None \<Rightarrow> None
      | Some owns \<Rightarrow>
          Some (m\<lparr>mutex_locked := (if owns then False else mutex_locked m),
                  guards := (guards m)(g := None)\<rparr>))"

section \<open>Executions\<close>

text \<open>What the threads do, in the order it happens; \<open>run\<close> is \<open>None\<close> for an order that cannot happen.\<close>

datatype 'a event =
    EvLock nat
  | EvModify nat "'a \<Rightarrow> 'a"
  | EvMove nat nat
  | EvDestroy nat

fun do_event :: "'a event \<Rightarrow> 'a mutex \<Rightarrow> 'a mutex option" where
  "do_event (EvLock g) m = LockMutex g m"
| "do_event (EvModify g f) m = Modify g f m"
| "do_event (EvMove g g') m = MoveGuard g g' m"
| "do_event (EvDestroy g) m = DestroyGuard g m"

fun run_events :: "'a event list \<Rightarrow> 'a mutex \<Rightarrow> 'a mutex option" where
  "run_events [] m = Some m"
| "run_events (e # es) m = (case do_event e m of None \<Rightarrow> None | Some m' \<Rightarrow> run_events es m')"

lemma run_events_append:
  "run_events (es @ fs) m = (case run_events es m of None \<Rightarrow> None | Some m' \<Rightarrow> run_events fs m')"
  by (induction es arbitrary: m) (auto split: option.split)

lemma run_events_snoc:
  "run_events (es @ [e]) m = Some m'' \<longleftrightarrow> (\<exists>m'. run_events es m = Some m' \<and> do_event e m' = Some m'')"
  by (auto simp: run_events_append split: option.splits)

section \<open>Exclusion\<close>

definition owned_by :: "nat option \<Rightarrow> 'a mutex \<Rightarrow> bool" where
  "owned_by h m \<longleftrightarrow> (\<forall>g. guards m g = Some True \<longleftrightarrow> h = Some g) \<and> (mutex_locked m \<longleftrightarrow> h \<noteq> None)"

definition guards_ok :: "'a mutex \<Rightarrow> bool" where
  "guards_ok m \<longleftrightarrow> (\<exists>h. owned_by h m)"

text \<open>The owner after an event.\<close>

fun next_owner :: "'a event \<Rightarrow> nat option \<Rightarrow> nat option" where
  "next_owner (EvLock g) h = Some g"
| "next_owner (EvModify g f) h = h"
| "next_owner (EvMove g g') h = (if h = Some g then Some g' else h)"
| "next_owner (EvDestroy g) h = (if h = Some g then None else h)"

lemma do_event_owned_by:
  assumes "owned_by h m" and "do_event e m = Some m'"
  shows "owned_by (next_owner e h) m'"
proof -
  have iff: "guards m k = Some True \<longleftrightarrow> h = Some k" for k using assms(1) by (simp add: owned_by_def)
  have locked: "mutex_locked m \<longleftrightarrow> h \<noteq> None" using assms(1) by (simp add: owned_by_def)
  show ?thesis
  proof (cases e)
    case (EvLock g)
    then have m': "m' = m\<lparr>mutex_locked := True, guards := (guards m)(g \<mapsto> True)\<rparr>" and "h = None"
      using assms(2) locked by (simp_all add: LockMutex_def split: if_splits)
    then have "guards m' k = Some True \<longleftrightarrow> Some g = Some k" for k using iff [of k] by auto
    then show ?thesis by (simp add: EvLock owned_by_def m')
  next
    case (EvModify g f)
    then have "guards m' = guards m" "mutex_locked m' = mutex_locked m"
      using assms(2) by (auto simp: Modify_def split: option.splits)
    then show ?thesis by (simp add: EvModify owned_by_def iff locked)
  next
    case (EvMove g g')
    with assms(2) obtain owns where g: "guards m g = Some owns" and g': "guards m g' = None"
      and m': "m' = m\<lparr>guards := (guards m)(g \<mapsto> False, g' \<mapsto> owns)\<rparr>"
      by (auto simp: MoveGuard_def split: option.splits if_splits)
    have other: "g' \<noteq> g" using g g' by auto
    have "owns \<longleftrightarrow> h = Some g" using iff [of g] g by simp
    moreover have "h \<noteq> Some g'" using iff [of g'] g' by simp
    ultimately have "guards m' k = Some True \<longleftrightarrow> next_owner e h = Some k" for k
      using other iff [of k] by (auto simp: EvMove m')
    moreover have "mutex_locked m' \<longleftrightarrow> next_owner e h \<noteq> None" by (simp add: EvMove m' locked)
    ultimately show ?thesis unfolding owned_by_def by blast
  next
    case (EvDestroy g)
    with assms(2) obtain owns where g: "guards m g = Some owns"
      and m': "m' = m\<lparr>mutex_locked := (if owns then False else mutex_locked m), guards := (guards m)(g := None)\<rparr>"
      by (auto simp: DestroyGuard_def split: option.splits)
    have owns: "owns \<longleftrightarrow> h = Some g" using iff [of g] g by simp
    have "guards m' k = Some True \<longleftrightarrow> next_owner e h = Some k" for k
      using iff [of k] by (auto simp: EvDestroy m')
    moreover have "mutex_locked m' \<longleftrightarrow> next_owner e h \<noteq> None" by (simp add: EvDestroy m' locked owns)
    ultimately show ?thesis unfolding owned_by_def by blast
  qed
qed

lemma do_event_guards_ok: "guards_ok m \<Longrightarrow> do_event e m = Some m' \<Longrightarrow> guards_ok m'"
  unfolding guards_ok_def using do_event_owned_by by blast

lemma run_events_guards_ok: "run_events es (MakeMutex x) = Some m \<Longrightarrow> guards_ok m"
proof (induction es arbitrary: m rule: rev_induct)
  case Nil
  then show ?case by (auto simp: guards_ok_def owned_by_def MakeMutex_def)
next
  case (snoc e es)
  then show ?case by (auto simp: run_events_snoc intro: do_event_guards_ok)
qed

text \<open>
  Access is exclusive: after any sequence of locking, moving, using and destroying guards, at most
  one guard gives access to the value; while one does, every \<open>Lock\<close> blocks; and when none does, the
  mutex is free again, however often the lock was moved.
\<close>

lemma guards_exclusive:
  assumes "run_events es (MakeMutex x) = Some m"
  shows "(Deref g m \<noteq> None \<longrightarrow> Deref g' m \<noteq> None \<longrightarrow> g = g') \<and>
    (Deref g m \<noteq> None \<longrightarrow> LockMutex g' m = None) \<and>
    (guards m g' = None \<longrightarrow> LockMutex g' m = None \<longrightarrow> (\<exists>g. Deref g m \<noteq> None))"
  using run_events_guards_ok [OF assms]
  by (auto simp: guards_ok_def owned_by_def Deref_def LockMutex_def split: if_splits)

section \<open>Critical sections\<close>

text \<open>
  The critical section an event belongs to, followed through moves: \<open>section_of\<close> maps a guard to the
  guard its lock was taken with, \<open>opened\<close> is the order in which sections were opened and \<open>code_of\<close> what
  each did to the value. None of them looks at the state of the mutex.
\<close>

record 'a sections =
  section_of :: "nat \<rightharpoonup> nat"
  opened :: "nat list"
  code_of :: "nat \<Rightarrow> ('a \<Rightarrow> 'a) list"

fun note_event :: "'a event \<Rightarrow> 'a sections \<Rightarrow> 'a sections" where
  "note_event (EvLock g) s =
     s\<lparr>section_of := (section_of s)(g \<mapsto> length (opened s)), opened := opened s @ [length (opened s)]\<rparr>"
| "note_event (EvModify g f) s =
     (case section_of s g of
        None \<Rightarrow> s
      | Some k \<Rightarrow> s\<lparr>code_of := (code_of s)(k := code_of s k @ [f])\<rparr>)"
| "note_event (EvMove g g') s = s\<lparr>section_of := (section_of s)(g' := section_of s g)\<rparr>"
| "note_event (EvDestroy g) s = s"

definition sections_of :: "'a event list \<Rightarrow> 'a sections" where
  "sections_of es = foldl (\<lambda>s e. note_event e s) \<lparr>section_of = Map.empty, opened = [], code_of = (\<lambda>k. [])\<rparr> es"

text \<open>Running the code of one section, and of all of them one after another.\<close>

definition run_code :: "('a \<Rightarrow> 'a) list \<Rightarrow> 'a \<Rightarrow> 'a" where
  "run_code fs x = foldl (\<lambda>x f. f x) x fs"

definition run_serially :: "'a sections \<Rightarrow> 'a \<Rightarrow> 'a" where
  "run_serially s x = foldl (\<lambda>x k. run_code (code_of s k) x) x (opened s)"

text \<open>The guard that owns the lock belongs to the section opened last.\<close>

definition tracks :: "'a \<Rightarrow> 'a sections \<Rightarrow> 'a mutex \<Rightarrow> bool" where
  "tracks x s m \<longleftrightarrow>
     opened s = [0..<length (opened s)] \<and>
     (\<forall>k. length (opened s) \<le> k \<longrightarrow> code_of s k = []) \<and>
     (\<forall>g. guards m g = Some True \<longrightarrow> opened s \<noteq> [] \<and> section_of s g = Some (length (opened s) - 1)) \<and>
     mutex_data m = run_serially s x"

lemma run_serially_cong:
  "opened s' = opened s \<Longrightarrow> (\<And>k. k \<in> set (opened s) \<Longrightarrow> code_of s' k = code_of s k) \<Longrightarrow>
   run_serially s' x = run_serially s x"
  unfolding run_serially_def by (auto intro: foldl_cong)

lemma run_serially_open:
  "code_of s k = [] \<Longrightarrow> run_serially (s\<lparr>section_of := r, opened := opened s @ [k]\<rparr>) x = run_serially s x"
  by (simp add: run_serially_def run_code_def)

lemma run_serially_extend:
  assumes "opened s = ks @ [k]" and "k \<notin> set ks"
  shows "run_serially (s\<lparr>code_of := (code_of s)(k := code_of s k @ [f])\<rparr>) x = f (run_serially s x)"
proof -
  have "foldl (\<lambda>x j. run_code (((code_of s)(k := code_of s k @ [f])) j) x) x ks =
      foldl (\<lambda>x j. run_code (code_of s j) x) x ks"
    using assms(2) by (intro foldl_cong) auto
  then show ?thesis using assms(1) by (simp add: run_serially_def run_code_def)
qed

lemma do_event_tracks:
  assumes "tracks x s m" and "guards_ok m" and "do_event e m = Some m'"
  shows "tracks x (note_event e s) m'"
proof (cases e)
  case (EvLock g)
  then have m': "m' = m\<lparr>mutex_locked := True, guards := (guards m)(g \<mapsto> True)\<rparr>"
    and free: "guards m h \<noteq> Some True" for h
    using assms(2,3) by (auto simp: LockMutex_def guards_ok_def owned_by_def split: if_splits)
  have "code_of s (length (opened s)) = []" using assms(1) by (simp add: tracks_def)
  then show ?thesis
    using assms(1) free by (auto simp: EvLock m' tracks_def run_serially_open)
next
  case (EvModify g f)
  then have m': "m' = m\<lparr>mutex_data := f (mutex_data m)\<rparr>" and owns: "guards m g = Some True"
    using assms(3) by (auto simp: Modify_def Deref_def split: if_splits)
  let ?k = "length (opened s) - 1"
  have k: "section_of s g = Some ?k" "opened s = [0..<?k] @ [?k]"
    using assms(1) owns by (auto simp: tracks_def) (metis upt_Suc_append Suc_pred le0 length_greater_0_conv)
  with run_serially_extend [OF k(2)] show ?thesis
    using assms(1) owns by (auto simp: EvModify m' tracks_def)
next
  case (EvMove g g')
  then obtain owns where "guards m g = Some owns" "guards m g' = None"
    and m': "m' = m\<lparr>guards := (guards m)(g \<mapsto> False, g' \<mapsto> owns)\<rparr>"
    using assms(3) by (auto simp: MoveGuard_def split: option.splits if_splits)
  then show ?thesis
    using assms(1) by (auto simp: EvMove tracks_def intro: run_serially_cong)
next
  case (EvDestroy g)
  then show ?thesis
    using assms(1,3) by (auto simp: tracks_def DestroyGuard_def split: option.splits if_splits)
qed

text \<open>
  C11. Critical sections are atomic: whatever order the threads' events happen in, the value is what the
  sections make of it one after another, in the order in which they were locked, a section being all
  that is done through the guard its lock was taken with and the guards that lock was moved to.
\<close>

theorem critical_sections_serialize:
  assumes "run_events es (MakeMutex x) = Some m"
  shows "mutex_data m = run_serially (sections_of es) x"
proof -
  have "tracks x (sections_of es) m" if "run_events es (MakeMutex x) = Some m" for m
    using that
  proof (induction es arbitrary: m rule: rev_induct)
    case Nil
    then show ?case by (auto simp: tracks_def sections_of_def run_serially_def MakeMutex_def)
  next
    case (snoc e es)
    then obtain m0 where m0: "run_events es (MakeMutex x) = Some m0" "do_event e m0 = Some m"
      by (auto simp: run_events_snoc)
    from do_event_tracks [OF snoc.IH [OF m0(1)] run_events_guards_ok [OF m0(1)] m0(2)]
    show ?case by (simp add: sections_of_def)
  qed
  with assms show ?thesis by (simp add: tracks_def)
qed

section \<open>A concrete execution\<close>

text \<open>
  Guard 0 is moved to guard 1 in the middle of its section, which adds one and doubles; guard 2's
  section adds three.
\<close>

definition example_events :: "nat event list" where
  "example_events = [EvLock 0, EvModify 0 Suc, EvMove 0 1, EvDestroy 0, EvModify 1 ((*) 2), EvDestroy 1,
     EvLock 2, EvModify 2 ((+) 3)]"

definition example_mutex :: "nat mutex" where
  "example_mutex = \<lparr>mutex_locked = True, mutex_data = 15, guards = [2 \<mapsto> True]\<rparr>"

lemma example_run: "run_events example_events (MakeMutex 5) = Some example_mutex"
  by (auto simp: example_events_def example_mutex_def MakeMutex_def LockMutex_def Modify_def Deref_def
      MoveGuard_def DestroyGuard_def)

theorem critical_sections_serialize_witness:
  "run_serially (sections_of example_events) 5 = 15 \<and> opened (sections_of example_events) = [0, 1]"
  using critical_sections_serialize [OF example_run]
  by (simp add: example_mutex_def) (simp add: sections_of_def example_events_def)

end
