(* ===== verification/LockOrder.thy ===== *)
theory LockOrder
  imports Mutex
begin

text \<open>
  Which locks the operations hold while they take others (src/src/proto_iceberg_catalog.cpp,
  src/src/proto_iceberg_schema_entry.cpp, src/src/proto_iceberg_transaction.cpp). The locks are not
  recursive, so a thread that waits for a lock can only go on when another releases it. The lemmas show
  that every operation takes its locks in one order and that therefore any number of threads running
  any operations finish.

  Parameter: what DuckDB's callbacks do while \<open>ScanSchemas\<close> and \<open>Scan\<close> hold their lock.
\<close>

section \<open>Locks and their order\<close>

text \<open>
  The transaction manager's \<open>transactions_\<close>, a transaction's \<open>schema_state_\<close>, the \<open>tables_\<close> of a schema
  of a transaction, and the catalog's \<open>catalog_\<close>.
\<close>

datatype lock_id =
    TransactionsLock
  | SchemasLock nat
  | TablesLock nat string
  | CatalogLock

fun lock_rank :: "lock_id \<Rightarrow> nat \<times> nat \<times> string" where
  "lock_rank TransactionsLock = (0, 0, [])"
| "lock_rank (SchemasLock txn) = (1, txn, [])"
| "lock_rank (TablesLock txn schema) = (2, txn, schema)"
| "lock_rank CatalogLock = (3, 0, [])"

definition rank_less :: "nat \<times> nat \<times> string \<Rightarrow> nat \<times> nat \<times> string \<Rightarrow> bool" where
  "rank_less = (\<lambda>(a, b, c) (a', b', c'). a < a' \<or> a = a' \<and> (b < b' \<or> b = b' \<and> c < c'))"

instantiation lock_id :: linorder
begin

definition less_lock_id :: "lock_id \<Rightarrow> lock_id \<Rightarrow> bool" where
  "less_lock_id l l' = rank_less (lock_rank l) (lock_rank l')"

definition less_eq_lock_id :: "lock_id \<Rightarrow> lock_id \<Rightarrow> bool" where
  "less_eq_lock_id l l' = (l = l' \<or> rank_less (lock_rank l) (lock_rank l'))"

instance
proof
  fix a b c :: lock_id
  show "(a < b) = (a \<le> b \<and> \<not> b \<le> a)"
    by (cases a; cases b) (auto simp: less_lock_id_def less_eq_lock_id_def rank_less_def)
  show "a \<le> a" by (simp add: less_eq_lock_id_def)
  show "a \<le> b \<Longrightarrow> b \<le> c \<Longrightarrow> a \<le> c"
    by (cases a; cases b; cases c) (auto simp: less_eq_lock_id_def rank_less_def)
  show "a \<le> b \<Longrightarrow> b \<le> a \<Longrightarrow> a = b"
    by (cases a; cases b) (auto simp: less_eq_lock_id_def rank_less_def)
  show "a \<le> b \<or> b \<le> a"
    by (cases a; cases b) (auto simp: less_eq_lock_id_def rank_less_def)
qed

end

section \<open>What the operations lock\<close>

text \<open>
  The locks an operation takes and releases, in order. Releasing is the destruction of the guard, also
  when an exception leaves the operation; a branch that throws or returns early takes fewer locks,
  which the flags \<open>asks\<close> and \<open>loads\<close> (whether the service is asked) and the callbacks' locks describe.
\<close>

datatype lock_action = Acquire lock_id | Release lock_id

type_synonym lock_program = "lock_action list"

definition locked_for :: "lock_id \<Rightarrow> lock_program \<Rightarrow> lock_program" where
  "locked_for l inner = Acquire l # inner @ [Release l]"

definition ask_service :: "bool \<Rightarrow> lock_program" where
  "ask_service asks = (if asks then locked_for CatalogLock [] else [])"

definition ManagerLocks :: lock_program where
  "ManagerLocks = locked_for TransactionsLock []"

definition LookupSchemaLocks :: "nat \<Rightarrow> lock_program" where
  "LookupSchemaLocks txn = locked_for (SchemasLock txn) []"

definition ScanSchemasLocks :: "nat \<Rightarrow> bool \<Rightarrow> lock_program \<Rightarrow> lock_program" where
  "ScanSchemasLocks txn asks callbacks = locked_for (SchemasLock txn) (ask_service asks @ callbacks)"

definition LookupEntryLocks :: "nat \<Rightarrow> string \<Rightarrow> bool \<Rightarrow> lock_program" where
  "LookupEntryLocks txn schema loads = locked_for (TablesLock txn schema) (ask_service loads)"

definition ScanLocks :: "nat \<Rightarrow> string \<Rightarrow> bool \<Rightarrow> lock_program \<Rightarrow> lock_program" where
  "ScanLocks txn schema asks callbacks = locked_for (TablesLock txn schema) (ask_service asks @ callbacks)"

section \<open>Threads\<close>

text \<open>
  A thread is the locks it holds, the last one first, and what it has still to do. It takes a step by
  itself, unless it waits for a lock that some thread holds, itself included.
\<close>

record thread =
  held :: "lock_id list"
  todo :: lock_program

definition waits :: "thread list \<Rightarrow> thread \<Rightarrow> bool" where
  "waits ts t = (case todo t of Acquire l # _ \<Rightarrow> l \<in> (\<Union>u \<in> set ts. set (held u)) | _ \<Rightarrow> False)"

definition do_action :: "thread \<Rightarrow> thread" where
  "do_action t =
     (case todo t of
        [] \<Rightarrow> t
      | Acquire l # rest \<Rightarrow> \<lparr>held = l # held t, todo = rest\<rparr>
      | Release l # rest \<Rightarrow> \<lparr>held = remove1 l (held t), todo = rest\<rparr>)"

inductive threads_step :: "thread list \<Rightarrow> thread list \<Rightarrow> bool" where
  step: "i < length ts \<Longrightarrow> todo (ts ! i) \<noteq> [] \<Longrightarrow> \<not> waits ts (ts ! i) \<Longrightarrow>
    threads_step ts (ts[i := do_action (ts ! i)])"

inductive_cases threads_stepE: "threads_step ts ts'"

definition start_threads :: "lock_program list \<Rightarrow> thread list" where
  "start_threads programs = map (\<lambda>p. \<lparr>held = [], todo = p\<rparr>) programs"

definition all_finished :: "thread list \<Rightarrow> bool" where
  "all_finished ts \<longleftrightarrow> (\<forall>t \<in> set ts. todo t = [])"

section \<open>Programs in lock order\<close>

text \<open>From the locks held, a program takes only higher ones and releases the last one taken first.\<close>

fun in_order :: "lock_id list \<Rightarrow> lock_program \<Rightarrow> bool" where
  "in_order hs [] \<longleftrightarrow> hs = []"
| "in_order hs (Acquire l # rest) \<longleftrightarrow> (\<forall>h \<in> set hs. h < l) \<and> in_order (l # hs) rest"
| "in_order hs (Release l # rest) \<longleftrightarrow> hs \<noteq> [] \<and> hd hs = l \<and> in_order (tl hs) rest"

text \<open>
  A callback that runs under a lock takes higher locks only, and returns with none of its own. The
  programs of a thread are the operations in any order and number.
\<close>

fun acquired :: "lock_program \<Rightarrow> lock_id list" where
  "acquired [] = []"
| "acquired (Acquire l # rest) = l # acquired rest"
| "acquired (Release l # rest) = acquired rest"

definition locks_above :: "lock_id \<Rightarrow> lock_program \<Rightarrow> bool" where
  "locks_above l p \<longleftrightarrow> in_order [] p \<and> (\<forall>l' \<in> set (acquired p). l < l')"

inductive thread_program :: "lock_program \<Rightarrow> bool" where
  idle: "thread_program []"
| manager: "thread_program p \<Longrightarrow> thread_program (ManagerLocks @ p)"
| lookup_schema: "thread_program p \<Longrightarrow> thread_program (LookupSchemaLocks txn @ p)"
| scan_schemas: "thread_program p \<Longrightarrow> locks_above (SchemasLock txn) callbacks \<Longrightarrow>
    thread_program (ScanSchemasLocks txn asks callbacks @ p)"
| lookup_entry: "thread_program p \<Longrightarrow> thread_program (LookupEntryLocks txn schema loads @ p)"
| scan: "thread_program p \<Longrightarrow> locks_above (TablesLock txn schema) callbacks \<Longrightarrow>
    thread_program (ScanLocks txn schema asks callbacks @ p)"

lemma acquired_append [simp]: "acquired (p @ q) = acquired p @ acquired q"
  by (induction p rule: acquired.induct) auto

lemma in_order_above:
  "in_order gs p \<Longrightarrow> (\<forall>l' \<in> set (acquired p). \<forall>h \<in> set hs. h < l') \<Longrightarrow> in_order hs rest \<Longrightarrow>
   in_order (gs @ hs) (p @ rest)"
proof (induction gs p rule: in_order.induct)
  case (3 gs l rest')
  then show ?case by (cases gs) auto
qed auto

lemma in_order_locked_for:
  "locks_above l inner \<Longrightarrow> in_order [] rest \<Longrightarrow> in_order [] (locked_for l inner @ rest)"
  using in_order_above [of "[]" inner "[l]" "Release l # rest"]
  by (simp add: locked_for_def locks_above_def)

lemma locks_above_Nil [simp]: "locks_above l []"
  by (simp add: locks_above_def)

lemma locks_above_append: "locks_above l p \<Longrightarrow> locks_above l q \<Longrightarrow> locks_above l (p @ q)"
  using in_order_above [of "[]" p "[]" q] by (auto simp: locks_above_def)

lemma lock_order [simp]: "SchemasLock txn < CatalogLock" "TablesLock txn schema < CatalogLock"
  "SchemasLock txn < TablesLock txn' schema"
  by (simp_all add: less_lock_id_def rank_less_def)

lemma ask_service_above: "l < CatalogLock \<Longrightarrow> locks_above l (ask_service asks)"
  by (simp add: ask_service_def locks_above_def locked_for_def)

lemma thread_program_in_order: "thread_program p \<Longrightarrow> in_order [] p"
  by (induction rule: thread_program.induct)
     (auto simp: ManagerLocks_def LookupSchemaLocks_def ScanSchemasLocks_def LookupEntryLocks_def ScanLocks_def
       intro!: in_order_locked_for locks_above_append ask_service_above)

section \<open>Everything finishes\<close>

definition threads_ok :: "thread list \<Rightarrow> bool" where
  "threads_ok ts \<longleftrightarrow> (\<forall>t \<in> set ts. in_order (held t) (todo t))"

definition remaining :: "thread list \<Rightarrow> nat" where
  "remaining ts = (\<Sum>t \<leftarrow> ts. length (todo t))"

lemma do_action_in_order:
  assumes "in_order (held t) (todo t)"
  shows "in_order (held (do_action t)) (todo (do_action t))"
proof (cases "todo t")
  case (Cons a rest)
  then show ?thesis
    using assms by (cases a; cases "held t") (auto simp: do_action_def)
qed (use assms in \<open>simp add: do_action_def\<close>)

lemma do_action_todo: "todo t \<noteq> [] \<Longrightarrow> Suc (length (todo (do_action t))) = length (todo t)"
  by (auto simp: do_action_def split: list.split lock_action.split)

lemma threads_step_ok:
  assumes "threads_step ts ts'" and "threads_ok ts"
  shows "threads_ok ts'"
  using assms(1)
proof (rule threads_stepE)
  fix i assume "ts' = ts[i := do_action (ts ! i)]" and "i < length ts"
  moreover from this assms(2) have "in_order (held (do_action (ts ! i))) (todo (do_action (ts ! i)))"
    by (intro do_action_in_order) (simp add: threads_ok_def)
  ultimately show ?thesis
    using assms(2) set_update_subset_insert [of ts i] by (auto simp: threads_ok_def)
qed

lemma remaining_update:
  "i < length ts \<Longrightarrow> remaining (ts[i := t]) + length (todo (ts ! i)) = remaining ts + length (todo t)"
proof (induction ts arbitrary: i)
  case (Cons u ts)
  then show ?case by (cases i) (auto simp: remaining_def)
qed simp

lemma threads_step_remaining:
  assumes "threads_step ts ts'"
  shows "Suc (remaining ts') = remaining ts"
  using assms
proof (rule threads_stepE)
  fix i assume ts': "ts' = ts[i := do_action (ts ! i)]" and i: "i < length ts" "todo (ts ! i) \<noteq> []"
  show ?thesis
    using remaining_update [OF i(1), of "do_action (ts ! i)"] do_action_todo [OF i(2)] by (simp add: ts')
qed

lemma remaining_0: "remaining ts = 0 \<longleftrightarrow> all_finished ts"
  by (simp add: remaining_def all_finished_def)

lemma holder_unfinished: "threads_ok ts \<Longrightarrow> t \<in> set ts \<Longrightarrow> l \<in> set (held t) \<Longrightarrow> todo t \<noteq> []"
  by (auto simp: threads_ok_def)

lemma some_thread_runs:
  assumes "threads_ok ts" and "\<not> all_finished ts"
  shows "\<exists>ts'. threads_step ts ts'"
proof (rule ccontr)
  assume "\<nexists>ts'. threads_step ts ts'"
  then have stuck: "waits ts t" if "t \<in> set ts" "todo t \<noteq> []" for t
    using that threads_step.step by (metis in_set_conv_nth)
  let ?wanted = "{l. \<exists>t \<in> set ts. \<exists>rest. todo t = Acquire l # rest}"
  have "?wanted \<subseteq> (\<lambda>t. case todo t of Acquire l # _ \<Rightarrow> l) ` set ts" by force
  then have fin: "finite ?wanted" by (rule finite_subset) simp
  obtain t where t: "t \<in> set ts" "todo t \<noteq> []" using assms(2) by (auto simp: all_finished_def)
  then have "?wanted \<noteq> {}"
    using stuck [OF t] by (auto simp: waits_def split: list.splits lock_action.splits)
  then have max: "Max ?wanted \<in> ?wanted" using fin by (rule Max_in [rotated])
  then obtain u rest where u: "u \<in> set ts" "todo u = Acquire (Max ?wanted) # rest" by blast
  with stuck [of u] obtain v where v: "v \<in> set ts" "Max ?wanted \<in> set (held v)" by (auto simp: waits_def)
  from stuck [OF v(1) holder_unfinished [OF assms(1) v]] obtain l rest' where l: "todo v = Acquire l # rest'"
    by (auto simp: waits_def split: list.splits lock_action.splits)
  with assms(1) v have "Max ?wanted < l" by (auto simp: threads_ok_def)
  moreover have "l \<le> Max ?wanted" using v(1) l fin by (intro Max_ge) auto
  ultimately show False by simp
qed

text \<open>
  C8. No deadlock: any number of threads, each running any sequence of the operations, on any
  transactions and schemas and with callbacks that take higher locks only, can always go on in some
  thread until all have finished, and have all finished after as many steps as they have lock
  actions, whatever the interleaving.
\<close>

theorem operations_finish:
  assumes "\<forall>p \<in> set programs. thread_program p" and "(threads_step ^^ n) (start_threads programs) ts"
  shows "n \<le> (\<Sum>p \<leftarrow> programs. length p) \<and>
    (if n = (\<Sum>p \<leftarrow> programs. length p) then all_finished ts else \<exists>ts'. threads_step ts ts')"
proof -
  have "threads_ok (start_threads programs)"
    using assms(1) by (auto simp: threads_ok_def start_threads_def intro: thread_program_in_order)
  with assms(2) have "threads_ok ts \<and> n + remaining ts = remaining (start_threads programs)"
  proof (induction n arbitrary: ts)
    case (Suc n)
    then obtain us where "(threads_step ^^ n) (start_threads programs) us" "threads_step us ts" by auto
    with Suc.IH [OF this(1)] Suc.prems(2) show ?case
      using threads_step_ok [of us ts] threads_step_remaining [of us ts] by simp
  qed simp
  moreover have "remaining (start_threads programs) = (\<Sum>p \<leftarrow> programs. length p)"
    by (simp add: remaining_def start_threads_def comp_def)
  ultimately show ?thesis using some_thread_runs [of ts] remaining_0 [of ts] by auto
qed

section \<open>Two threads\<close>

text \<open>
  One thread lists the schemas and scans one of them from the callback, the other looks a table of that
  schema up; the first has taken the schemas' lock and the second its table lock, so that the first
  will have to wait.
\<close>

definition example_programs :: "lock_program list" where
  "example_programs = [ScanSchemasLocks 1 True (ScanLocks 1 ''sales'' False []), LookupEntryLocks 1 ''sales'' True]"

definition example_threads :: "thread list" where
  "example_threads = [do_action (start_threads example_programs ! 0), do_action (start_threads example_programs ! 1)]"

lemmas example_locks = example_programs_def example_threads_def start_threads_def ScanSchemasLocks_def
  ScanLocks_def LookupEntryLocks_def locked_for_def ask_service_def do_action_def

lemma example_thread_programs: "\<forall>p \<in> set example_programs. thread_program p"
proof -
  have "locks_above (SchemasLock 1) (ScanLocks 1 ''sales'' False [])"
    by (simp add: locks_above_def ScanLocks_def locked_for_def ask_service_def)
  from scan_schemas [OF idle this, of True] lookup_entry [OF idle, of 1 "''sales''" True]
  show ?thesis by (simp add: example_programs_def)
qed

lemma example_steps: "(threads_step ^^ 2) (start_threads example_programs) example_threads"
proof -
  let ?ts = "start_threads example_programs"
  have "threads_step ?ts (?ts[0 := do_action (?ts ! 0)])"
    by (rule step) (simp_all add: example_locks waits_def)
  moreover have "threads_step (?ts[0 := do_action (?ts ! 0)])
      (?ts[0 := do_action (?ts ! 0), 1 := do_action (?ts[0 := do_action (?ts ! 0)] ! 1)])"
    by (rule step) (simp_all add: example_locks waits_def)
  moreover have "?ts[0 := do_action (?ts ! 0), 1 := do_action (?ts[0 := do_action (?ts ! 0)] ! 1)] = example_threads"
    by (simp add: example_threads_def) (simp add: start_threads_def example_programs_def)
  ultimately show ?thesis by (auto simp: numeral_2_eq_2)
qed

theorem operations_finish_witness:
  "\<exists>ts'. threads_step example_threads ts'"
  using operations_finish [OF example_thread_programs example_steps]
  by (simp add: example_locks)

end
