(* ===== verification/TransactionRun.thy ===== *)
theory TransactionRun
  imports Catalog TableEntry
begin

text \<open>
  A transaction as DuckDB sees it: the calls it makes on the catalog, its schemas and its table entries,
  one after another, and their answers. \<open>do_call\<close> composes the operations of the other theories. The
  operations on schemas and tables hold their lock while they run, and \<open>GetScanFunction\<close>, which takes
  none, is called by the connection's binder, so that the threads' calls are one sequence.
  The lemmas show that every call is a sequence of steps of the catalog and keeps \<open>session_ok\<close>, in which
  each loaded entry is the one its name is found by.
\<close>

section \<open>Calls and answers\<close>

text \<open>What a transaction's calls use: the parameters of the operations, and the time it starts at.\<close>

record ('w, 'tbl, 'm, 'f, 'fs, 'b) setting =
  x_service :: "('w, 'tbl) iceberg_catalog"
  x_tables :: "'tbl iceberg_table"
  x_add_column :: add_column
  x_timestamp :: "64 word"
  x_default_schema :: string
  x_catalog :: catalog
  x_functions :: "('tbl, 'f, 'fs, 'b) scan_functions"
  x_secrets :: "'m secret_manager"
  x_properties :: s3_properties
  x_txn_id :: nat
  x_catalog_name :: string

definition x_start :: "('w, 'tbl, 'm, 'f, 'fs, 'b) setting \<Rightarrow> 64 word" where
  "x_start X = start_timestamp_ms_of (x_timestamp X)"

record ('w, 'tbl, 'm) session =
  sn_schemas :: "'tbl schema_state"
  sn_env :: "'w env"
  sn_names :: "string list"
  sn_manager :: 'm

text \<open>
  A schema entry is reached by the pointer a lookup or scan returned, its name; a table entry by its
  schema and its reference. A call through a pointer that was never returned is no call.
\<close>

datatype call =
    CallLookupSchema string on_entry_not_found
  | CallScanSchemas
  | CallLookupEntry string catalog_type string
  | CallScan string catalog_type
  | CallGetScanFunction string nat

datatype ('tbl, 'f, 'b) answer =
    FoundSchema "string option throws"
  | VisitedSchemas "string list throws"
  | FoundEntry "(nat \<times> 'tbl table_entry) option throws"
  | VisitedEntries "(nat \<times> 'tbl table_entry) list throws"
  | FoundScan "(('tbl, 'f) table_function \<times> 'b) throws"
  | NoPointer

definition with_schema ::
  "string \<Rightarrow> ('tbl schema_entry \<Rightarrow> ('tbl, 'f, 'b) answer \<times> ('w, 'tbl, 'm) session) \<Rightarrow>
   ('w, 'tbl, 'm) session \<Rightarrow> ('tbl, 'f, 'b) answer \<times> ('w, 'tbl, 'm) session" where
  "with_schema n body s =
     (case SchemasLookup (sn_schemas s) n of None \<Rightarrow> (NoPointer, s) | Some se \<Rightarrow> body se)"

fun do_call ::
  "('w, 'tbl, 'm, 'f, 'fs, 'b) setting \<Rightarrow> call \<Rightarrow> ('w, 'tbl, 'm) session \<Rightarrow>
   ('tbl, 'f, 'b) answer \<times> ('w, 'tbl, 'm) session" where
  "do_call X (CallLookupSchema name if_not_found) s =
     (case LookupSchema (x_default_schema X) (x_catalog X) name if_not_found (sn_schemas s) of
        (r, st) \<Rightarrow> (FoundSchema r, s\<lparr>sn_schemas := st\<rparr>))"
| "do_call X CallScanSchemas s =
     (case ScanSchemas (x_service X) (\<lambda>n ns. Inr (ns @ [n])) [] (sn_schemas s) (sn_env s) of
        (r, st, env) \<Rightarrow> (VisitedSchemas r, s\<lparr>sn_schemas := st, sn_env := env\<rparr>))"
| "do_call X (CallLookupEntry n type t) s =
     with_schema n (\<lambda>se.
       case LookupEntry (x_service X) (x_tables X) (x_add_column X) (x_start X) type t se (sn_env s) of
         (r, se, env) \<Rightarrow>
           (FoundEntry (map_sum id (map_option (\<lambda>i. (i, deref (tables se) i))) r),
            s\<lparr>sn_schemas := SchemasStore n se (sn_schemas s), sn_env := env\<rparr>)) s"
| "do_call X (CallScan n type) s =
     with_schema n (\<lambda>se.
       case Scan (x_service X) (x_add_column X) type (\<lambda>i is. Inr (is @ [i])) [] se (sn_env s) of
         (r, se, env) \<Rightarrow>
           (VisitedEntries (map_sum id (map (\<lambda>i. (i, deref (tables se) i))) r),
            s\<lparr>sn_schemas := SchemasStore n se (sn_schemas s), sn_env := env\<rparr>)) s"
| "do_call X (CallGetScanFunction n i) s =
     with_schema n (\<lambda>se.
       if length (reg_entries (tables se)) \<le> i then (NoPointer, s)
       else
         case GetScanFunction (x_functions X) (x_secrets X) (x_tables X) (x_properties X) (x_txn_id X)
                (x_catalog_name X) i (tables se) (sn_names s) (sn_manager s) of
           (r, reg, names, m) \<Rightarrow>
             (FoundScan r, s\<lparr>sn_schemas := SchemasStore n (se\<lparr>tables := reg\<rparr>) (sn_schemas s),
                              sn_names := names, sn_manager := m\<rparr>)) s"

text \<open>The session a new transaction starts from; the service and the process are as they are.\<close>

definition begin_session ::
  "('w, 'tbl, 'm, 'f, 'fs, 'b) setting \<Rightarrow> 'w env \<Rightarrow> 'm \<Rightarrow> ('w, 'tbl, 'm) session" where
  "begin_session X env m =
     \<lparr>sn_schemas = schema_state (ProtoIcebergTransaction (x_timestamp X)), sn_env = env, sn_names = [],
      sn_manager = m\<rparr>"

section \<open>Calls are steps of the catalog\<close>

abbreviation session_steps where
  "session_steps X s s' \<equiv>
     catalog_steps (x_service X) (x_tables X) (x_add_column X) (x_start X) (x_default_schema X) (x_catalog X)
       (sn_schemas s, sn_env s) (sn_schemas s', sn_env s')"

lemma csteps_one: "catalog_step C T A start D cat x y \<Longrightarrow> catalog_steps C T A start D cat x y"
  using csteps_step [OF csteps_refl] .

lemma csteps_trans:
  "catalog_steps C T A start D cat x y \<Longrightarrow> catalog_steps C T A start D cat y z \<Longrightarrow>
   catalog_steps C T A start D cat x z"
  by (simp add: catalog_steps_rtranclp)

text \<open>The state a scan leaves does not depend on its callback, so any callback makes a step.\<close>

lemma Scan_is_step:
  assumes "Scan C A ty callback s se env = (r, se', env')"
  shows "schema_step C T A start (se, env) (se', env')"
proof -
  obtain r1 se1 env1 where unit: "Scan C A ty (\<lambda>_ _. Inr ()) () se env = (r1, se1, env1)"
    using prod_cases3 by blast
  moreover have "snd (Scan C A ty (\<lambda>_ _. Inr ()) () se env) = snd (Scan C A ty callback s se env)"
    by (simp only: Scan_state)
  then have "se1 = se'" and "env1 = env'" by (simp_all only: unit assms snd_conv prod.inject)
  ultimately show ?thesis using step_scan [OF unit] by simp
qed

lemma ScanSchemas_is_step:
  assumes "ScanSchemas C callback s st env = (r, st', env')"
  shows "catalog_step C T A start D cat (st, env) (st', env')"
proof -
  obtain r1 st1 env1 where unit: "ScanSchemas C (\<lambda>_ _. Inr ()) () st env = (r1, st1, env1)"
    using prod_cases3 by blast
  moreover have "snd (ScanSchemas C (\<lambda>_ _. Inr ()) () st env) = snd (ScanSchemas C callback s st env)"
    by (simp only: ScanSchemas_state)
  then have "st1 = st'" and "env1 = env'" by (simp_all only: unit assms snd_conv prod.inject)
  ultimately show ?thesis using cstep_scan [OF unit] by simp
qed

lemma do_call_cases [consumes 1, case_names nothing lookup_schema scan_schemas lookup scan get_scan]:
  assumes "do_call X c s = (a, s')"
  obtains "a = NoPointer" "s' = s"
  | name if_not_found r st where "c = CallLookupSchema name if_not_found" "a = FoundSchema r"
      "LookupSchema (x_default_schema X) (x_catalog X) name if_not_found (sn_schemas s) = (r, st)"
      "s' = s\<lparr>sn_schemas := st\<rparr>"
  | r st env where "c = CallScanSchemas" "a = VisitedSchemas r"
      "ScanSchemas (x_service X) (\<lambda>n ns. Inr (ns @ [n])) [] (sn_schemas s) (sn_env s) = (r, st, env)"
      "s' = s\<lparr>sn_schemas := st, sn_env := env\<rparr>"
  | n ty t se r se' env where "c = CallLookupEntry n ty t" "SchemasLookup (sn_schemas s) n = Some se"
      "LookupEntry (x_service X) (x_tables X) (x_add_column X) (x_start X) ty t se (sn_env s) = (r, se', env)"
      "a = FoundEntry (map_sum id (map_option (\<lambda>i. (i, deref (tables se') i))) r)"
      "s' = s\<lparr>sn_schemas := SchemasStore n se' (sn_schemas s), sn_env := env\<rparr>"
  | n ty se r se' env where "c = CallScan n ty" "SchemasLookup (sn_schemas s) n = Some se"
      "Scan (x_service X) (x_add_column X) ty (\<lambda>i is. Inr (is @ [i])) [] se (sn_env s) = (r, se', env)"
      "a = VisitedEntries (map_sum id (map (\<lambda>i. (i, deref (tables se') i))) r)"
      "s' = s\<lparr>sn_schemas := SchemasStore n se' (sn_schemas s), sn_env := env\<rparr>"
  | n i se r reg names m where "c = CallGetScanFunction n i" "SchemasLookup (sn_schemas s) n = Some se"
      "i < length (reg_entries (tables se))"
      "GetScanFunction (x_functions X) (x_secrets X) (x_tables X) (x_properties X) (x_txn_id X)
         (x_catalog_name X) i (tables se) (sn_names s) (sn_manager s) = (r, reg, names, m)"
      "a = FoundScan r"
      "s' = s\<lparr>sn_schemas := SchemasStore n (se\<lparr>tables := reg\<rparr>) (sn_schemas s), sn_names := names, sn_manager := m\<rparr>"
proof (cases c)
  case (CallLookupSchema name if_not_found)
  with assms show ?thesis by (auto split: prod.splits intro: that(2))
next
  case CallScanSchemas
  with assms show ?thesis by (auto split: prod.splits intro: that(3))
next
  case (CallLookupEntry n ty t)
  show ?thesis
  proof (cases "SchemasLookup (sn_schemas s) n")
    case None
    with assms CallLookupEntry show ?thesis by (auto simp: with_schema_def intro: that(1))
  next
    case (Some se)
    with assms CallLookupEntry show ?thesis
      by (auto simp: with_schema_def split: prod.splits intro: that(4))
  qed
next
  case (CallScan n ty)
  show ?thesis
  proof (cases "SchemasLookup (sn_schemas s) n")
    case None
    with assms CallScan show ?thesis by (auto simp: with_schema_def intro: that(1))
  next
    case (Some se)
    with assms CallScan show ?thesis by (auto simp: with_schema_def split: prod.splits intro: that(5))
  qed
next
  case (CallGetScanFunction n i)
  show ?thesis
  proof (cases "SchemasLookup (sn_schemas s) n")
    case None
    with assms CallGetScanFunction show ?thesis by (auto simp: with_schema_def intro: that(1))
  next
    case (Some se)
    with assms CallGetScanFunction show ?thesis
      by (cases "length (reg_entries (tables se)) \<le> i")
        (auto simp: with_schema_def not_le split: prod.splits intro: that(1) that(6))
  qed
qed

text \<open>Scanning an entry only notes that its secret exists.\<close>

lemma GetScanFunction_is_step:
  assumes "GetScanFunction F M Tb P txn_id c i (tables se) names m = (r, reg, names', m')"
  shows "schema_step C T A start (se, env) (se\<lparr>tables := reg\<rparr>, env)"
proof -
  from GetScanFunction_state [OF assms] have "reg = tables se \<or> reg = SetHasSecret i (tables se)"
    by blast
  then show ?thesis
  proof
    assume "reg = tables se"
    then have "se\<lparr>tables := reg\<rparr> = se" by simp
    then show ?thesis using step_elsewhere [of C T A start se env env] by simp
  next
    assume "reg = SetHasSecret i (tables se)"
    then show ?thesis using step_secret [of C T A start se env i] by simp
  qed
qed

lemma do_call_steps:
  assumes "do_call X c s = (a, s')"
  shows "session_steps X s s'"
  using assms
proof (cases rule: do_call_cases)
  case nothing
  then show ?thesis by simp
next
  case (lookup_schema name if_not_found r st)
  then show ?thesis using csteps_one [OF cstep_lookup [OF lookup_schema(3)]] by simp
next
  case (scan_schemas r st env)
  then show ?thesis using csteps_one [OF ScanSchemas_is_step [OF scan_schemas(3)]] by simp
next
  case (lookup n ty t se r se' env)
  then show ?thesis using csteps_one [OF cstep_schema [OF lookup(2) step_lookup [OF lookup(3)]]] by simp
next
  case (scan n ty se r se' env)
  then show ?thesis using csteps_one [OF cstep_schema [OF scan(2) Scan_is_step [OF scan(3)]]] by simp
next
  case (get_scan n i se r reg names m)
  then show ?thesis
    using csteps_one [OF cstep_schema [OF get_scan(2) GetScanFunction_is_step [OF get_scan(4)]]] by simp
qed

lemma run_steps: "run_all (do_call X) cs s = (as, s') \<Longrightarrow> session_steps X s s'"
proof (induction cs arbitrary: s as)
  case (Cons c cs)
  then show ?case by (blast elim: run_all_ConsE intro: csteps_trans [OF do_call_steps])
qed simp

section \<open>One loaded entry for each table\<close>

text \<open>
  An entry that is loaded is the one its name is found by, so that a transaction never holds two
  versions of a table.
\<close>

definition one_version :: "'tbl registry \<Rightarrow> bool" where
  "one_version reg \<longleftrightarrow>
     (\<forall>i < length (reg_entries reg). \<not> NeedsLoad (deref reg i) \<longrightarrow>
        RegistryLookup reg (te_name (deref reg i)) = Positive i)"

lemma one_version_empty [simp]: "one_version empty_registry"
  by (simp add: one_version_def empty_registry_def)

text \<open>Storing an entry or a miss is safe for a name that has no loaded entry.\<close>

lemma one_version_Store:
  assumes "one_version reg"
    and "\<And>i. RegistryLookup reg (te_name entry) = Positive i \<Longrightarrow> NeedsLoad (deref reg i)"
  shows "one_version (snd (RegistryStore entry reg))"
  using assms by (fastforce simp: one_version_def less_Suc_eq deref_Store_other)

lemma one_version_MarkMissing:
  assumes "one_version reg" and "\<And>i. RegistryLookup reg t = Positive i \<Longrightarrow> NeedsLoad (deref reg i)"
  shows "one_version (MarkMissing t reg)"
  using assms by (fastforce simp: one_version_def deref_def)

lemma one_version_SetHasSecret: "one_version reg \<Longrightarrow> one_version (SetHasSecret i reg)"
  by (auto simp: one_version_def deref_SetHasSecret NeedsLoad_def)

lemma StorePlaceholders_one_version:
  "StorePlaceholders A children reg = (r, reg') \<Longrightarrow> one_version reg \<Longrightarrow> one_version reg'"
proof (induction A children reg arbitrary: r reg' rule: StorePlaceholders.induct)
  case (2 A child children reg)
  then have "one_version (snd (RegistryStore (ProtoIcebergTableEntry (ident_name child) columns None) reg))"
    if "RegistryLookup reg (ident_name child) = Unknown" for columns
    using that by (intro one_version_Store) (simp_all add: ProtoIcebergTableEntry_def)
  with 2 show ?case by (auto split: if_splits sum.splits)
qed simp

lemma LoadTableEntry_one_version:
  assumes "LoadTableEntry C T A start t se env = (r, se', env')" and "one_version (tables se)"
    and "\<And>i. RegistryLookup (tables se) t = Positive i \<Longrightarrow> NeedsLoad (deref (tables se) i)"
  shows "one_version (tables se')"
  using assms(1)
proof (cases rule: LoadTableEntry_cases)
  case missing
  then show ?thesis using assms(2,3) by (simp add: one_version_MarkMissing)
next
  case (threw e)
  then show ?thesis using assms(2) by simp
next
  case (loaded table info columns)
  have "one_version (snd (RegistryStore (ProtoIcebergTableEntry t columns (Some info)) (tables se)))"
    using assms(2,3) by (intro one_version_Store) (simp_all add: ProtoIcebergTableEntry_def)
  then show ?thesis by (simp add: loaded(5))
qed

lemma ListOnce_one_version:
  assumes "ListOnce C A se env = (r, se', env')" and "one_version (tables se)"
  shows "one_version (tables se')"
  using assms(1)
proof (cases rule: ListOnce_cases)
  case (stopped children e reg)
  have "one_version (MarkListed (tables se))" using assms(2) by (simp add: one_version_def)
  from StorePlaceholders_one_version [OF stopped(4) this] show ?thesis by (simp add: stopped(3))
next
  case (listed children u reg)
  have "one_version (MarkListed (tables se))" using assms(2) by (simp add: one_version_def)
  from StorePlaceholders_one_version [OF listed(5) this] show ?thesis by (simp add: listed(3))
qed (simp_all add: assms(2) MarkNamespaceMissing_def)

lemma schema_step_one_version:
  assumes "schema_step C T A start x y" and "one_version (tables (fst x))"
  shows "one_version (tables (fst y))"
  using assms(1)
proof (cases rule: schema_step.cases)
  case (step_lookup ty t se env r se' env')
  then show ?thesis
    using assms(2) LoadTableEntry_one_version [of C T A start t se env r se' env']
    by (auto simp: LookupEntry_def split: if_splits lookup_result.splits)
next
  case (step_scan ty callback se env r se' env')
  then have state: "(se', env') = snd (Scan C A ty callback () se env)" by simp
  obtain l se1 env1 where list: "ListOnce C A se env = (l, se1, env1)" using prod_cases3 by blast
  then have "one_version (tables se1)" using ListOnce_one_version assms(2) step_scan(1) by auto
  then show ?thesis
    using step_scan(1,2) assms(2) state by (auto simp: Scan_state list split: if_splits)
qed (use assms(2) in \<open>simp_all add: MarkNamespaceMissing_def one_version_SetHasSecret\<close>)

section \<open>The invariant of a session\<close>

text \<open>What holds of every schema entry, once it holds of a new one and every step keeps it.\<close>

lemma catalog_step_all:
  assumes "catalog_step C T A start D cat x y" and "schemas_ok (fst x)"
    and all: "\<And>n se. SchemasLookup (fst x) n = Some se \<Longrightarrow> Q se"
    and new: "\<And>n. Q (MakeSchemaEntry n)"
    and step: "\<And>se env se' env'. schema_step C T A start (se, env) (se', env') \<Longrightarrow> Q se \<Longrightarrow> Q se'"
    and find: "SchemasLookup (fst y) n = Some se"
  shows "Q se"
  using assms(1)
proof (cases rule: catalog_step.cases)
  case (cstep_lookup name if_not_found st r st' env)
  then show ?thesis
    using all new find by (auto simp: LookupSchema_resolved Let_def split: if_splits)
next
  case (cstep_scan callback st env r st' env')
  obtain l st1 env1 where list: "ListSchemasOnce C st env = (l, st1, env1)" using prod_cases3 by blast
  have st': "st' = st1"
    using cstep_scan(3) ScanSchemas_state [of C callback "()" st env] by (simp add: list)
  have ok: "schemas_ok st" using assms(2) cstep_scan(1) by simp
  from list ok show ?thesis
  proof (cases rule: ListSchemasOnce_cases)
    case (listed namespaces)
    have "Q (MarkNamespaceMissing e)" if "SchemasLookup st n = Some e" for e
      using step [OF step_missing] all that cstep_scan(1) by auto
    then show ?thesis
      using listed(6) [of n] find all new cstep_scan(1,2) st'
      by (auto split: if_splits option.splits)
  qed (use find all cstep_scan(1,2) st' in auto)
next
  case (cstep_schema st m se0 env se' env')
  then show ?thesis
    using all find step [OF cstep_schema(4)] by (auto split: if_splits)
qed

definition transaction_ok ::
  "('w, 'tbl, 'm, 'f, 'fs, 'b) setting \<Rightarrow> 'tbl schema_state \<Rightarrow> bool" where
  "transaction_ok X st \<longleftrightarrow>
     schemas_ok st \<and>
     (\<forall>n se. SchemasLookup st n = Some se \<longrightarrow>
        one_version (tables se) \<and>
        (appends_column (x_add_column X) \<longrightarrow> entries_ok (x_tables X) (x_start X) (tables se)))"

definition session_ok :: "('w, 'tbl, 'm, 'f, 'fs, 'b) setting \<Rightarrow> ('w, 'tbl, 'm) session \<Rightarrow> bool" where
  "session_ok X s \<longleftrightarrow> transaction_ok X (sn_schemas s)"

lemma session_okD:
  assumes "session_ok X s"
  shows "schemas_ok (sn_schemas s)"
    and "SchemasLookup (sn_schemas s) n = Some se \<Longrightarrow> one_version (tables se)"
    and "SchemasLookup (sn_schemas s) n = Some se \<Longrightarrow> se_name se = n \<and> registry_ok (tables se)"
    and "SchemasLookup (sn_schemas s) n = Some se \<Longrightarrow> appends_column (x_add_column X) \<Longrightarrow>
      entries_ok (x_tables X) (x_start X) (tables se)"
  using assms schemas_okD unfolding session_ok_def transaction_ok_def by blast+

lemma catalog_step_session_ok:
  assumes "catalog_step (x_service X) (x_tables X) (x_add_column X) (x_start X) D cat
      (sn_schemas s, env) (st', env')"
    and "session_ok X s"
  shows "session_ok X (s'\<lparr>sn_schemas := st'\<rparr>)"
proof -
  let ?Q = "\<lambda>se. one_version (tables se) \<and>
    (appends_column (x_add_column X) \<longrightarrow> entries_ok (x_tables X) (x_start X) (tables se))"
  have new: "?Q (MakeSchemaEntry n)" for n
    by (simp add: MakeSchemaEntry_def ProtoIcebergSchemaEntry_def)
  have step: "?Q se'" if "schema_step (x_service X) (x_tables X) (x_add_column X) (x_start X) (se, env) (se', env')"
    and "?Q se" for se env se' env'
    using schema_step_one_version [OF that(1)] schema_step_entries_ok [OF that(1)] that(2) by simp
  have "?Q se" if "SchemasLookup st' n = Some se" for n se
    by (rule catalog_step_all [where Q = ?Q, OF assms(1) _ _ new step])
      (use session_okD [OF assms(2)] that in auto)
  moreover have "schemas_ok st'"
    using catalog_step_later [OF assms(1)] session_okD(1) [OF assms(2)] by (simp add: schemas_later_def)
  ultimately show ?thesis by (simp add: session_ok_def transaction_ok_def)
qed

lemma session_ok_schemas: "session_ok X s \<longleftrightarrow> session_ok X (s'\<lparr>sn_schemas := sn_schemas s\<rparr>)"
  by (simp add: session_ok_def transaction_ok_def)

lemma catalog_steps_session_ok:
  assumes "catalog_steps (x_service X) (x_tables X) (x_add_column X) (x_start X) D cat x y"
    and "session_ok X (s\<lparr>sn_schemas := fst x\<rparr>)"
  shows "session_ok X (s\<lparr>sn_schemas := fst y\<rparr>)"
  using assms
proof (induction rule: catalog_steps.induct)
  case (csteps_step x y z)
  then show ?case
    using catalog_step_session_ok [where s = "s\<lparr>sn_schemas := fst y\<rparr>" and env = "snd y" and st' = "fst z"
        and env' = "snd z" and s' = s] by simp
qed

text \<open>Every run of calls keeps the invariant.\<close>

interpretation session: call_system "do_call X" "session_ok X" for X
proof
  fix s c a s'
  assume "session_ok X s" and "do_call X c s = (a, s')"
  then show "session_ok X s'"
    using catalog_steps_session_ok [OF do_call_steps, of X c s a s' s']
    by (simp add: session_ok_schemas [of X s s'])
qed

lemma session_ok_begin [simp]: "session_ok X (begin_session X env m)"
  by (simp add: session_ok_def transaction_ok_def begin_session_def ProtoIcebergTransaction_def schemas_ok_def SchemasLookup_def)

section \<open>A concrete transaction\<close>

text \<open>
  A schema is looked up, a table in it is loaded and scanned, in a transaction that starts between the
  table's two snapshots.
\<close>

definition example_setting ::
  "(nat, nat, string set \<times> string set, unit, unit, unit) setting" where
  "example_setting = \<lparr>x_service = example_catalog, x_tables = example_table,
     x_add_column = example_add_column, x_timestamp = 200000, x_default_schema = ''main'',
     x_catalog = example_cat, x_functions = example_scan_functions, x_secrets = example_manager,
     x_properties = example_s3_properties, x_txn_id = 42, x_catalog_name = ''lake''\<rparr>"

definition example_calls :: "call list" where
  "example_calls = [CallLookupSchema ''main'' THROW_EXCEPTION, CallLookupEntry ''sales'' TABLE_ENTRY ''orders'',
     CallGetScanFunction ''sales'' 0]"

definition example_begin :: "(nat, nat, string set \<times> string set) session" where
  "example_begin = begin_session example_setting example_env ({}, {})"

definition example_run where
  "example_run = run_all (do_call example_setting) example_calls example_begin"

lemma example_start [simp]: "x_start example_setting = 200"
  by (simp add: x_start_def example_setting_def start_timestamp_ms_of_def signed_divide_int_def)

lemma example_run_answers:
  "fst example_run = [FoundSchema (Inr (Some ''sales'')),
     FoundEntry (Inr (Some (0, deref (tables example_loaded) 0))), FoundScan (fst example_scan_call)]"
  and example_run_env: "sn_env (snd example_run) = example_loaded_env"
proof -
  let ?stored = "\<lparr>sn_schemas = \<lparr>schemas = [(''sales'', example_schema)], schemas_listed = False\<rparr>,
    sn_env = example_env, sn_names = [], sn_manager = ({}, {})\<rparr> :: (nat, nat, string set \<times> string set) session"
  let ?loaded = "?stored\<lparr>sn_schemas := \<lparr>schemas = [(''sales'', example_loaded)], schemas_listed = False\<rparr>,
    sn_env := example_loaded_env\<rparr>"
  have schema: "do_call example_setting (CallLookupSchema ''main'' THROW_EXCEPTION) example_begin =
      (FoundSchema (Inr (Some ''sales'')), ?stored)"
    by (simp add: example_begin_def begin_session_def ProtoIcebergTransaction_def LookupSchema_resolved
        example_setting_def example_cat_def resolved_def presumed_def SchemasLookup_def SchemasStore_def
        MakeSchemaEntry_def example_schema_def Let_def)
  have entry: "do_call example_setting (CallLookupEntry ''sales'' TABLE_ENTRY ''orders'') ?stored =
      (FoundEntry (Inr (Some (0, deref (tables example_loaded) 0))), ?loaded)"
    using example_lookup example_start
    by (simp add: with_schema_def SchemasLookup_def SchemasStore_def om_find_def example_setting_def)
  obtain r reg names m where scan: "example_scan_call = (r, reg, names, m)" using prod_cases4 by blast
  have "do_call example_setting (CallGetScanFunction ''sales'' 0) ?loaded =
      (FoundScan r, ?loaded\<lparr>sn_schemas := SchemasStore ''sales'' (example_loaded\<lparr>tables := reg\<rparr>)
         (sn_schemas ?loaded), sn_names := names, sn_manager := m\<rparr>)"
    using scan example_loaded_valid
    by (simp add: with_schema_def SchemasLookup_def om_find_def example_setting_def example_scan_call_def)
  then show "fst example_run = [FoundSchema (Inr (Some ''sales'')),
      FoundEntry (Inr (Some (0, deref (tables example_loaded) 0))), FoundScan (fst example_scan_call)]"
    and "sn_env (snd example_run) = example_loaded_env"
    by (simp_all add: example_run_def example_calls_def schema entry scan del: do_call.simps)
qed

end
