(* ===== verification/ServiceRequests.thy ===== *)
theory ServiceRequests
  imports TransactionRun
begin

text \<open>
  How often the service is asked in a transaction, counted in the log of its requests: the operations
  remember what they were told, also that there was nothing.
\<close>

section \<open>How often the service is asked\<close>

text \<open>How often a message has been logged; every request to the service is logged before it is made.\<close>

definition requests :: "log_message \<Rightarrow> 'w env \<Rightarrow> nat" where
  "requests msg env = length (filter (\<lambda>m. m = msg) (log env))"

lemma requests_append:
  "log env' = log env @ msgs \<Longrightarrow> requests msg env' = requests msg env + length (filter (\<lambda>m. m = msg) msgs)"
  by (simp add: requests_def)

lemma LookupEntry_requests:
  assumes "LookupEntry C T A start ty t se env = (r, se', env')"
  shows "requests (LogLoadTable n k) env' = requests (LogLoadTable n k) env +
      of_bool (ty = TABLE_ENTRY \<and> t = k \<and> se_name se = n \<and> \<not> (\<exists>x. settled se t x)) \<and>
    requests (LogListTables n) env' = requests (LogListTables n) env \<and>
    requests LogListNamespaces env' = requests LogListNamespaces env"
proof (cases "ty = TABLE_ENTRY \<and> \<not> (\<exists>x. settled se t x)")
  case True
  then have load: "LoadTableEntry C T A start t se env = (r, se', env')"
    using assms by (simp add: LookupEntry_unsettled)
  obtain msgs where "log env' = log env @ msgs"
    "msgs = [LogLoadTable (se_name se) t] \<or> (\<exists>snap. msgs = [LogLoadTable (se_name se) t, LogPinned (se_name se) t snap])"
    using LoadTableEntry_env [OF load] by blast
  then show ?thesis using True by (auto simp: requests_append)
next
  case False
  have "env' = env"
  proof (cases "ty = TABLE_ENTRY")
    case True
    with False obtain x where "settled se t x" by blast
    with assms True show ?thesis by (simp add: LookupEntry_settled)
  qed (use assms in \<open>simp add: LookupEntry_def\<close>)
  with False show ?thesis by auto
qed

lemma Scan_requests:
  assumes "Scan C A ty callback s se env = (r, se', env')"
  shows "requests (LogListTables n) env' = requests (LogListTables n) env +
      of_bool (ty = TABLE_ENTRY \<and> se_name se = n \<and> \<not> namespace_missing se \<and> \<not> reg_listed (tables se)) \<and>
    requests (LogLoadTable n k) env' = requests (LogLoadTable n k) env \<and>
    requests LogListNamespaces env' = requests LogListNamespaces env"
proof -
  have state: "(se', env') = snd (Scan C A ty callback s se env)" using assms by simp
  obtain l se1 env1 where list: "ListOnce C A se env = (l, se1, env1)" using prod_cases3 by blast
  from list have logs: "log env1 = log env @ (if reg_listed (tables se) then [] else [LogListTables (se_name se)])"
    by (cases rule: ListOnce_cases) simp_all
  then show ?thesis using state by (auto simp: Scan_state list requests_append [OF logs] split: if_splits)
qed

lemma ScanSchemas_requests:
  assumes "ScanSchemas C callback s st env = (r, st', env')"
  shows "requests LogListNamespaces env' = requests LogListNamespaces env + of_bool (\<not> schemas_listed st) \<and>
    requests (LogLoadTable n k) env' = requests (LogLoadTable n k) env \<and>
    requests (LogListTables n) env' = requests (LogListTables n) env"
proof -
  from ScanSchemas_log [OF assms] obtain skipped where logs: "log env' = log env @
      (if schemas_listed st then [] else LogListNamespaces # map LogSkippedNamespace skipped)" by blast
  have "filter (\<lambda>m. m = msg) (map LogSkippedNamespace skipped) = []"
    if "\<And>l. LogSkippedNamespace l \<noteq> msg" for msg
    using that by (auto simp: filter_empty_conv)
  then show ?thesis by (simp add: requests_append [OF logs])
qed

text \<open>
  An answer is known when the table is settled, when the namespace was listed or is missing, and when the
  namespaces were listed.
\<close>

definition table_known :: "string \<Rightarrow> string \<Rightarrow> ('w, 'tbl, 'm) session \<Rightarrow> bool" where
  "table_known n t s \<longleftrightarrow> (\<exists>r. table_settled (sn_schemas s) (n, t) r)"

definition listing_known :: "string \<Rightarrow> ('w, 'tbl, 'm) session \<Rightarrow> bool" where
  "listing_known n s \<longleftrightarrow>
     (\<exists>se. SchemasLookup (sn_schemas s) n = Some se \<and> (namespace_missing se \<or> reg_listed (tables se)))"

definition lookup_failed :: "string \<Rightarrow> string \<Rightarrow> call \<Rightarrow> ('tbl, 'f, 'b) answer \<Rightarrow> bool" where
  "lookup_failed n t c a \<longleftrightarrow> c = CallLookupEntry n TABLE_ENTRY t \<and> (\<exists>e. a = FoundEntry (Inl e))"

definition scan_failed :: "string \<Rightarrow> call \<Rightarrow> ('tbl, 'f, 'b) answer \<Rightarrow> bool" where
  "scan_failed n c a \<longleftrightarrow> c = CallScan n TABLE_ENTRY \<and> (\<exists>e. a = VisitedEntries (Inl e))"

definition scan_schemas_failed :: "call \<Rightarrow> ('tbl, 'f, 'b) answer \<Rightarrow> bool" where
  "scan_schemas_failed c a \<longleftrightarrow> c = CallScanSchemas \<and> (\<exists>e. a = VisitedSchemas (Inl e))"

text \<open>What is known stays known.\<close>

lemma do_call_later:
  "do_call X c s = (a, s') \<Longrightarrow> session_ok X s \<Longrightarrow> schemas_later (sn_schemas s) (sn_schemas s')"
  using catalog_steps_later [OF do_call_steps] session_okD(1) by fastforce

lemma table_known_later:
  assumes "schemas_later (sn_schemas s) (sn_schemas s')" and "table_known n t s"
  shows "table_known n t s'"
proof -
  from assms(2) obtain se r where "SchemasLookup (sn_schemas s) n = Some se" "settled se t r"
    by (auto simp: table_known_def table_settled_def)
  with schemas_later_find [OF assms(1)] show ?thesis
    unfolding table_known_def table_settled_def later_def by fastforce
qed

lemma listing_known_later:
  assumes "schemas_later (sn_schemas s) (sn_schemas s')" and "listing_known n s"
  shows "listing_known n s'"
proof -
  from assms(2) obtain se where se: "SchemasLookup (sn_schemas s) n = Some se"
    and "namespace_missing se \<or> reg_listed (tables se)" by (auto simp: listing_known_def)
  moreover from schemas_later_find [OF assms(1) se] obtain se' where
    "SchemasLookup (sn_schemas s') n = Some se'" "later se se'" by blast
  ultimately show ?thesis unfolding listing_known_def later_def retained_def by blast
qed

text \<open>A call makes a request only when its answer is not known, and knows it then unless it fails.\<close>

interpretation table_requests: asks_once "do_call X" "session_ok X"
  "\<lambda>s. requests (LogLoadTable n t) (sn_env s)" "table_known n t" "lookup_failed n t" for X n t
proof
  fix s c a s'
  assume ok: "session_ok X s" and call: "do_call X c s = (a, s')"
  have stays: "table_known n t s \<Longrightarrow> table_known n t s'"
    using table_known_later [OF do_call_later [OF call ok]] .
  from call show "requests (LogLoadTable n t) (sn_env s') + of_bool (\<not> table_known n t s') \<le>
      requests (LogLoadTable n t) (sn_env s) + of_bool (\<not> table_known n t s) + of_bool (lookup_failed n t c a)"
  proof (cases rule: do_call_cases)
    case (lookup m ty k se r se' env)
    have reg: "se_name se = m" "registry_ok (tables se)" using session_okD(3) [OF ok lookup(2)] by simp_all
    note counts = LookupEntry_requests [OF lookup(3), of n t]
    show ?thesis
    proof (cases "ty = TABLE_ENTRY \<and> k = t \<and> m = n \<and> \<not> table_known n t s")
      case True
      have "table_known n t s'" if "r = Inr x" for x
        using LookupEntry_later [OF lookup(3) reg(2)] that True lookup(5)
        by (auto simp: table_known_def table_settled_def)
      then show ?thesis
        using counts True lookup(1,4,5) by (cases r) (simp_all add: lookup_failed_def)
    next
      case False
      have "ty = TABLE_ENTRY \<Longrightarrow> k = t \<Longrightarrow> se_name se = n \<Longrightarrow> \<exists>x. settled se t x"
        using False reg(1) lookup(2) by (auto simp: table_known_def table_settled_def)
      then have "requests (LogLoadTable n t) env = requests (LogLoadTable n t) (sn_env s)"
        using counts by auto
      then show ?thesis using stays lookup(5) by simp
    qed
  qed (use stays in \<open>auto simp: Scan_requests ScanSchemas_requests\<close>)
qed

interpretation listing_requests: asks_once "do_call X" "session_ok X"
  "\<lambda>s. requests (LogListTables n) (sn_env s)" "listing_known n" "scan_failed n" for X n
proof
  fix s c a s'
  assume ok: "session_ok X s" and call: "do_call X c s = (a, s')"
  have stays: "listing_known n s \<Longrightarrow> listing_known n s'"
    using listing_known_later [OF do_call_later [OF call ok]] .
  from call show "requests (LogListTables n) (sn_env s') + of_bool (\<not> listing_known n s') \<le>
      requests (LogListTables n) (sn_env s) + of_bool (\<not> listing_known n s) + of_bool (scan_failed n c a)"
  proof (cases rule: do_call_cases)
    case (scan m ty se r se' env)
    have reg: "se_name se = m" "registry_ok (tables se)" using session_okD(3) [OF ok scan(2)] by simp_all
    note counts = Scan_requests [OF scan(3), of n]
    show ?thesis
    proof (cases "ty = TABLE_ENTRY \<and> m = n \<and> \<not> listing_known n s")
      case True
      have "listing_known n s'" if "r = Inr x" for x
        using Scan_lists [OF scan(3) [unfolded that True [THEN conjunct1]] reg(2)] scan(5) True
        by (simp add: listing_known_def)
      then show ?thesis
        using counts True scan(1,4,5) by (cases r) (simp_all add: scan_failed_def)
    next
      case False
      have "ty = TABLE_ENTRY \<Longrightarrow> se_name se = n \<Longrightarrow> namespace_missing se \<or> reg_listed (tables se)"
        using False reg(1) scan(2) by (auto simp: listing_known_def)
      then have "requests (LogListTables n) env = requests (LogListTables n) (sn_env s)"
        using counts by auto
      then show ?thesis using stays scan(5) by simp
    qed
  qed (use stays in \<open>auto simp: LookupEntry_requests ScanSchemas_requests\<close>)
qed

interpretation namespace_requests: asks_once "do_call X" "session_ok X"
  "\<lambda>s. requests LogListNamespaces (sn_env s)" "\<lambda>s. schemas_listed (sn_schemas s)" scan_schemas_failed for X
proof
  fix s c a s'
  assume ok: "session_ok X s" and call: "do_call X c s = (a, s')"
  have stays: "schemas_listed (sn_schemas s) \<Longrightarrow> schemas_listed (sn_schemas s')"
    using do_call_later [OF call ok] by (simp add: schemas_later_def)
  from call show "requests LogListNamespaces (sn_env s') + of_bool (\<not> schemas_listed (sn_schemas s')) \<le>
      requests LogListNamespaces (sn_env s) + of_bool (\<not> schemas_listed (sn_schemas s)) +
      of_bool (scan_schemas_failed c a)"
  proof (cases rule: do_call_cases)
    case (scan_schemas r st env)
    have "schemas_listed st" if "r = Inr x" for x
      using ScanSchemas_later [OF scan_schemas(3)] session_okD(1) [OF ok] that by auto
    then show ?thesis
      using ScanSchemas_requests [OF scan_schemas(3)] stays scan_schemas(1,2,4)
      by (cases r) (auto simp: scan_schemas_failed_def)
  qed (use stays in \<open>auto simp: LookupEntry_requests Scan_requests\<close>)
qed

section \<open>Property\<close>

text \<open>
  C12. The service is asked no more than it has to be: in any sequence of a transaction's calls, a table
  is loaded, a namespace's tables are listed and the namespaces are listed at most once, and once more
  for each such call that threw; answers that there is nothing are remembered too.
\<close>

theorem service_asked_once:
  assumes "run_all (do_call X) calls (begin_session X env m) = (answers, s')"
  shows "requests (LogLoadTable n t) (sn_env s') \<le> requests (LogLoadTable n t) env + 1 +
      length (filter (case_prod (lookup_failed n t)) (zip calls answers)) \<and>
    requests (LogListTables n) (sn_env s') \<le> requests (LogListTables n) env + 1 +
      length (filter (case_prod (scan_failed n)) (zip calls answers)) \<and>
    requests LogListNamespaces (sn_env s') \<le> requests LogListNamespaces env + 1 +
      length (filter (case_prod scan_schemas_failed) (zip calls answers))"
  using table_requests.run_asked_bound [OF session_ok_begin assms, of n t]
    listing_requests.run_asked_bound [OF session_ok_begin assms, of n]
    namespace_requests.run_asked_bound [OF session_ok_begin assms]
  by (simp add: begin_session_def)

theorem service_asked_once_witness:
  "requests (LogLoadTable ''sales'' ''orders'') (sn_env (snd example_run)) = 1 \<and>
   requests (LogLoadTable ''sales'' ''orders'') (sn_env (snd example_run)) \<le>
     0 + 1 + length (filter (case_prod (lookup_failed ''sales'' ''orders'')) (zip example_calls (fst example_run)))"
proof -
  have run: "run_all (do_call example_setting) example_calls
      (begin_session example_setting example_env ({}, {})) = (fst example_run, snd example_run)"
    by (simp add: example_run_def example_begin_def)
  have "requests (LogLoadTable ''sales'' ''orders'') example_env = 0"
    by (simp add: requests_def example_env_def)
  with service_asked_once [OF run, of "''sales''" "''orders''"]
  have "requests (LogLoadTable ''sales'' ''orders'') (sn_env (snd example_run)) \<le>
     0 + 1 + length (filter (case_prod (lookup_failed ''sales'' ''orders'')) (zip example_calls (fst example_run)))"
    by simp
  moreover have "requests (LogLoadTable ''sales'' ''orders'') (sn_env (snd example_run)) = 1"
    by (simp add: example_run_env requests_def example_loaded_env_def)
  ultimately show ?thesis by blast
qed

end
