(* ===== verification/S3Finalizer.thy ===== *)
theory S3Finalizer
  imports TransactionRun
begin

text \<open>
  When the S3 finalizer, an object with static storage duration that \<open>RegisterS3Finalizer\<close> makes, is
  registered in a transaction.
\<close>

section \<open>The S3 finalizer\<close>

text \<open>
  What is relied on of iceberg-cpp, with \<open>ready w\<close> for Arrow's S3 having been initialized: loading a table
  initializes it, and nothing the catalog calls finalizes it.
\<close>

definition s3_laws :: "('w, 'tbl) iceberg_catalog \<Rightarrow> ('w \<Rightarrow> bool) \<Rightarrow> bool" where
  "s3_laws C ready \<longleftrightarrow>
     (\<forall>ident w. (ready w \<or> (\<exists>table. fst (LoadTable C ident w) = Inr table)) \<longrightarrow> ready (snd (LoadTable C ident w))) \<and>
     (\<forall>ns w. ready w \<longrightarrow> ready (snd (ListTables C ns w))) \<and>
     (\<forall>ns w. ready w \<longrightarrow> ready (snd (ListNamespaces C ns w)))"

definition has_loaded :: "'tbl registry \<Rightarrow> bool" where
  "has_loaded reg \<longleftrightarrow> (\<exists>i < length (reg_entries reg). \<not> NeedsLoad (deref reg i))"

text \<open>The finalizer is registered only once S3 is initialized, and is when a table has been loaded.\<close>

definition finalizer_ok :: "('w \<Rightarrow> bool) \<Rightarrow> ('w, 'tbl, 'm) session \<Rightarrow> bool" where
  "finalizer_ok ready s \<longleftrightarrow>
     (s3_finalizer (sn_env s) \<longrightarrow> ready (world (sn_env s))) \<and>
     (\<forall>n se. SchemasLookup (sn_schemas s) n = Some se \<longrightarrow> has_loaded (tables se) \<longrightarrow> s3_finalizer (sn_env s))"

lemma has_loaded_Store:
  "has_loaded (snd (RegistryStore entry reg)) \<longleftrightarrow> has_loaded reg \<or> \<not> NeedsLoad entry"
  by (auto simp: has_loaded_def less_Suc_eq deref_Store_other)

lemma has_loaded_simps [simp]:
  "has_loaded (MarkMissing t reg) = has_loaded reg"
  "has_loaded (MarkListed reg) = has_loaded reg"
  "\<not> has_loaded empty_registry"
  by (simp_all add: has_loaded_def deref_def empty_registry_def)

lemma has_loaded_SetHasSecret [simp]: "has_loaded (SetHasSecret i reg) = has_loaded reg"
proof -
  have "NeedsLoad (deref (SetHasSecret i reg) j) = NeedsLoad (deref reg j)" if "j < length (reg_entries reg)" for j
    using that by (simp add: deref_SetHasSecret NeedsLoad_def)
  then show ?thesis by (auto simp: has_loaded_def)
qed

lemma StorePlaceholders_has_loaded:
  "StorePlaceholders A children reg = (r, reg') \<Longrightarrow> has_loaded reg' = has_loaded reg"
proof (induction A children reg arbitrary: r reg' rule: StorePlaceholders.induct)
  case (2 A child children reg)
  then show ?case
    by (auto simp: has_loaded_Store NeedsLoad_def ProtoIcebergTableEntry_def split: if_splits sum.splits)
qed simp

lemma LoadTableEntry_finalizer:
  assumes "LoadTableEntry C T A start t se env = (r, se', env')"
  shows "s3_finalizer env' \<longleftrightarrow> s3_finalizer env \<or>
    (\<exists>table. fst (LoadTable C (GetTableIdentifier (se_name se) t) (world env)) = Inr table)"
  using assms
  by (auto simp: LoadTableEntry_def Let_def call_service_def env_simps
      split: prod.splits sum.splits if_splits dest!: ResolveScanInfo_env)

lemma LookupEntry_finalizer:
  assumes "LookupEntry C T A start ty t se env = (r, se', env')" and "s3_laws C ready"
    and "s3_finalizer env \<longrightarrow> ready (world env)" and "has_loaded (tables se) \<longrightarrow> s3_finalizer env"
  shows "(s3_finalizer env' \<longrightarrow> ready (world env')) \<and> (has_loaded (tables se') \<longrightarrow> s3_finalizer env') \<and>
    (s3_finalizer env \<longrightarrow> s3_finalizer env')"
proof -
  consider "se' = se" "env' = env" | "LoadTableEntry C T A start t se env = (r, se', env')"
    using assms(1) by (auto simp: LookupEntry_def split: if_splits lookup_result.splits)
  then show ?thesis
  proof cases
    case 2
    note fin = LoadTableEntry_finalizer [OF 2]
    have "has_loaded (tables se') \<longrightarrow> s3_finalizer env'"
      using 2
    proof (cases rule: LoadTableEntry_cases)
      case missing
      then show ?thesis using assms(4) fin by simp
    next
      case (threw e)
      then show ?thesis using assms(4) fin by simp
    next
      case (loaded table info columns)
      then show ?thesis using fin by blast
    qed
    moreover have "s3_finalizer env' \<longrightarrow> ready (world env')"
      using assms(2,3) LoadTableEntry_env [OF 2] fin unfolding s3_laws_def by metis
    ultimately show ?thesis using fin by blast
  qed (use assms in simp)
qed

lemma ListOnce_finalizer:
  assumes "ListOnce C A se env = (r, se', env')"
  shows "s3_finalizer env' = s3_finalizer env \<and>
    world env' \<in> {world env, snd (ListTables C (GetNamespace (se_name se)) (world env))} \<and>
    has_loaded (tables se') = has_loaded (tables se)"
proof -
  have "has_loaded (tables se') = has_loaded (tables se)"
    using assms
    by (cases rule: ListOnce_cases)
      (auto simp: MarkNamespaceMissing_def dest: StorePlaceholders_has_loaded)
  moreover have "s3_finalizer env' = s3_finalizer env \<and>
      world env' \<in> {world env, snd (ListTables C (GetNamespace (se_name se)) (world env))}"
    using assms
    by (auto simp: ListOnce_def Let_def call_service_def env_simps split: if_splits prod.splits sum.splits)
  ultimately show ?thesis by blast
qed

lemma Scan_finalizer:
  assumes "Scan C A ty callback s se env = (r, se', env')" and "s3_laws C ready"
  shows "s3_finalizer env' = s3_finalizer env \<and> (ready (world env) \<longrightarrow> ready (world env')) \<and>
    has_loaded (tables se') = has_loaded (tables se)"
proof -
  have state: "(se', env') = snd (Scan C A ty callback s se env)" using assms(1) by simp
  obtain l se1 env1 where list: "ListOnce C A se env = (l, se1, env1)" using prod_cases3 by blast
  from ListOnce_finalizer [OF list] assms(2)
  have "s3_finalizer env1 = s3_finalizer env \<and> (ready (world env) \<longrightarrow> ready (world env1)) \<and>
      has_loaded (tables se1) = has_loaded (tables se)"
    unfolding s3_laws_def by auto
  with state show ?thesis by (auto simp: Scan_state list split: if_splits)
qed

lemma StoreNamespaces_env:
  "StoreNamespaces namespaces names st env = (names', st', env') \<Longrightarrow>
   world env' = world env \<and> s3_finalizer env' = s3_finalizer env"
  by (induction namespaces names st env rule: StoreNamespaces.induct)
    (auto simp: Let_def env_simps split: if_splits)

lemma ScanSchemas_finalizer:
  assumes "ScanSchemas C callback s st env = (r, st', env')" and "s3_laws C ready"
  shows "s3_finalizer env' = s3_finalizer env \<and> (ready (world env) \<longrightarrow> ready (world env'))"
proof -
  obtain l st1 env1 where list: "ListSchemasOnce C st env = (l, st1, env1)" using prod_cases3 by blast
  have "env' = env1" using assms(1) ScanSchemas_state [of C callback s st env] by (simp add: list)
  moreover have "s3_finalizer env1 = s3_finalizer env \<and>
      world env1 \<in> {world env, snd (ListNamespaces C \<lparr>levels = []\<rparr> (world env))}"
    using list
    by (auto simp: ListSchemasOnce_def Let_def call_service_def env_simps
        split: if_splits prod.splits sum.splits dest!: StoreNamespaces_env)
  ultimately show ?thesis using assms(2) unfolding s3_laws_def by auto
qed

text \<open>Looking schemas up and listing them brings no loaded entry.\<close>

lemma LookupSchema_has_loaded:
  "LookupSchema D cat name if_not_found st = (r, st') \<Longrightarrow> SchemasLookup st' n = Some se' \<Longrightarrow>
   has_loaded (tables se') \<Longrightarrow> \<exists>se. SchemasLookup st n = Some se \<and> has_loaded (tables se)"
  by (auto simp: LookupSchema_resolved Let_def MakeSchemaEntry_def ProtoIcebergSchemaEntry_def split: if_splits)

lemma ScanSchemas_has_loaded:
  assumes "ScanSchemas C callback s st env = (r, st', env')" and "schemas_ok st"
    and "SchemasLookup st' n = Some se'" and "has_loaded (tables se')"
  shows "\<exists>se. SchemasLookup st n = Some se \<and> has_loaded (tables se)"
proof -
  obtain l st1 env1 where list: "ListSchemasOnce C st env = (l, st1, env1)" using prod_cases3 by blast
  have st': "st' = st1" using assms(1) ScanSchemas_state [of C callback s st env] by (simp add: list)
  from list assms(2) show ?thesis
  proof (cases rule: ListSchemasOnce_cases)
    case (listed namespaces)
    then show ?thesis
      using listed(6) [of n] assms(3,4) st'
      by (auto simp: MakeSchemaEntry_def ProtoIcebergSchemaEntry_def MarkNamespaceMissing_def
          split: if_splits option.splits)
  qed (use assms(3,4) st' in auto)
qed

lemma do_call_finalizer:
  assumes call: "do_call X c s = (a, s')" and ok: "session_ok X s"
    and laws: "s3_laws (x_service X) ready" and fin: "finalizer_ok ready s"
  shows "finalizer_ok ready s'"
  using call
proof (cases rule: do_call_cases)
  case (lookup_schema name if_not_found r st)
  then show ?thesis
    using fin LookupSchema_has_loaded [OF lookup_schema(3)] by (fastforce simp: finalizer_ok_def)
next
  case (scan_schemas r st env)
  then show ?thesis
    using fin ScanSchemas_has_loaded [OF scan_schemas(3) session_okD(1) [OF ok]]
      ScanSchemas_finalizer [OF scan_schemas(3) laws] by (fastforce simp: finalizer_ok_def)
next
  case (lookup n ty t se r se' env)
  then show ?thesis
    using fin LookupEntry_finalizer [OF lookup(3) laws] by (auto simp: finalizer_ok_def split: if_splits)
next
  case (scan n ty se r se' env)
  then show ?thesis
    using fin Scan_finalizer [OF scan(3) laws] by (auto simp: finalizer_ok_def split: if_splits)
next
  case (get_scan n i se r reg names m)
  then have "has_loaded reg = has_loaded (tables se)"
    using GetScanFunction_state [OF get_scan(4)] by auto
  then show ?thesis
    using fin get_scan by (auto simp: finalizer_ok_def split: if_splits)
qed (use fin in simp)

text \<open>Once registered, the finalizer stays so.\<close>

lemma do_call_registered:
  assumes "do_call X c s = (a, s')" and "s3_finalizer (sn_env s)"
  shows "s3_finalizer (sn_env s')"
  using assms(1)
proof (cases rule: do_call_cases)
  case (lookup n ty t se r se' env)
  then show ?thesis
    using assms(2) LoadTableEntry_finalizer
    by (fastforce simp: LookupEntry_def split: if_splits lookup_result.splits)
next
  case (scan n ty se r se' env)
  have "s3_laws (x_service X) (\<lambda>w. True)" by (simp add: s3_laws_def)
  then show ?thesis using scan(5) assms(2) Scan_finalizer [OF scan(3)] by simp
next
  case (scan_schemas r st env)
  have "s3_laws (x_service X) (\<lambda>w. True)" by (simp add: s3_laws_def)
  then show ?thesis using scan_schemas(4) assms(2) ScanSchemas_finalizer [OF scan_schemas(3)] by simp
qed (use assms(2) in simp_all)

interpretation finalizer: call_system "do_call X"
  "\<lambda>s. session_ok X s \<and> (s3_laws (x_service X) ready \<longrightarrow> finalizer_ok ready s)" for X ready
  by unfold_locales (auto intro: session.call_ok do_call_finalizer)

interpretation registered: call_system "do_call X" "\<lambda>s. s3_finalizer (sn_env s)" for X
  by unfold_locales (auto intro: do_call_registered)

lemma finalizer_ok_begin: "(s3_finalizer env \<longrightarrow> ready (world env)) \<Longrightarrow> finalizer_ok ready (begin_session X env m)"
  by (simp add: finalizer_ok_def begin_session_def ProtoIcebergTransaction_def SchemasLookup_def)

text \<open>A call that gives out a loaded entry or its scan function leaves the finalizer registered.\<close>

lemma do_call_loaded:
  assumes call: "do_call X c s = (a, s')" and ok: "session_ok X s" and fin: "finalizer_ok ready s'"
    and a: "a = FoundEntry (Inr (Some x)) \<or> a = FoundScan (Inr y)"
  shows "s3_finalizer (sn_env s')"
  using call
proof (cases rule: do_call_cases)
  case (lookup n ty t se r se' env)
  have reg: "registry_ok (tables se)" using session_okD(3) [OF ok lookup(2)] by simp
  from a lookup(4) obtain i where r: "r = Inr (Some i)" by (cases r) auto
  then have ty: "ty = TABLE_ENTRY" using lookup(3) by (auto simp: LookupEntry_def split: if_splits)
  from LookupEntry_later [OF lookup(3) reg] ty r
  have "RegistryLookup (tables se') t = Positive i" "\<not> NeedsLoad (deref (tables se') i)" "registry_ok (tables se')"
    by (simp_all add: settled_def later_def)
  then have "has_loaded (tables se')" using registry_okD by (auto simp: has_loaded_def)
  then show ?thesis using fin lookup(5) by (auto simp: finalizer_ok_def split: if_splits)
next
  case (get_scan n i se r reg names m)
  from a get_scan(5) obtain scan b where r: "r = Inr (scan, b)" by (cases y) auto
  have "has_loaded (tables se)"
    using GetScanFunction_returned [OF get_scan(4) [unfolded r] get_scan(3)] get_scan(3)
    by (auto simp: has_loaded_def NeedsLoad_def)
  then have "has_loaded reg" using GetScanFunction_state [OF get_scan(4)] by auto
  then show ?thesis using fin get_scan(6) by (auto simp: finalizer_ok_def split: if_splits)
qed (use a in auto)

section \<open>Property\<close>

text \<open>
  C13. S3 is finalized exactly where it has to be: at every point of a transaction the finalizer, which
  runs when the process ends, is registered only if Arrow's S3 has been initialized before, so that it
  is destroyed first; and it is registered once a call has given out a loaded table or its scan
  function, whatever else failed.
\<close>

theorem s3_finalizer_registered:
  assumes "s3_laws (x_service X) ready" and "s3_finalizer env \<longrightarrow> ready (world env)"
    and "run_all (do_call X) calls (begin_session X env m) = (answers, s')"
  shows "(s3_finalizer (sn_env s') \<longrightarrow> ready (world (sn_env s'))) \<and>
    (\<forall>a \<in> set answers. (\<exists>x. a = FoundEntry (Inr (Some x))) \<or> (\<exists>y. a = FoundScan (Inr y)) \<longrightarrow>
       s3_finalizer (sn_env s'))"
proof -
  have ok: "session_ok X (begin_session X env m) \<and>
      (s3_laws (x_service X) ready \<longrightarrow> finalizer_ok ready (begin_session X env m))"
    using finalizer_ok_begin [of env ready X m] assms(2) by simp
  have "finalizer_ok ready s'" using finalizer.run_ok [OF ok assms(3)] assms(1) by blast
  moreover have "s3_finalizer (sn_env s')"
    if mem: "a \<in> set answers" and a: "a = FoundEntry (Inr (Some x)) \<or> a = FoundScan (Inr y)" for a x y
  proof -
    obtain k where "k < length answers" "answers ! k = a" using mem by (auto simp: in_set_conv_nth)
    then have "(calls ! k, a) \<in> set (zip calls answers)"
      using run_all_length [OF assms(3)] by (auto simp: in_set_zip)
    from finalizer.run_answer [OF ok assms(3) this] obtain s0 s1 cs as where
      s0: "session_ok X s0" and call: "do_call X (calls ! k) s0 = (a, s1)" and s1: "finalizer_ok ready s1"
      and rest: "run_all (do_call X) cs s1 = (as, s')" using assms(1) by blast
    from registered.run_ok [OF do_call_loaded [OF call s0 s1 a] rest] show ?thesis .
  qed
  ultimately show ?thesis unfolding finalizer_ok_def by blast
qed

theorem s3_finalizer_registered_witness:
  "s3_finalizer (sn_env (snd example_run)) \<and> 0 < world (sn_env (snd example_run))"
proof -
  have run: "run_all (do_call example_setting) example_calls
      (begin_session example_setting example_env ({}, {})) = (fst example_run, snd example_run)"
    by (simp add: example_run_def example_begin_def)
  have laws: "s3_laws (x_service example_setting) (\<lambda>calls. 0 < calls)"
    by (simp add: s3_laws_def example_setting_def example_catalog_def)
  have "FoundEntry (Inr (Some (0, deref (tables example_loaded) 0))) \<in> set (fst example_run)"
    by (simp add: example_run_answers)
  with s3_finalizer_registered [OF laws _ run] show ?thesis
    by (fastforce simp: example_env_def)
qed

end
