(* ===== verification/Pushdown.thy ===== *)
theory Pushdown
  imports MultiFileList
begin

text \<open>
  The pushdowns of a scan one after another (src/src/proto_iceberg_multi_file_list.cpp): DuckDB's
  optimizer and its joins push filters into a file list any number of times, and keep the list they have
  when a pushdown returns none. The lemmas show that the table version never changes, that a row which
  all pushed filters keep passes the filters of the list that results, and that its data file is
  among the files that list returns.
\<close>

section \<open>Sequences of pushdowns\<close>

datatype 'x pushdown =
    OptimizerFilters "'x list"
  | DynamicFilters "nat list" table_filter_set

definition push ::
  "('w, 'l) lazy_api \<Rightarrow> 'x pushdown_api \<Rightarrow> 'e expressions \<Rightarrow> 'x pushdown \<Rightarrow>
   ('tbl, 'l) file_list \<times> 'w env \<Rightarrow> ('tbl, 'l) file_list \<times> 'w env" where
  "push L K E p = (\<lambda>(fl, env).
     case (case p of
             OptimizerFilters filters \<Rightarrow> ComplexFilterPushdown L K E filters fl env
           | DynamicFilters col_ids filters \<Rightarrow> DynamicFilterPushdown L K E col_ids filters fl env) of
       (Some fl', env) \<Rightarrow> (fl', env)
     | (None, env) \<Rightarrow> (fl, env))"

definition pushes ::
  "('w, 'l) lazy_api \<Rightarrow> 'x pushdown_api \<Rightarrow> 'e expressions \<Rightarrow> 'x pushdown list \<Rightarrow>
   ('tbl, 'l) file_list \<times> 'w env \<Rightarrow> ('tbl, 'l) file_list \<times> 'w env" where
  "pushes L K E ps s = foldl (\<lambda>s p. push L K E p s) s ps"

text \<open>What a pushdown asks of a row.\<close>

fun pushdown_keeps ::
  "'x pushdown_api \<Rightarrow> 'v filter_semantics \<Rightarrow> iceberg_schema \<Rightarrow> (string \<Rightarrow> 'v) \<Rightarrow> 'x pushdown \<Rightarrow> bool" where
  "pushdown_keeps K D schema r (OptimizerFilters filters) \<longleftrightarrow>
     filters_keep D (GenerateTableScanFilters K filters) schema r"
| "pushdown_keeps K D schema r (DynamicFilters col_ids filters) \<longleftrightarrow>
     dynamic_keep K D col_ids filters schema r"

section \<open>Pushing keeps rows\<close>

lemma ComplexFilterPushdown_list:
  "fst (ComplexFilterPushdown L K E filters fl env) = Some fl' \<Longrightarrow>
   fl' = CreateFilteredList L K (GenerateTableScanFilters K filters) fl"
  by (auto simp: ComplexFilterPushdown_def BuildTableFilterSet_def Let_def split: if_splits option.splits)

lemma filtered_list_same [simp]:
  "fl_scan_info (CreateFilteredList L K fs fl) = fl_scan_info fl"
  "fl_plan (CreateFilteredList L K fs fl) = LazyNew L"
  by (simp_all add: CreateFilteredList_def ProtoIcebergMultiFileList_def Let_def)

lemma push_keeps:
  assumes laws: "pushdown_laws K D" and push: "push L K E p (fl, env) = (fl', env')"
  shows "fl_scan_info fl' = fl_scan_info fl \<and> (fl_plan fl = LazyNew L \<longrightarrow> fl_plan fl' = LazyNew L) \<and>
    (filters_keep D (fl_filters fl) schema r \<longrightarrow> pushdown_keeps K D schema r p \<longrightarrow>
       filters_keep D (fl_filters fl') schema r) \<and>
    (filters_keep D (fl_filters fl') schema r \<longrightarrow> filters_keep D (fl_filters fl) schema r)"
proof (cases p)
  case (OptimizerFilters filters)
  show ?thesis
  proof (cases "fst (ComplexFilterPushdown L K E filters fl env)")
    case None
    then have "fl' = fl" using push OptimizerFilters by (auto simp: push_def split: prod.splits option.splits)
    then show ?thesis by simp
  next
    case (Some fl1)
    then have "fl' = CreateFilteredList L K (GenerateTableScanFilters K filters) fl"
      using push OptimizerFilters ComplexFilterPushdown_list [OF Some]
      by (auto simp: push_def split: prod.splits option.splits)
    then show ?thesis by (simp add: filtered_list_keep [OF laws] OptimizerFilters)
  qed
next
  case (DynamicFilters col_ids filters)
  let ?N = "NewFilters K (fl_filters fl) col_ids filters []"
  show ?thesis
  proof (cases "fst (DynamicFilterPushdown L K E col_ids filters fl env)")
    case None
    then have "fl' = fl" using push DynamicFilters by (auto simp: push_def split: prod.splits option.splits)
    then show ?thesis by simp
  next
    case (Some fl1)
    then have "fl1 = CreateFilteredList L K ?N fl"
      by (auto simp: DynamicFilterPushdown_def Let_def split: if_splits)
    then have "fl' = CreateFilteredList L K ?N fl"
      using push DynamicFilters Some by (auto simp: push_def split: prod.splits option.splits)
    then show ?thesis
      using NewFilters_keep [OF laws, of "fl_filters fl" schema r "[]" col_ids filters]
      by (auto simp: filtered_list_keep [OF laws] DynamicFilters)
  qed
qed

lemma pushes_keep:
  assumes laws: "pushdown_laws K D"
  shows "pushes L K E ps (fl, env) = (fl', env') \<Longrightarrow>
    fl_scan_info fl' = fl_scan_info fl \<and> (fl_plan fl = LazyNew L \<longrightarrow> fl_plan fl' = LazyNew L) \<and>
    (filters_keep D (fl_filters fl) schema r \<longrightarrow> (\<forall>p \<in> set ps. pushdown_keeps K D schema r p) \<longrightarrow>
       filters_keep D (fl_filters fl') schema r) \<and>
    (filters_keep D (fl_filters fl') schema r \<longrightarrow> filters_keep D (fl_filters fl) schema r)"
proof (induction ps arbitrary: fl env)
  case Nil
  then show ?case by (simp add: pushes_def)
next
  case (Cons p ps)
  obtain fl1 env1 where push: "push L K E p (fl, env) = (fl1, env1)" by fastforce
  with Cons.prems have "pushes L K E ps (fl1, env1) = (fl', env')" by (simp add: pushes_def)
  note rest = Cons.IH [OF this] and first = push_keeps [OF laws push, of schema r]
  show ?case
  proof (intro conjI impI)
    show "fl_scan_info fl' = fl_scan_info fl" using rest first by simp
    show "fl_plan fl = LazyNew L \<Longrightarrow> fl_plan fl' = LazyNew L" using rest first by blast
    show "filters_keep D (fl_filters fl) schema r \<Longrightarrow> \<forall>q \<in> set (p # ps). pushdown_keeps K D schema r q \<Longrightarrow>
        filters_keep D (fl_filters fl') schema r"
      using rest first by (meson list.set_intros)
    show "filters_keep D (fl_filters fl') schema r \<Longrightarrow> filters_keep D (fl_filters fl) schema r"
      using rest first by blast
  qed
qed

section \<open>The files of a filtered list\<close>

text \<open>
  The files a list that was not planned yet returns hold every row that the filters of the list keep.
\<close>

lemma GetAllFiles_new:
  assumes "lazy_laws L cached" and "fl_plan fl = LazyNew L"
    and "GetAllFiles S L E T fl env = (Inr files, fl', env')"
  obtains plan env1 where "PlanFilesImpl S E T (fl_scan_info fl) (fl_filters fl) env = (Inr plan, env1)"
    "files = map MakeOpenFileInfo (data_files plan)"
proof -
  obtain plan where "fst (PlanFiles S L E T fl env) = Inr plan" and files: "files = map MakeOpenFileInfo (data_files plan)"
    using assms(3) by (auto simp: GetAllFiles_def after_plan_def split: prod.splits sum.splits)
  then have "fst (LazyGet L (PlanFilesImpl S E T (fl_scan_info fl) (fl_filters fl)) (fl_plan fl) env) = Inr plan"
    by (auto simp: PlanFiles_def UnwrapOrThrow_def split: prod.splits sum.splits if_splits)
  then have "fst (PlanFilesImpl S E T (fl_scan_info fl) (fl_filters fl) env) = Inr plan"
    using lazy_lawsD(4) [OF assms(1)] by (simp add: assms(2))
  then show ?thesis using that files by (metis prod.collapse)
qed

text \<open>Where planning succeeds, so do the accesses of a new list.\<close>

lemma GetAllFiles_planned:
  assumes "lazy_laws L cached" and "fl_plan fl = LazyNew L"
    and "\<exists>plan. fst (PlanFilesImpl S E T (fl_scan_info fl) (fl_filters fl) env) = Inr plan"
  shows "\<exists>files. fst (GetAllFiles S L E T fl env) = Inr files"
proof -
  from assms(3) obtain plan where "fst (LazyGet L (PlanFilesImpl S E T (fl_scan_info fl) (fl_filters fl))
      (fl_plan fl) env) = Inr plan"
    using lazy_lawsD(4) [OF assms(1)] by (auto simp: assms(2))
  then show ?thesis by (auto simp: GetAllFiles_def after_plan_def PlanFiles_def split: prod.split)
qed

end
