(* ===== verification/TransactionReads.thy ===== *)
theory TransactionReads
  imports TransactionRun
begin

text \<open>
  What a transaction's calls answer: the specification is a database that does not change while the
  transaction runs, with the tables as they were at its start, and every sequence of calls refines it.
\<close>

section \<open>A database that does not change\<close>

text \<open>
  The abstract specification: a database says of each schema and table its columns and what to scan, or
  that there is no such table. \<open>answer_from db table_of c a\<close>: \<open>a\<close> is what a call \<open>c\<close> may answer on that
  database; \<open>table_of\<close> names the table of each entry reference. Calls may fail at any time. A lookup of a
  table and a scan function read the database, and so does a scan of a schema for the entries it shows
  that are loaded. It does not say which schemas there are, or which tables a scan shows as placeholders:
  a schema is accepted before it is known to exist, and a placeholder turns into the table or is found
  missing when it is looked up.
\<close>

type_synonym 'tbl database = "string \<times> string \<Rightarrow> (table_column list \<times> 'tbl scan_info) option"

fun answer_from ::
  "'tbl database \<Rightarrow> (string \<times> nat \<Rightarrow> string) \<Rightarrow> call \<Rightarrow> ('tbl, 'f, 'b) answer \<Rightarrow> bool" where
  "answer_from db table_of (CallLookupEntry n TABLE_ENTRY t) (FoundEntry (Inr None)) \<longleftrightarrow> db (n, t) = None"
| "answer_from db table_of (CallLookupEntry n TABLE_ENTRY t) (FoundEntry (Inr (Some (i, entry)))) \<longleftrightarrow>
     table_of (n, i) = t \<and> te_name entry = t \<and>
     (\<exists>info. te_scan_info entry = Some info \<and> db (n, t) = Some (te_columns entry, info))"
| "answer_from db table_of (CallGetScanFunction n i) (FoundScan (Inr (scan, b))) \<longleftrightarrow>
     (\<exists>columns info. function_info scan = Some info \<and> db (n, table_of (n, i)) = Some (columns, info))"
| "answer_from db table_of (CallScan n ty) (VisitedEntries (Inr entries)) \<longleftrightarrow>
     (\<forall>(i, entry) \<in> set entries. table_of (n, i) = te_name entry \<and>
        (\<forall>info. te_scan_info entry = Some info \<longrightarrow> db (n, te_name entry) = Some (te_columns entry, info)))"
| "answer_from db table_of c a \<longleftrightarrow> True"

text \<open>The database a transaction's schemas stand for: the entries that are loaded.\<close>

definition database_of :: "'tbl schema_state \<Rightarrow> 'tbl database" where
  "database_of st = (\<lambda>(n, t).
     case SchemasLookup st n of
       None \<Rightarrow> None
     | Some se \<Rightarrow>
         (case RegistryLookup (tables se) t of
            Positive i \<Rightarrow>
              map_option (Pair (te_columns (deref (tables se) i))) (te_scan_info (deref (tables se) i))
          | _ \<Rightarrow> None))"

definition table_of_reference :: "'tbl schema_state \<Rightarrow> string \<times> nat \<Rightarrow> string" where
  "table_of_reference st = (\<lambda>(n, i).
     case SchemasLookup st n of None \<Rightarrow> [] | Some se \<Rightarrow> te_name (deref (tables se) i))"

text \<open>A reference is to an entry of the same name for the rest of the transaction.\<close>

lemma reference_later:
  assumes "schemas_later st st'" and "SchemasLookup st n = Some se" and "i < length (reg_entries (tables se))"
  shows "table_of_reference st' (n, i) = te_name (deref (tables se) i)"
proof -
  from schemas_later_find [OF assms(1,2)] obtain se' where se': "SchemasLookup st' n = Some se'"
    and "later se se'" by blast
  then have "same_entry (deref (tables se) i) (deref (tables se') i)"
    using assms(3) by (auto simp: later_def retained_def)
  from same_entry_simps [OF this] show ?thesis by (simp add: table_of_reference_def se')
qed

text \<open>A scan shows entries that the registry finds.\<close>

lemma collected:
  "foldl (\<lambda>r p. case r of Inl e \<Rightarrow> Inl e | Inr is \<Rightarrow> Inr (is @ [snd p])) (Inr is) ps = Inr (is @ map snd ps)"
  by (induction ps arbitrary: "is") auto

lemma Scan_shows:
  assumes "Scan C A ty (\<lambda>i is. Inr (is @ [i])) [] se env = (Inr is, se', env')" and "registry_ok (tables se')"
    and "i \<in> set is"
  obtains t where "RegistryLookup (tables se') t = Positive i"
proof -
  have "is = map snd (visited (tables se'))"
    using assms(1,3)
    by (auto simp: Scan_def RegistryForEach_def ForEachPositive_foldl collected visited_def
        split: if_splits prod.splits sum.splits bool.splits)
  with assms(3) obtain t where "(t, i) \<in> set (visited (tables se'))" by auto
  with that show thesis using visited_iff [OF assms(2)] by blast
qed

text \<open>A reference to a loaded entry is to the entry of that name for the rest of the transaction.\<close>

lemma loaded_later:
  assumes "session_ok X s" and "schemas_later st (sn_schemas s)"
    and "SchemasLookup st n = Some se" and "i < length (reg_entries (tables se))"
    and "te_scan_info (deref (tables se) i) = Some info"
  shows "table_of_reference (sn_schemas s) (n, i) = te_name (deref (tables se) i) \<and>
    database_of (sn_schemas s) (n, te_name (deref (tables se) i)) =
      Some (te_columns (deref (tables se) i), info)"
proof -
  from schemas_later_find [OF assms(2,3)] obtain se' where se': "SchemasLookup (sn_schemas s) n = Some se'"
    and "later se se'" by blast
  then have "retained (tables se) (tables se')" by (simp add: later_def)
  then have i: "i < length (reg_entries (tables se'))"
    and same: "same_entry (deref (tables se) i) (deref (tables se') i)"
    using assms(4) by (auto simp: retained_def)
  note entry = same_entry_simps [OF same]
  with assms(5) have "\<not> NeedsLoad (deref (tables se') i)" by (simp add: NeedsLoad_def)
  then have "RegistryLookup (tables se') (te_name (deref (tables se') i)) = Positive i"
    using session_okD(2) [OF assms(1) se'] i by (simp add: one_version_def)
  then show ?thesis
    using entry assms(5) by (simp add: table_of_reference_def database_of_def se')
qed

lemma missing_later:
  assumes "schemas_later st st'" and "SchemasLookup st n = Some se" and "settled se t None"
  shows "database_of st' (n, t) = None"
proof -
  from schemas_later_find [OF assms(1,2)] obtain se' where se': "SchemasLookup st' n = Some se'"
    and "later se se'" by blast
  with assms(3) have "settled se' t None" by (simp add: later_def)
  then show ?thesis by (simp add: settled_def database_of_def se')
qed

text \<open>What a call answers is what the transaction holds of the database ever after.\<close>

lemma do_call_answer:
  assumes call: "do_call X c s = (a, s1)" and ok: "session_ok X s" "session_ok X s1" "session_ok X s2"
    and later: "schemas_later (sn_schemas s1) (sn_schemas s2)"
  shows "answer_from (database_of (sn_schemas s2)) (table_of_reference (sn_schemas s2)) c a"
  using call
proof (cases rule: do_call_cases)
  case (lookup n ty t se r se' env)
  have find: "SchemasLookup (sn_schemas s1) n = Some se'" by (simp add: lookup(5))
  have reg: "registry_ok (tables se)" using session_okD(3) [OF ok(1) lookup(2)] by simp
  have settled: "ty = TABLE_ENTRY \<Longrightarrow> r = Inr x \<Longrightarrow> settled se' t x" for x
    using LookupEntry_later [OF lookup(3) reg] by simp
  show ?thesis
  proof (cases "ty = TABLE_ENTRY")
    case True
    show ?thesis
    proof (cases r)
      case (Inl e)
      then show ?thesis using lookup(1,4) True by simp
    next
      case (Inr x)
      show ?thesis
      proof (cases x)
        case None
        then show ?thesis
          using missing_later [OF later find] settled [OF True Inr] lookup(1,4) True Inr by simp
      next
        case (Some i)
        have "settled se' t (Some i)" using settled [OF True Inr] Some by simp
        then have known: "RegistryLookup (tables se') t = Positive i" "\<not> NeedsLoad (deref (tables se') i)"
          by (simp_all add: settled_def)
        then obtain info where info: "te_scan_info (deref (tables se') i) = Some info"
          by (auto simp: NeedsLoad_def)
        have "i < length (reg_entries (tables se'))" and "te_name (deref (tables se') i) = t"
          using registry_okD [OF _ known(1)] session_okD(3) [OF ok(2) find] by simp_all
        with loaded_later [OF ok(3) later find _ info] show ?thesis
          using lookup(1,4) True Inr Some info by simp
      qed
    qed
  next
    case False
    then show ?thesis using lookup(1) by (cases ty) simp_all
  qed
next
  case (scan n ty se r se' env)
  show ?thesis
  proof (cases r)
    case (Inl e)
    then show ?thesis using scan(1,4) by simp
  next
    case (Inr "is")
    have find: "SchemasLookup (sn_schemas s1) n = Some se'" by (simp add: scan(5))
    have reg: "registry_ok (tables se')" using session_okD(3) [OF ok(2) find] by simp
    have "table_of_reference (sn_schemas s2) (n, i) = te_name (deref (tables se') i) \<and>
        (\<forall>info. te_scan_info (deref (tables se') i) = Some info \<longrightarrow>
           database_of (sn_schemas s2) (n, te_name (deref (tables se') i)) =
             Some (te_columns (deref (tables se') i), info))" if i: "i \<in> set is" for i
    proof -
      obtain t where "RegistryLookup (tables se') t = Positive i"
        by (rule Scan_shows [OF scan(3) [unfolded Inr] reg i])
      then have "i < length (reg_entries (tables se'))" using registry_okD [OF reg] by simp
      with reference_later [OF later find this] loaded_later [OF ok(3) later find this] show ?thesis by blast
    qed
    then show ?thesis using scan(1,4) Inr by auto
  qed
next
  case (get_scan n i se r reg names m)
  show ?thesis
  proof (cases r)
    case (Inl e)
    then show ?thesis using get_scan(1,5) by simp
  next
    case (Inr x)
    obtain scan b where x: "x = (scan, b)" by fastforce
    note returned = GetScanFunction_returned [OF get_scan(4) [unfolded Inr x] get_scan(3)]
    have same: "same_entry (deref (tables se) i) (deref reg i)" "length (reg_entries reg) = length (reg_entries (tables se))"
      using GetScanFunction_state [OF get_scan(4)] get_scan(3) by (auto simp: deref_SetHasSecret)
    from returned obtain info where info: "te_scan_info (deref (tables se) i) = Some info" "function_info scan = Some info"
      by auto
    have find: "SchemasLookup (sn_schemas s1) n = Some (se\<lparr>tables := reg\<rparr>)" by (simp add: get_scan(6))
    from loaded_later [OF ok(3) later find, of i info] same info get_scan(3)
    show ?thesis using get_scan(1,5) Inr x same_entry_simps [OF same(1)] by auto
  qed
qed simp_all

text \<open>The database a transaction's schemas stand for is as of the transaction's start.\<close>

lemma database_as_of_start:
  assumes "transaction_ok X st" and "appends_column (x_add_column X)"
    and "database_of st (n, t) = Some (columns, info)"
  shows "reads_as_of (x_tables X) (x_start X) (si_table info) info \<and> columns_mirror columns (si_schema info)"
proof -
  from assms(3) obtain se i where se: "SchemasLookup st n = Some se"
    and i: "RegistryLookup (tables se) t = Positive i"
    and entry: "te_scan_info (deref (tables se) i) = Some info" "te_columns (deref (tables se) i) = columns"
    by (auto simp: database_of_def split: option.splits lookup_result.splits)
  have "registry_ok (tables se)" and "entries_ok (x_tables X) (x_start X) (tables se)"
    using assms(1,2) se schemas_okD unfolding transaction_ok_def by blast+
  then have "entry_ok (x_tables X) (x_start X) (deref (tables se) i)"
    using registry_okD [OF _ i] by (simp add: entries_ok_def)
  then show ?thesis using entry by (simp add: entry_ok_def)
qed

section \<open>Property\<close>

text \<open>
  A transaction reads one database: whatever a service does meanwhile, the answers that a sequence
  of calls gets are those of one database that does not change. Every lookup of a table, by any
  thread and at any time, finds the same columns and scan information or that there is no such table;
  every scan function of an entry scans what its lookup promised; and each of the database's tables is
  as of the transaction's start, with the columns of that version's schema.
\<close>

lemma transaction_reads_one_database:
  assumes "appends_column (x_add_column X)"
    and "run_all (do_call X) calls (begin_session X env m) = (answers, s')"
  shows "\<exists>db table_of. list_all2 (answer_from db table_of) calls answers \<and>
    (\<forall>n t columns info. db (n, t) = Some (columns, info) \<longrightarrow>
       reads_as_of (x_tables X) (x_start X) (si_table info) info \<and> columns_mirror columns (si_schema info))"
proof (intro exI conjI allI impI)
  have ok': "session_ok X s'" using session.run_ok [OF session_ok_begin assms(2)] .
  show "list_all2 (answer_from (database_of (sn_schemas s')) (table_of_reference (sn_schemas s'))) calls answers"
  proof (rule list_all2I)
    show "length calls = length answers" using run_all_length [OF assms(2)] by simp
    show "\<forall>(c, a) \<in> set (zip calls answers).
      answer_from (database_of (sn_schemas s')) (table_of_reference (sn_schemas s')) c a"
    proof clarify
      fix c a assume "(c, a) \<in> set (zip calls answers)"
      from session.run_answer [OF session_ok_begin assms(2) this] obtain s0 s1 cs1 as1 where
        ok: "session_ok X s0" "session_ok X s1" and call: "do_call X c s0 = (a, s1)"
        and rest: "run_all (do_call X) cs1 s1 = (as1, s')" by blast
      have "schemas_later (sn_schemas s1) (sn_schemas s')"
        using catalog_steps_later [OF run_steps [OF rest]] session_okD(1) [OF ok(2)] by simp
      then show "answer_from (database_of (sn_schemas s')) (table_of_reference (sn_schemas s')) c a"
        by (rule do_call_answer [OF call ok ok'])
    qed
  qed
  fix n t columns info
  assume "database_of (sn_schemas s') (n, t) = Some (columns, info)"
  with database_as_of_start [OF ok' [unfolded session_ok_def] assms(1)]
  show "reads_as_of (x_tables X) (x_start X) (si_table info) info"
    and "columns_mirror columns (si_schema info)" by blast+
qed

end
