(* ===== verification/DatabaseInstance.thy ===== *)
theory DatabaseInstance
  imports TransactionReads CatalogAttach
begin

text \<open>
  A DuckDB instance with this extension: the catalogs attached to it, each with its transaction manager
  and service, and its connections, each in a transaction that spans the catalogs it uses. The events
  are what connections do, one after another in any order; the operations they run are those of the
  other theories. What DuckDB itself does (it numbers transactions, starts a catalog's transaction when
  it is first used, ends all of them and then tells the connection's registered states) is the guard
  of an event: one that does not follow this protocol is refused and changes nothing.
\<close>

section \<open>State\<close>

text \<open>
  A connection's transaction has a global ID and a start time; \<open>cn_open\<close> are the catalogs it uses, with
  the address of the transaction in each.
\<close>

record connection =
  cn_transaction :: "(nat \<times> 64 word) option"
  cn_open :: "(string \<times> nat) list"
  cn_ending :: bool
  cn_registered :: "string \<rightharpoonup> string list"

definition idle_connection :: connection where
  "idle_connection = \<lparr>cn_transaction = None, cn_open = [], cn_ending = False, cn_registered = Map.empty\<rparr>"

definition cn_names :: "connection \<Rightarrow> string list" where
  "cn_names cn = fst (ScopedSecretsGet (cn_registered cn))"

record ('rest, 'tbl) attached =
  at_catalog :: catalog
  at_service :: 'rest
  at_transactions :: "'tbl transactions"

record ('w, 'rest, 'tbl, 'm) db_instance =
  in_databases :: "string \<rightharpoonup> ('rest, 'tbl) attached"
  in_connections :: "nat \<Rightarrow> connection"
  in_used :: "nat list"
  in_env :: "'w env"
  in_manager :: 'm

text \<open>What the operations use of DuckDB and iceberg-cpp.\<close>

record ('w, 'cfg, 'rest, 'tbl, 'm, 'f, 'fs, 'b) duckdb =
  d_values :: value_ops
  d_strings :: string_util
  d_lookups :: "'m \<Rightarrow> secret_lookups"
  d_properties :: s3_properties
  d_rest :: "('w, 'cfg, 'rest) rest_api"
  d_service :: "'rest \<Rightarrow> ('w, 'tbl) iceberg_catalog"
  d_tables :: "'tbl iceberg_table"
  d_add_column :: add_column
  d_default_schema :: string
  d_functions :: "('tbl, 'f, 'fs, 'b) scan_functions"
  d_manager :: "'m secret_manager"
  d_what :: "exception \<Rightarrow> string"

definition setting_of ::
  "('w, 'cfg, 'rest, 'tbl, 'm, 'f, 'fs, 'b) duckdb \<Rightarrow> string \<Rightarrow> ('rest, 'tbl) attached \<Rightarrow> nat \<Rightarrow> 64 word \<Rightarrow>
   ('w, 'tbl, 'm, 'f, 'fs, 'b) setting" where
  "setting_of X name db txn_id ts =
     \<lparr>x_service = d_service X (at_service db), x_tables = d_tables X, x_add_column = d_add_column X,
      x_timestamp = ts, x_default_schema = d_default_schema X, x_catalog = at_catalog db,
      x_functions = d_functions X, x_secrets = d_manager X, x_properties = d_properties X, x_txn_id = txn_id,
      x_catalog_name = name\<rparr>"

section \<open>Events\<close>

text \<open>
  A connection attaches a catalog, begins a transaction with an ID never used before, uses a catalog
  for the first time in it, calls it, ends the transaction in one catalog, and ends it as a whole. The
  service and what else is in the world may change by themselves.
\<close>

datatype 'w event =
    EvAttach string string "(string \<times> duckdb_value) list"
  | EvBegin nat nat "64 word"
  | EvUse nat string nat
  | EvCall nat string call
  | EvEndIn nat string bool
  | EvEnd nat bool
  | EvWorld 'w

datatype ('tbl, 'f, 'b) reply =
    Refused
  | AttachedAs "catalog throws"
  | Done
  | Answered nat "64 word" "('tbl, 'f, 'b) answer"
  | EndedIn "exception option"

definition do_attach where
  "do_attach X name path options s =
     (if in_databases s name \<noteq> None then (Refused, s)
      else case Attach (d_values X) (d_strings X) (d_lookups X (in_manager s)) (d_properties X) (d_rest X)
                  name path options (in_env s) of
             (Inl e, env) \<Rightarrow> (AttachedAs (Inl e), s\<lparr>in_env := env\<rparr>)
           | (Inr (cat, rest), env) \<Rightarrow>
               (AttachedAs (Inr cat), s\<lparr>in_env := env, in_databases := (in_databases s)
                  (name \<mapsto> \<lparr>at_catalog = cat, at_service = rest, at_transactions = Map.empty\<rparr>)\<rparr>))"

definition do_begin where
  "do_begin c txn_id ts s =
     (if cn_transaction (in_connections s c) \<noteq> None \<or> txn_id \<in> set (in_used s) then (Refused, s)
      else (Done, s\<lparr>in_used := txn_id # in_used s,
              in_connections := (in_connections s)
                (c := (in_connections s c)\<lparr>cn_transaction := Some (txn_id, ts)\<rparr>)\<rparr>))"

text \<open>The allocator gives the new transaction an address at which there is none.\<close>

definition do_use where
  "do_use c name address s =
     (let cn = in_connections s c
      in case (cn_transaction cn, in_databases s name) of
           (Some (txn_id, ts), Some db) \<Rightarrow>
             (if cn_ending cn \<or> map_of (cn_open cn) name \<noteq> None \<or> at_transactions db address \<noteq> None
              then (Refused, s)
              else (case StartTransaction address ts (at_transactions db) of (a, txns) \<Rightarrow>
                      (Done, s\<lparr>in_databases := (in_databases s)(name \<mapsto> db\<lparr>at_transactions := txns\<rparr>),
                               in_connections := (in_connections s)(c := cn\<lparr>cn_open := (name, a) # cn_open cn\<rparr>)\<rparr>)))
         | _ \<Rightarrow> (Refused, s))"

text \<open>A call is on the transaction at the connection's address, with the connection's secrets.\<close>

definition call_session where
  "call_session cn txn s =
     \<lparr>sn_schemas = schema_state txn, sn_env = in_env s, sn_names = cn_names cn, sn_manager = in_manager s\<rparr>"

definition end_call where
  "end_call c name db a txn sn s =
     s\<lparr>in_databases := (in_databases s)
         (name \<mapsto> db\<lparr>at_transactions := (at_transactions db)(a \<mapsto> txn\<lparr>schema_state := sn_schemas sn\<rparr>)\<rparr>),
       in_connections := (in_connections s)
         (c := (in_connections s c)\<lparr>cn_registered :=
            (snd (ScopedSecretsGet (cn_registered (in_connections s c))))(kScopedSecretsStateKey \<mapsto> sn_names sn)\<rparr>),
       in_env := sn_env sn, in_manager := sn_manager sn\<rparr>"

definition do_call_in where
  "do_call_in X c name call s =
     (let cn = in_connections s c
      in case (cn_transaction cn, in_databases s name, map_of (cn_open cn) name) of
           (Some (txn_id, ts), Some db, Some a) \<Rightarrow>
             (case at_transactions db a of
                Some txn \<Rightarrow>
                  (if cn_ending cn then (Refused, s)
                   else case do_call (setting_of X name db txn_id ts) call (call_session cn txn s) of
                          (answer, sn) \<Rightarrow> (Answered txn_id ts answer, end_call c name db a txn sn s))
              | None \<Rightarrow> (Refused, s))
         | _ \<Rightarrow> (Refused, s))"

text \<open>The transaction ends in one catalog, by commit or rollback.\<close>

definition do_end_in where
  "do_end_in c name committed s =
     (let cn = in_connections s c
      in case (in_databases s name, map_of (cn_open cn) name) of
           (Some db, Some a) \<Rightarrow>
             (case (if committed then CommitTransaction a (at_transactions db)
                    else (case RollbackTransaction a (at_transactions db) of
                            (Inl e, txns) \<Rightarrow> (Some e, txns) | (Inr _, txns) \<Rightarrow> (None, txns))) of
                (err, txns) \<Rightarrow>
                  (EndedIn err, s\<lparr>in_databases := (in_databases s)(name \<mapsto> db\<lparr>at_transactions := txns\<rparr>),
                     in_connections := (in_connections s)(c := cn\<lparr>cn_ending := True,
                       cn_open := filter (\<lambda>(n, _). n \<noteq> name) (cn_open cn)\<rparr>)\<rparr>))
         | _ \<Rightarrow> (Refused, s))"

text \<open>Once it has ended in all catalogs, the connection's registered state is told.\<close>

definition do_end where
  "do_end X c committed s =
     (let cn = in_connections s c
      in if cn_transaction cn = None \<or> cn_open cn \<noteq> [] then (Refused, s)
         else
           (case (case cn_registered cn kScopedSecretsStateKey of
                    None \<Rightarrow> (cn_registered cn, in_manager s, in_env s)
                  | Some names \<Rightarrow>
                      (case (if committed then TransactionCommit (d_manager X) (d_what X) names (in_manager s) (in_env s)
                             else TransactionRollback (d_manager X) (d_what X) names (in_manager s) (in_env s)) of
                         (names, m, env) \<Rightarrow> ((cn_registered cn)(kScopedSecretsStateKey \<mapsto> names), m, env))) of
              (registered, m, env) \<Rightarrow>
                (Done, s\<lparr>in_manager := m, in_env := env, in_connections := (in_connections s)
                   (c := \<lparr>cn_transaction = None, cn_open = [], cn_ending = False, cn_registered = registered\<rparr>)\<rparr>)))"

fun instance_step ::
  "('w, 'cfg, 'rest, 'tbl, 'm, 'f, 'fs, 'b) duckdb \<Rightarrow> 'w event \<Rightarrow> ('w, 'rest, 'tbl, 'm) db_instance \<Rightarrow>
   ('tbl, 'f, 'b) reply \<times> ('w, 'rest, 'tbl, 'm) db_instance" where
  "instance_step X (EvAttach name path options) s = do_attach X name path options s"
| "instance_step X (EvBegin c txn_id ts) s = do_begin c txn_id ts s"
| "instance_step X (EvUse c name address) s = do_use c name address s"
| "instance_step X (EvCall c name call) s = do_call_in X c name call s"
| "instance_step X (EvEndIn c name committed) s = do_end_in c name committed s"
| "instance_step X (EvEnd c committed) s = do_end X c committed s"
| "instance_step X (EvWorld w) s = (Done, s\<lparr>in_env := (in_env s)\<lparr>world := w\<rparr>\<rparr>)"

definition new_instance :: "'w env \<Rightarrow> 'm \<Rightarrow> ('w, 'rest, 'tbl, 'm) db_instance" where
  "new_instance env m = \<lparr>in_databases = Map.empty, in_connections = (\<lambda>_. idle_connection), in_used = [],
     in_env = env, in_manager = m\<rparr>"

section \<open>What an event does\<close>

lemma instance_step_cases [consumes 1,
    case_names refused attach_failed attached beg use call end_in fin elsewhere]:
  assumes "instance_step X e s = (a, s')"
  obtains "a = Refused" "s' = s"
  | name path options err env where "e = EvAttach name path options" "a = AttachedAs (Inl err)"
      "s' = s\<lparr>in_env := env\<rparr>" "log env = log (in_env s)"
  | name path options cat rest env where "e = EvAttach name path options" "a = AttachedAs (Inr cat)"
      "in_databases s name = None" "log env = log (in_env s)"
      "s' = s\<lparr>in_env := env, in_databases := (in_databases s)
         (name \<mapsto> \<lparr>at_catalog = cat, at_service = rest, at_transactions = Map.empty\<rparr>)\<rparr>"
  | c txn_id ts where "e = EvBegin c txn_id ts" "a = Done" "cn_transaction (in_connections s c) = None"
      "txn_id \<notin> set (in_used s)"
      "s' = s\<lparr>in_used := txn_id # in_used s, in_connections := (in_connections s)
         (c := (in_connections s c)\<lparr>cn_transaction := Some (txn_id, ts)\<rparr>)\<rparr>"
  | c name address txn_id ts db where "e = EvUse c name address" "a = Done"
      "cn_transaction (in_connections s c) = Some (txn_id, ts)" "in_databases s name = Some db"
      "\<not> cn_ending (in_connections s c)" "map_of (cn_open (in_connections s c)) name = None"
      "at_transactions db address = None"
      "s' = s\<lparr>in_databases := (in_databases s)(name \<mapsto> db\<lparr>at_transactions :=
           (at_transactions db)(address \<mapsto> ProtoIcebergTransaction ts)\<rparr>),
         in_connections := (in_connections s)(c := (in_connections s c)
           \<lparr>cn_open := (name, address) # cn_open (in_connections s c)\<rparr>)\<rparr>"
  | c name cl txn_id ts db address txn answer sn where "e = EvCall c name cl" "a = Answered txn_id ts answer"
      "cn_transaction (in_connections s c) = Some (txn_id, ts)" "in_databases s name = Some db"
      "map_of (cn_open (in_connections s c)) name = Some address" "at_transactions db address = Some txn"
      "\<not> cn_ending (in_connections s c)"
      "do_call (setting_of X name db txn_id ts) cl (call_session (in_connections s c) txn s) = (answer, sn)"
      "s' = end_call c name db address txn sn s"
  | c name committed err db address where "e = EvEndIn c name committed"
      "in_databases s name = Some db" "map_of (cn_open (in_connections s c)) name = Some address"
      "a = EndedIn (if at_transactions db address \<noteq> None then None else Some err)"
      "s' = s\<lparr>in_databases := (in_databases s)(name \<mapsto> db\<lparr>at_transactions :=
           (at_transactions db)(address := None)\<rparr>),
         in_connections := (in_connections s)(c := (in_connections s c)\<lparr>cn_ending := True,
           cn_open := filter (\<lambda>(n, _). n \<noteq> name) (cn_open (in_connections s c))\<rparr>)\<rparr>"
  | c committed registered m env where "e = EvEnd c committed" "a = Done"
      "cn_transaction (in_connections s c) \<noteq> None" "cn_open (in_connections s c) = []"
      "fst (ScopedSecretsGet registered) = []"
      "(m, env) = snd (DropAll (d_manager X) (d_what X) (cn_names (in_connections s c)) (in_manager s) (in_env s))"
      "s' = s\<lparr>in_manager := m, in_env := env, in_connections := (in_connections s)
         (c := \<lparr>cn_transaction = None, cn_open = [], cn_ending = False, cn_registered = registered\<rparr>)\<rparr>"
  | w where "e = EvWorld w" "a = Done" "s' = s\<lparr>in_env := (in_env s)\<lparr>world := w\<rparr>\<rparr>"
proof (cases e)
  case (EvAttach name path options)
  obtain r env where attach: "Attach (d_values X) (d_strings X) (d_lookups X (in_manager s)) (d_properties X)
      (d_rest X) name path options (in_env s) = (r, env)" by fastforce
  have "log env = log (in_env s)" using Attach_log [OF attach] .
  with EvAttach assms attach show ?thesis
    by (cases r) (auto simp: do_attach_def split: if_splits intro: that(1-3))
next
  case (EvBegin c txn_id ts)
  then show ?thesis
    using assms by (cases "cn_transaction (in_connections s c)")
      (auto simp: do_begin_def split: if_splits intro: that(1,4))
next
  case (EvUse c name address)
  with assms show ?thesis
    by (auto simp: do_use_def StartTransaction_def Let_def split: option.splits if_splits intro: that(1,5))
next
  case (EvCall c name cl)
  with assms show ?thesis
    by (auto simp: do_call_in_def Let_def split: option.splits if_splits prod.splits intro: that(1,6))
next
  case (EvEndIn c name committed)
  show ?thesis
  proof (cases "in_databases s name = None \<or> map_of (cn_open (in_connections s c)) name = None")
    case True
    with assms EvEndIn show ?thesis by (auto simp: do_end_in_def Let_def split: option.splits intro: that(1))
  next
    case False
    then obtain db address where "in_databases s name = Some db"
      "map_of (cn_open (in_connections s c)) name = Some address" by auto
    moreover have "(at_transactions db)(address := None) = at_transactions db" if "at_transactions db address = None"
      using that by (simp add: fun_upd_idem)
    ultimately show ?thesis
      using assms EvEndIn
      by (cases committed; cases "at_transactions db address")
        (auto simp: do_end_in_def CommitTransaction_def RollbackTransaction_def Let_def intro: that(7))
  qed
next
  case (EvEnd c committed)
  let ?cn = "in_connections s c"
  show ?thesis
  proof (cases "cn_transaction ?cn = None \<or> cn_open ?cn \<noteq> []")
    case True
    with assms EvEnd show ?thesis by (auto simp: do_end_def Let_def intro: that(1))
  next
    case False
    obtain names m env where drop:
      "DropAll (d_manager X) (d_what X) (cn_names ?cn) (in_manager s) (in_env s) = (names, m, env)"
      using prod_cases3 by blast
    then have names: "names = []" by (auto simp: DropAll_def Let_def split: if_splits prod.splits sum.splits)
    have none: "snd (DropAll M what [] m env) = (m, env)" for M :: "'m secret_manager" and what m env
      by (simp add: DropAll_def)
    have "\<exists>registered. a = Done \<and> fst (ScopedSecretsGet registered) = [] \<and>
        s' = s\<lparr>in_manager := m, in_env := env, in_connections := (in_connections s)
         (c := \<lparr>cn_transaction = None, cn_open = [], cn_ending = False, cn_registered = registered\<rparr>)\<rparr>"
    proof (cases "cn_registered ?cn kScopedSecretsStateKey")
      case None
      then have "(m, env) = (in_manager s, in_env s)"
        using drop none by (metis cn_names_def ScopedSecretsGet_def option.simps(4) fst_conv snd_conv)
      with None False assms EvEnd show ?thesis
        by (intro exI [of _ "cn_registered ?cn"]) (auto simp: do_end_def Let_def ScopedSecretsGet_def)
    next
      case (Some old)
      then have "DropAll (d_manager X) (d_what X) old (in_manager s) (in_env s) = ([], m, env)"
        using drop names by (simp add: cn_names_def ScopedSecretsGet_def)
      with Some False assms EvEnd show ?thesis
        by (intro exI [of _ "(cn_registered ?cn)(kScopedSecretsStateKey \<mapsto> [])"])
          (cases committed, auto simp: do_end_def Let_def ScopedSecretsGet_def TransactionCommit_def
            TransactionRollback_def)
    qed
    then obtain registered where fin: "a = Done" "fst (ScopedSecretsGet registered) = []"
      "s' = s\<lparr>in_manager := m, in_env := env, in_connections := (in_connections s)
         (c := \<lparr>cn_transaction = None, cn_open = [], cn_ending = False, cn_registered = registered\<rparr>)\<rparr>" by blast
    show ?thesis
      by (rule that(8) [OF EvEnd fin(1) _ _ fin(2) _ fin(3)]) (use False drop in simp_all)
  qed
next
  case (EvWorld w)
  with assms show ?thesis by (auto intro: that(9))
qed

section \<open>The protocol\<close>

text \<open>The transactions connections have open, and those the managers hold.\<close>

definition opened :: "('w, 'rest, 'tbl, 'm) db_instance \<Rightarrow> (nat \<times> string \<times> nat) set" where
  "opened s = {(c, name, a). (name, a) \<in> set (cn_open (in_connections s c))}"

definition active :: "('w, 'rest, 'tbl, 'm) db_instance \<Rightarrow> (string \<times> nat) set" where
  "active s = {(name, a). \<exists>db txn. in_databases s name = Some db \<and> at_transactions db a = Some txn}"

text \<open>
  What the protocol keeps: the managers hold exactly the transactions that connections have open, each
  of one connection; an ID belongs to one connection; outside a transaction a connection has nothing
  open and no secrets.
\<close>

definition instance_ok :: "('w, 'rest, 'tbl, 'm) db_instance \<Rightarrow> bool" where
  "instance_ok s \<longleftrightarrow>
     snd ` opened s = active s \<and> inj_on snd (opened s) \<and>
     (\<forall>c. distinct (map fst (cn_open (in_connections s c)))) \<and>
     (\<forall>c t. cn_transaction (in_connections s c) = Some t \<longrightarrow> fst t \<in> set (in_used s)) \<and>
     (\<forall>c c' t t'. cn_transaction (in_connections s c) = Some t \<longrightarrow>
        cn_transaction (in_connections s c') = Some t' \<longrightarrow> fst t = fst t' \<longrightarrow> c = c') \<and>
     (\<forall>c. cn_transaction (in_connections s c) = None \<longrightarrow>
        cn_open (in_connections s c) = [] \<and> cn_names (in_connections s c) = [] \<and>
        \<not> cn_ending (in_connections s c))"

lemma instance_okD:
  assumes "instance_ok s"
  shows "snd ` opened s = active s"
    and "inj_on snd (opened s)"
    and "distinct (map fst (cn_open (in_connections s c)))"
    and "cn_transaction (in_connections s c) = Some t \<Longrightarrow> fst t \<in> set (in_used s)"
    and "cn_transaction (in_connections s c) = Some t \<Longrightarrow> cn_transaction (in_connections s c') = Some t' \<Longrightarrow>
      fst t = fst t' \<Longrightarrow> c = c'"
    and "cn_transaction (in_connections s c) = None \<Longrightarrow>
      cn_open (in_connections s c) = [] \<and> cn_names (in_connections s c) = [] \<and>
      \<not> cn_ending (in_connections s c)"
  using assms unfolding instance_ok_def by blast+

lemma instance_ok_new [simp]: "instance_ok (new_instance env m)"
  by (simp add: instance_ok_def new_instance_def idle_connection_def cn_names_def ScopedSecretsGet_def
      opened_def active_def inj_on_def)

lemma cn_names_registered [simp]:
  "fst (ScopedSecretsGet (registered(kScopedSecretsStateKey \<mapsto> names))) = names"
  by (simp add: ScopedSecretsGet_def)

lemma cn_names_simps [simp]:
  "cn_names (cn\<lparr>cn_transaction := t\<rparr>) = cn_names cn"
  "cn_names (cn\<lparr>cn_open := os\<rparr>) = cn_names cn"
  "cn_names (cn\<lparr>cn_ending := b\<rparr>) = cn_names cn"
  "cn_names (cn\<lparr>cn_registered := registered(kScopedSecretsStateKey \<mapsto> names)\<rparr>) = names"
  by (simp_all add: cn_names_def)

lemma end_call_simps [simp]:
  "in_connections (end_call c name db a txn sn s) c' =
     (if c' = c then (in_connections s c)\<lparr>cn_registered :=
        (snd (ScopedSecretsGet (cn_registered (in_connections s c))))(kScopedSecretsStateKey \<mapsto> sn_names sn)\<rparr>
      else in_connections s c')"
  "in_databases (end_call c name db a txn sn s) name' =
     (if name' = name then Some (db\<lparr>at_transactions := (at_transactions db)
        (a \<mapsto> txn\<lparr>schema_state := sn_schemas sn\<rparr>)\<rparr>) else in_databases s name')"
  "in_env (end_call c name db a txn sn s) = sn_env sn"
  "in_manager (end_call c name db a txn sn s) = sn_manager sn"
  "in_used (end_call c name db a txn sn s) = in_used s"
  by (simp_all add: end_call_def)

text \<open>What the events that open or end a transaction do to both.\<close>

lemma instance_step_opened:
  assumes "instance_step X e s = (a, s')" and ok: "instance_ok s"
  shows "(opened s' = opened s \<and> active s' = active s) \<or>
    (\<exists>c name address. (name, address) \<notin> active s \<and> opened s' = insert (c, name, address) (opened s) \<and>
       active s' = insert (name, address) (active s)) \<or>
    (\<exists>c name address. (c, name, address) \<in> opened s \<and> opened s' = opened s - {(c, name, address)} \<and>
       active s' = active s - {(name, address)})"
  using assms(1)
proof (cases rule: instance_step_cases)
  case (use c name address txn_id ts db)
  then have "(name, address) \<notin> active s" "opened s' = insert (c, name, address) (opened s)"
    "active s' = insert (name, address) (active s)"
    by (auto simp: opened_def active_def split: if_splits)
  then show ?thesis by blast
next
  case (end_in c name committed err db address)
  have "a = address" if "(name, a) \<in> set (cn_open (in_connections s c))" for a
    using map_of_is_SomeI [OF instance_okD(3) [OF ok] that] end_in(3) by simp
  then have "opened s' = opened s - {(c, name, address)}"
    using end_in(5) by (auto simp: opened_def split: if_splits)
  moreover have "(c, name, address) \<in> opened s" using map_of_SomeD [OF end_in(3)] by (simp add: opened_def)
  moreover have "active s' = active s - {(name, address)}"
    using end_in(2,5) by (auto simp: active_def split: if_splits)
  ultimately show ?thesis by blast
qed (auto simp: opened_def active_def split: if_splits)

lemma instance_step_ok:
  assumes step: "instance_step X e s = (a, s')" and ok: "instance_ok s"
  shows "instance_ok s'"
proof -
  have opened: "snd ` opened s' = active s' \<and> inj_on snd (opened s')"
    using instance_step_opened [OF step ok]
  proof (elim disjE exE conjE)
    fix c name address
    assume "(name, address) \<notin> active s" "opened s' = insert (c, name, address) (opened s)"
      "active s' = insert (name, address) (active s)"
    with instance_okD(1,2) [OF ok] show ?thesis by auto
  next
    fix c name address
    assume "(c, name, address) \<in> opened s" "opened s' = opened s - {(c, name, address)}"
      "active s' = active s - {(name, address)}"
    with instance_okD(1,2) [OF ok] show ?thesis
      using inj_on_image_set_diff [OF instance_okD(2) [OF ok], of "opened s" "{(c, name, address)}"]
      by (simp add: inj_on_diff)
  qed (use instance_okD(1,2) [OF ok] in simp)
  show ?thesis
    using step
  proof (cases rule: instance_step_cases)
    case (beg c txn_id ts)
    have "cn_transaction (in_connections s c') \<noteq> Some (txn_id, t)" for c' t
      using instance_okD(4) [OF ok, of c' "(txn_id, t)"] beg(4) by auto
    with ok opened beg show ?thesis unfolding instance_ok_def by (auto split: if_splits)
  next
    case (use c name address txn_id ts db)
    then show ?thesis
      using ok opened instance_okD(4) [OF ok use(3)] unfolding instance_ok_def
      by (auto simp: map_of_eq_None_iff split: if_splits)
  next
    case (call c name cl txn_id ts db address txn answer sn)
    then show ?thesis
      using ok opened instance_okD(4) [OF ok call(3)] unfolding instance_ok_def by (auto split: if_splits)
  next
    case (end_in c name committed err db address)
    have "cn_transaction (in_connections s c) \<noteq> None"
      using instance_okD(6) [OF ok, of c] map_of_SomeD [OF end_in(3)] by (metis empty_iff list.set(1))
    with ok opened end_in show ?thesis
      unfolding instance_ok_def by (auto simp: distinct_map_filter split: if_splits)
  qed (use ok opened in \<open>auto simp: instance_ok_def cn_names_def split: if_splits\<close>)
qed

interpretation instances: call_system "instance_step X" instance_ok for X
  by unfold_locales (rule instance_step_ok)

section \<open>The transactions in progress\<close>

text \<open>The transaction a connection has open in a catalog: its ID, its start and its schemas.\<close>

definition in_transaction ::
  "('w, 'rest, 'tbl, 'm) db_instance \<Rightarrow> nat \<Rightarrow> string \<Rightarrow> (nat \<times> 64 word \<times> 'tbl schema_state) option" where
  "in_transaction s c name =
     (case (cn_transaction (in_connections s c), in_databases s name, map_of (cn_open (in_connections s c)) name) of
        (Some (txn_id, ts), Some db, Some a) \<Rightarrow>
          map_option (\<lambda>txn. (txn_id, ts, schema_state txn)) (at_transactions db a)
      | _ \<Rightarrow> None)"

lemma openedI: "map_of (cn_open (in_connections s c)) name = Some a \<Longrightarrow> (c, name, a) \<in> opened s"
  by (simp add: opened_def map_of_SomeD)

lemma opened_active: "instance_ok s \<Longrightarrow> (c, name, a) \<in> opened s \<Longrightarrow> (name, a) \<in> active s"
  using instance_okD(1) by force

lemma opened_unique: "instance_ok s \<Longrightarrow> (c, name, a) \<in> opened s \<Longrightarrow> (c', name, a) \<in> opened s \<Longrightarrow> c = c'"
  using instance_okD(2) unfolding inj_on_def by fastforce

text \<open>An event touches the transaction in progress of one connection in one catalog only.\<close>

lemma in_transaction_use:
  assumes ok: "instance_ok s" and "cn_transaction (in_connections s c) = Some (txn_id, ts)"
    and "in_databases s name = Some db" and "at_transactions db address = None"
    and "s' = s\<lparr>in_databases := (in_databases s)(name \<mapsto> db\<lparr>at_transactions :=
           (at_transactions db)(address \<mapsto> ProtoIcebergTransaction ts)\<rparr>),
         in_connections := (in_connections s)(c := (in_connections s c)
           \<lparr>cn_open := (name, address) # cn_open (in_connections s c)\<rparr>)\<rparr>"
  shows "in_transaction s' c' name' =
    (if c' = c \<and> name' = name then Some (txn_id, ts, schema_state (ProtoIcebergTransaction ts))
     else in_transaction s c' name')"
proof -
  have "map_of (cn_open (in_connections s c')) name \<noteq> Some address" for c'
    using openedI opened_active [OF ok, of c' name address] assms(3,4) by (fastforce simp: active_def)
  then show ?thesis
    using assms(2-5) by (auto simp: in_transaction_def split: option.splits)
qed

lemma in_transaction_call:
  assumes ok: "instance_ok s" and "cn_transaction (in_connections s c) = Some (txn_id, ts)"
    and "in_databases s name = Some db" and own: "map_of (cn_open (in_connections s c)) name = Some address"
    and "at_transactions db address = Some txn"
  shows "in_transaction (end_call c name db address txn sn s) c' name' =
    (if c' = c \<and> name' = name then Some (txn_id, ts, sn_schemas sn) else in_transaction s c' name')"
proof (cases "c' = c")
  case True
  then show ?thesis using assms(2-5) by (simp add: in_transaction_def split: option.split)
next
  case False
  then have "map_of (cn_open (in_connections s c')) name \<noteq> Some address"
    using opened_unique [OF ok] openedI own by metis
  then show ?thesis
    using False assms(2-5) by (auto simp: in_transaction_def split: option.split prod.split)
qed

lemma in_transaction_end_in:
  assumes ok: "instance_ok s" and "in_databases s name = Some db"
    and own: "map_of (cn_open (in_connections s c)) name = Some address"
    and "s' = s\<lparr>in_databases := (in_databases s)(name \<mapsto> db\<lparr>at_transactions :=
           (at_transactions db)(address := None)\<rparr>),
         in_connections := (in_connections s)(c := (in_connections s c)\<lparr>cn_ending := True,
           cn_open := filter (\<lambda>(n, _). n \<noteq> name) (cn_open (in_connections s c))\<rparr>)\<rparr>"
  shows "in_transaction s' c' name' = (if c' = c \<and> name' = name then None else in_transaction s c' name')"
proof -
  have filtered: "map_of (filter (\<lambda>(n, _). n \<noteq> name) xs) n = (if n = name then None else map_of xs n)"
    for n and xs :: "(string \<times> nat) list" by (induction xs) auto
  show ?thesis
  proof (cases "c' = c")
    case True
    then show ?thesis using assms(2-4) by (simp add: in_transaction_def filtered split: option.split)
  next
    case False
    then have "map_of (cn_open (in_connections s c')) name \<noteq> Some address"
      using opened_unique [OF ok] openedI own by metis
    then show ?thesis
      using False assms(2-4) by (auto simp: in_transaction_def split: option.split prod.split)
  qed
qed

section \<open>Ending a transaction\<close>

text \<open>Ending a transaction that is open in a catalog never reports an error.\<close>

lemma end_in_succeeds:
  assumes "instance_step X e s = (EndedIn err, s')" and "instance_ok s"
  shows "err = None"
  using assms(1)
proof (cases rule: instance_step_cases)
  case (end_in c name committed err' db address)
  have "(name, address) \<in> active s" using opened_active [OF assms(2) openedI [OF end_in(3)]] .
  then have "at_transactions db address \<noteq> None" using end_in(2) by (auto simp: active_def)
  then show ?thesis using end_in(4) by simp
qed auto

text \<open>The events that end a connection's transaction: in each catalog it has open, then as a whole.\<close>

definition end_events :: "nat \<Rightarrow> bool \<Rightarrow> ('w, 'rest, 'tbl, 'm) db_instance \<Rightarrow> 'w event list" where
  "end_events c committed s =
     map (\<lambda>(name, _). EvEndIn c name committed) (cn_open (in_connections s c)) @ [EvEnd c committed]"

lemma do_end_in_open:
  assumes ok: "instance_ok s" and head: "cn_open (in_connections s c) = (name, a) # rest"
  obtains s1 where "instance_step X (EvEndIn c name committed) s = (EndedIn None, s1)"
    "cn_open (in_connections s1 c) = rest" "cn_transaction (in_connections s1 c) = cn_transaction (in_connections s c)"
    "\<forall>c'. c' \<noteq> c \<longrightarrow> in_connections s1 c' = in_connections s c'"
proof -
  have own: "map_of (cn_open (in_connections s c)) name = Some a" by (simp add: head)
  obtain db txn where db: "in_databases s name = Some db" "at_transactions db a = Some txn"
    using opened_active [OF ok openedI [OF own]] by (auto simp: active_def)
  have "name \<notin> fst ` set rest" using instance_okD(3) [OF ok, of c] by (simp add: head)
  then have "filter (\<lambda>(n, _). n \<noteq> name) rest = rest" by (intro filter_True) force
  with db own head that show ?thesis
    by (cases committed) (auto simp: do_end_in_def CommitTransaction_def RollbackTransaction_def Let_def)
qed

lemma end_in_all:
  assumes "instance_ok s" and "cn_open (in_connections s c) = opens"
  obtains s1 where
    "run_all (instance_step X) (map (\<lambda>(name, _). EvEndIn c name committed) opens) s =
       (map (\<lambda>_. EndedIn None) opens, s1)"
    "instance_ok s1" "cn_open (in_connections s1 c) = []"
    "cn_transaction (in_connections s1 c) = cn_transaction (in_connections s c)"
    "\<forall>c'. c' \<noteq> c \<longrightarrow> in_connections s1 c' = in_connections s c'"
  using assms
proof (induction opens arbitrary: s thesis)
  case Nil
  then show ?case by simp
next
  case (Cons x opens)
  obtain name a where x: "x = (name, a)" by fastforce
  obtain s1 where s1: "instance_step X (EvEndIn c name committed) s = (EndedIn None, s1)"
    "cn_open (in_connections s1 c) = opens" "cn_transaction (in_connections s1 c) = cn_transaction (in_connections s c)"
    "\<forall>c'. c' \<noteq> c \<longrightarrow> in_connections s1 c' = in_connections s c'"
    by (rule do_end_in_open [OF Cons.prems(2), of c name a opens X committed]) (simp add: Cons.prems(3) x)
  obtain s2 where "run_all (instance_step X) (map (\<lambda>(name, _). EvEndIn c name committed) opens) s1 =
      (map (\<lambda>_. EndedIn None) opens, s2)" "instance_ok s2" "cn_open (in_connections s2 c) = []"
    "cn_transaction (in_connections s2 c) = cn_transaction (in_connections s1 c)"
    "\<forall>c'. c' \<noteq> c \<longrightarrow> in_connections s2 c' = in_connections s1 c'"
    by (rule Cons.IH [OF _ instance_step_ok [OF s1(1) Cons.prems(2)] s1(2)])
  with s1 Cons.prems(1) [of s2] show ?case by (simp add: x)
qed

section \<open>Properties\<close>

text \<open>
  C10. Transactions are kept apart: after any interleaving of any connections' events, the transactions
  that the catalogs' managers hold are exactly those that connections have open, each of one
  connection; no commit or rollback has reported that its transaction is not active; and a connection
  outside a transaction holds none.
\<close>

theorem managers_hold_open_transactions:
  assumes "run_all (instance_step X) events (new_instance env m) = (replies, s)"
  shows "active s = snd ` opened s \<and> inj_on snd (opened s) \<and>
    (\<forall>err. EndedIn err \<in> set replies \<longrightarrow> err = None) \<and>
    (\<forall>c name a. cn_transaction (in_connections s c) = None \<longrightarrow> (c, name, a) \<notin> opened s)"
proof -
  have ok: "instance_ok s" by (rule instances.run_ok [OF instance_ok_new assms])
  have "err = None" if "EndedIn err \<in> set replies" for err
  proof -
    obtain k where "k < length replies" "replies ! k = EndedIn err" using \<open>EndedIn err \<in> set replies\<close>
      by (auto simp: in_set_conv_nth)
    then have "(events ! k, EndedIn err) \<in> set (zip events replies)"
      using run_all_length [OF assms] by (auto simp: in_set_zip)
    from instances.run_answer [OF instance_ok_new assms this] show ?thesis using end_in_succeeds by blast
  qed
  moreover have "(c, name, a) \<notin> opened s" if "cn_transaction (in_connections s c) = None" for c name a
    using instance_okD(6) [OF ok that] by (simp add: opened_def)
  ultimately show ?thesis using instance_okD(1,2) [OF ok] by blast
qed

text \<open>
  C9. Every transaction can always be ended: whatever has happened before, also when the service or the
  secret manager fails, committing or rolling back a connection's transaction in each catalog it has
  open and then as a whole succeeds at every step; it leaves the connection idle, without a transaction
  in any manager and without secrets of its own, and all other connections as they are.
\<close>

theorem every_transaction_can_end:
  assumes "run_all (instance_step X) events (new_instance env m) = (replies, s)"
    and "cn_transaction (in_connections s c) \<noteq> None"
  shows "\<exists>s'. run_all (instance_step X) (end_events c committed s) s =
      (map (\<lambda>_. EndedIn None) (cn_open (in_connections s c)) @ [Done], s') \<and>
    cn_transaction (in_connections s' c) = None \<and> cn_names (in_connections s' c) = [] \<and>
    (\<forall>name a. (c, name, a) \<notin> opened s') \<and> active s' = snd ` opened s' \<and>
    (\<forall>c'. c' \<noteq> c \<longrightarrow> in_connections s' c' = in_connections s c')"
proof -
  have ok: "instance_ok s" by (rule instances.run_ok [OF instance_ok_new assms(1)])
  obtain s1 where s1: "run_all (instance_step X)
      (map (\<lambda>(name, _). EvEndIn c name committed) (cn_open (in_connections s c))) s =
      (map (\<lambda>_. EndedIn None) (cn_open (in_connections s c)), s1)"
    "instance_ok s1" "cn_open (in_connections s1 c) = []"
    "cn_transaction (in_connections s1 c) = cn_transaction (in_connections s c)"
    "\<forall>c'. c' \<noteq> c \<longrightarrow> in_connections s1 c' = in_connections s c'"
    by (rule end_in_all [OF ok refl])
  obtain reply s2 where step: "instance_step X (EvEnd c committed) s1 = (reply, s2)" by fastforce
  have "reply \<noteq> Refused"
    using step s1(3,4) assms(2) by (auto simp: do_end_def Let_def split: option.splits prod.splits)
  with step have reply: "reply = Done" and idle: "cn_transaction (in_connections s2 c) = None"
    "\<forall>c'. c' \<noteq> c \<longrightarrow> in_connections s2 c' = in_connections s1 c'"
    by (cases rule: instance_step_cases; auto split: if_splits)+
  have ok2: "instance_ok s2" by (rule instance_step_ok [OF step s1(2)])
  have "run_all (instance_step X) (end_events c committed s) s =
      (map (\<lambda>_. EndedIn None) (cn_open (in_connections s c)) @ [Done], s2)"
    using run_all_append [OF s1(1), of "[EvEnd c committed]"] step reply by (simp add: end_events_def)
  then show ?thesis
    using idle s1(5) instance_okD(6) [OF ok2 idle(1)] instance_okD(1) [OF ok2]
    by (intro exI [of _ s2]) (auto simp: opened_def)
qed

section \<open>A concrete instance\<close>

text \<open>
  A secret manager that stores its secrets, and two connections that use one catalog: the first starts
  between the table's two snapshots and the second after both, which looks the table up first.
\<close>

definition example_store :: "((string \<rightharpoonup> create_secret_input) \<times> string set) secret_manager" where
  "example_store = \<lparr>
     CreateSecret = (\<lambda>input (store, dropping). (Inr True, (store(cs_name input \<mapsto> input), dropping))),
     OpenAndBegin = (\<lambda>(store, dropping). (Inr (), (store, {}))),
     DropSecretByName = (\<lambda>name (store, dropping). (Inr (), (store, insert name dropping))),
     Commit = (\<lambda>(store, dropping). (Inr (), (store |` (- dropping), {})))\<rparr>"

definition example_duckdb ::
  "(nat, properties, properties, nat, (string \<rightharpoonup> create_secret_input) \<times> string set, unit, unit, unit) duckdb" where
  "example_duckdb = \<lparr>d_values = example_value_ops, d_strings = example_string_util,
     d_lookups = (\<lambda>m. example_lookups), d_properties = example_s3_properties, d_rest = example_rest_api,
     d_service = (\<lambda>rest. example_catalog), d_tables = example_table, d_add_column = example_add_column,
     d_default_schema = ''main'', d_functions = example_scan_functions, d_manager = example_store,
     d_what = (\<lambda>e. ''failed'')\<rparr>"

lemma example_duckdb_parts:
  "d_tables example_duckdb = example_table" "appends_column (d_add_column example_duckdb)"
  "d_properties example_duckdb = example_s3_properties" "d_manager example_duckdb = example_store"
  by (simp_all add: example_duckdb_def)

definition example_instance_events :: "nat event list" where
  "example_instance_events =
     [EvAttach ''lake'' [] [(''endpoint'', StringValue ''http://host''), (''default_schema'', StringValue ''sales'')],
      EvBegin 3 42 200000, EvBegin 2 43 400000, EvUse 3 ''lake'' 7, EvUse 2 ''lake'' 8,
      EvCall 2 ''lake'' (CallLookupSchema ''main'' THROW_EXCEPTION),
      EvCall 2 ''lake'' (CallLookupEntry ''sales'' TABLE_ENTRY ''orders''),
      EvWorld 9,
      EvCall 3 ''lake'' (CallLookupSchema ''main'' THROW_EXCEPTION),
      EvCall 3 ''lake'' (CallLookupEntry ''sales'' TABLE_ENTRY ''orders''),
      EvCall 3 ''lake'' (CallGetScanFunction ''sales'' 0)]"

definition example_start_state :: "(nat, properties, nat, (string \<rightharpoonup> create_secret_input) \<times> string set) db_instance" where
  "example_start_state = new_instance example_env (Map.empty, {})"

definition example_trace where
  "example_trace = run_all (instance_step example_duckdb) example_instance_events example_start_state"

abbreviation example_pinned_columns :: "table_column list" where
  "example_pinned_columns \<equiv> [\<lparr>col_name = ''id'', col_type = BIGINT, col_comment = None\<rparr>]"

abbreviation example_pinned :: "nat scan_info" where
  "example_pinned \<equiv> \<lparr>si_table = 7, si_mode = PinnedRead 1, si_schema = [SchemaField 1 ''id'' kLong []]\<rparr>"

lemma example_trace_evaluated:
  "(let (replies, s) = example_trace; cn = in_connections s 3
    in (replies ! 9, replies ! 10, cn_transaction cn, cn_open cn, cn_names cn)) =
   (Answered 42 200000 (FoundEntry (Inr (Some (0, \<lparr>te_name = ''orders'', te_columns = example_pinned_columns,
      te_scan_info = Some example_pinned, te_has_secret = False\<rparr>)))),
    Answered 42 200000 (FoundScan (Inr
      (\<lparr>tf_name = ''proto_iceberg_table_scan'', get_multi_file_reader = ProtoIcebergMultiFileReader,
        function_info = Some example_pinned, projection_pushdown = True, tf_rest = ()\<rparr>, ()))),
    Some (42, 200000), [(''lake'', 7)], [''__proto_ic_lake_42_0''])"
  by code_simp

lemma example_trace_connection:
  "cn_transaction (in_connections (snd example_trace) 3) = Some (42, 200000)"
  "cn_open (in_connections (snd example_trace) 3) = [(''lake'', 7)]"
  "cn_names (in_connections (snd example_trace) 3) = [''__proto_ic_lake_42_0'']"
  using example_trace_evaluated by (simp_all only: Let_def case_prod_unfold prod.inject)

lemma example_trace_run:
  "run_all (instance_step example_duckdb) example_instance_events (new_instance example_env (Map.empty, {})) =
     (fst example_trace, snd example_trace)"
  by (simp add: example_trace_def example_start_state_def)

lemma example_trace_call:
  "k < 11 \<Longrightarrow> (example_instance_events ! k, fst example_trace ! k) \<in> set (zip example_instance_events (fst example_trace))"
  using run_all_length [OF example_trace_run] by (auto simp: in_set_zip example_instance_events_def)

lemma example_trace_lookup:
  "(EvCall 3 ''lake'' (CallLookupEntry ''sales'' TABLE_ENTRY ''orders''),
    Answered 42 200000 (FoundEntry (Inr (Some (0, \<lparr>te_name = ''orders'', te_columns = example_pinned_columns,
      te_scan_info = Some example_pinned, te_has_secret = False\<rparr>))))) \<in> set (zip example_instance_events (fst example_trace))"
  and example_trace_scan:
  "(EvCall 3 ''lake'' (CallGetScanFunction ''sales'' 0),
    Answered 42 200000 (FoundScan (Inr
      (\<lparr>tf_name = ''proto_iceberg_table_scan'', get_multi_file_reader = ProtoIcebergMultiFileReader,
        function_info = Some example_pinned, projection_pushdown = True, tf_rest = ()\<rparr>, ()))))
     \<in> set (zip example_instance_events (fst example_trace))"
proof -
  have "example_instance_events ! 9 = EvCall 3 ''lake'' (CallLookupEntry ''sales'' TABLE_ENTRY ''orders'')"
    "example_instance_events ! 10 = EvCall 3 ''lake'' (CallGetScanFunction ''sales'' 0)"
    by (simp_all add: example_instance_events_def)
  with example_trace_call [of 9] example_trace_call [of 10] example_trace_evaluated
  show "(EvCall 3 ''lake'' (CallLookupEntry ''sales'' TABLE_ENTRY ''orders''),
      Answered 42 200000 (FoundEntry (Inr (Some (0, \<lparr>te_name = ''orders'', te_columns = example_pinned_columns,
        te_scan_info = Some example_pinned, te_has_secret = False\<rparr>))))) \<in> set (zip example_instance_events (fst example_trace))"
    and "(EvCall 3 ''lake'' (CallGetScanFunction ''sales'' 0),
      Answered 42 200000 (FoundScan (Inr
        (\<lparr>tf_name = ''proto_iceberg_table_scan'', get_multi_file_reader = ProtoIcebergMultiFileReader,
          function_info = Some example_pinned, projection_pushdown = True, tf_rest = ()\<rparr>, ()))))
       \<in> set (zip example_instance_events (fst example_trace))"
    by (simp_all add: Let_def case_prod_unfold)
qed

text \<open>Ending the first connection's transaction in this state.\<close>

definition example_end where
  "example_end = run_all (instance_step example_duckdb) (end_events 3 True (snd example_trace)) (snd example_trace)"

theorem every_transaction_can_end_witness:
  "fst example_end = [EndedIn None, Done] \<and> cn_names (in_connections (snd example_end) 3) = []"
proof -
  have "cn_transaction (in_connections (snd example_trace) 3) \<noteq> None" by (simp add: example_trace_connection)
  from every_transaction_can_end [OF example_trace_run this, of True] show ?thesis
    by (auto simp: example_end_def example_trace_connection)
qed

theorem managers_hold_open_transactions_witness:
  "(''lake'', 7) \<in> active (snd example_trace) \<and> active (snd example_trace) = snd ` opened (snd example_trace)"
proof -
  have "(3, ''lake'', 7) \<in> opened (snd example_trace)"
    by (simp add: opened_def example_trace_connection)
  with managers_hold_open_transactions [OF example_trace_run] show ?thesis by force
qed

end
