(* ===== verification/InstanceReads.thy ===== *)
theory InstanceReads
  imports DatabaseInstance
begin

text \<open>
  What the transactions of an instance read: in any interleaving of any connections' events, each
  transaction reads one database in each catalog, as of its start.
\<close>

section \<open>Answers that stay right\<close>

text \<open>The schemas of a transaction that started at \<open>ts\<close>; the other settings of its calls do not matter.\<close>

definition as_of_start ::
  "('w, 'cfg, 'rest, 'tbl, 'm, 'f, 'fs, 'b) duckdb \<Rightarrow> 64 word \<Rightarrow> 'tbl schema_state \<Rightarrow> bool" where
  "as_of_start X ts st \<longleftrightarrow>
     schemas_ok st \<and>
     (\<forall>n se. SchemasLookup st n = Some se \<longrightarrow>
        one_version (tables se) \<and>
        (appends_column (d_add_column X) \<longrightarrow>
           entries_ok (d_tables X) (start_timestamp_ms_of ts) (tables se)))"

lemma transaction_ok_setting: "transaction_ok (setting_of X name db txn_id ts) st = as_of_start X ts st"
  by (simp add: transaction_ok_def as_of_start_def setting_of_def x_start_def)

lemma as_of_start_new [simp]: "as_of_start X ts (schema_state (ProtoIcebergTransaction ts'))"
  by (simp add: as_of_start_def ProtoIcebergTransaction_def schemas_ok_def SchemasLookup_def)

text \<open>An answer is that of the database the transaction stands for at any later point.\<close>

definition stays_right ::
  "('w, 'cfg, 'rest, 'tbl, 'm, 'f, 'fs, 'b) duckdb \<Rightarrow> 64 word \<Rightarrow> 'tbl schema_state \<Rightarrow> call \<Rightarrow>
   ('tbl, 'f, 'b) answer \<Rightarrow> bool" where
  "stays_right X ts st cl x \<longleftrightarrow>
     (\<forall>st'. schemas_later st st' \<longrightarrow> as_of_start X ts st' \<longrightarrow>
        answer_from (database_of st') (table_of_reference st') cl x)"

lemma stays_right_later: "stays_right X ts st cl x \<Longrightarrow> schemas_later st st' \<Longrightarrow> stays_right X ts st' cl x"
  unfolding stays_right_def using schemas_later_trans by blast

lemma do_call_stays_right:
  assumes call: "do_call (setting_of X name db txn_id ts) cl s = (answer, sn)"
    and ok: "as_of_start X ts (sn_schemas s)"
  shows "as_of_start X ts (sn_schemas sn)" and "schemas_later (sn_schemas s) (sn_schemas sn)"
    and "stays_right X ts (sn_schemas sn) cl answer"
proof -
  let ?X = "setting_of X name db txn_id ts"
  have ok0: "session_ok ?X s" using ok by (simp add: session_ok_def transaction_ok_setting)
  then have ok1: "session_ok ?X sn" using session.call_ok call by blast
  then show "as_of_start X ts (sn_schemas sn)" by (simp add: session_ok_def transaction_ok_setting)
  show "schemas_later (sn_schemas s) (sn_schemas sn)"
    using catalog_steps_later [OF do_call_steps [OF call]] session_okD(1) [OF ok0] by simp
  show "stays_right X ts (sn_schemas sn) cl answer"
    unfolding stays_right_def
  proof clarify
    fix st' assume "schemas_later (sn_schemas sn) st'" and "as_of_start X ts st'"
    then show "answer_from (database_of st') (table_of_reference st') cl answer"
      using do_call_answer [OF call ok0 ok1, of "sn\<lparr>sn_schemas := st'\<rparr>"]
      by (simp add: session_ok_def transaction_ok_setting)
  qed
qed

section \<open>The history of an instance\<close>

text \<open>
  The history \<open>H\<close> holds the start and the schemas of every transaction in every catalog: those in progress
  as they are, those that have ended as they were, and no others; once it holds a transaction, the
  connection cannot start one anew in that catalog. All answers given stay right for it.
\<close>

type_synonym 'tbl history = "nat \<times> string \<Rightarrow> (64 word \<times> 'tbl schema_state) option"

definition holds_current :: "'tbl history \<Rightarrow> ('w, 'rest, 'tbl, 'm) db_instance \<Rightarrow> bool" where
  "holds_current H s \<longleftrightarrow>
     (\<forall>c name txn_id ts st. in_transaction s c name = Some (txn_id, ts, st) \<longrightarrow>
        H (txn_id, name) = Some (ts, st))"

definition holds_started :: "'tbl history \<Rightarrow> ('w, 'rest, 'tbl, 'm) db_instance \<Rightarrow> bool" where
  "holds_started H s \<longleftrightarrow>
     (\<forall>(txn_id, name) \<in> dom H. txn_id \<in> set (in_used s) \<and>
        (\<forall>c ts. cn_transaction (in_connections s c) = Some (txn_id, ts) \<longrightarrow>
           cn_ending (in_connections s c) \<or> name \<in> fst ` set (cn_open (in_connections s c))))"

definition holds_answers where
  "holds_answers X H tr \<longleftrightarrow>
     (\<forall>x ts st. H x = Some (ts, st) \<longrightarrow> as_of_start X ts st) \<and>
     (\<forall>c name cl txn_id ts x. (EvCall c name cl, Answered txn_id ts x) \<in> set tr \<longrightarrow>
        (\<exists>st. H (txn_id, name) = Some (ts, st) \<and> stays_right X ts st cl x))"

lemma holds_answersD:
  assumes "holds_answers X H tr"
  shows "H (txn_id, name) = Some (ts, st) \<Longrightarrow> as_of_start X ts st"
    and "(EvCall c name cl, Answered txn_id ts x) \<in> set tr \<Longrightarrow>
      \<exists>st. H (txn_id, name) = Some (ts, st) \<and> stays_right X ts st cl x"
proof -
  show "H (txn_id, name) = Some (ts, st) \<Longrightarrow> as_of_start X ts st"
    using assms unfolding holds_answers_def by blast
  show "(EvCall c name cl, Answered txn_id ts x) \<in> set tr \<Longrightarrow>
      \<exists>st. H (txn_id, name) = Some (ts, st) \<and> stays_right X ts st cl x"
    using assms unfolding holds_answers_def by blast
qed

lemma holds_answers_other:
  "holds_answers X H tr \<Longrightarrow> (case a of Answered _ _ _ \<Rightarrow> False | _ \<Rightarrow> True) \<Longrightarrow> holds_answers X H (tr @ [(e, a)])"
  unfolding holds_answers_def by auto

text \<open>A transaction is added, or moves on with a new answer.\<close>

lemma holds_answers_new:
  assumes "holds_answers X H tr" and "H (txn_id, name) = None" and "as_of_start X ts st"
    and "case a of Answered _ _ _ \<Rightarrow> False | _ \<Rightarrow> True"
  shows "holds_answers X (H((txn_id, name) \<mapsto> (ts, st))) (tr @ [(e, a)])"
proof (unfold holds_answers_def, intro conjI)
  show "\<forall>x ts2 st2. (H((txn_id, name) \<mapsto> (ts, st))) x = Some (ts2, st2) \<longrightarrow> as_of_start X ts2 st2"
    using assms(1,3) unfolding holds_answers_def by (simp add: fun_upd_def)
  show "\<forall>c n cl i ts' x. (EvCall c n cl, Answered i ts' x) \<in> set (tr @ [(e, a)]) \<longrightarrow>
      (\<exists>st'. (H((txn_id, name) \<mapsto> (ts, st))) (i, n) = Some (ts', st') \<and> stays_right X ts' st' cl x)"
    using assms(2,4) holds_answersD(2) [OF assms(1)] by fastforce
qed

lemma holds_answers_call:
  assumes "holds_answers X H tr" and "H (txn_id, name) = Some (ts, st)" and "as_of_start X ts st'"
    and "schemas_later st st'" and "stays_right X ts st' cl x"
  shows "holds_answers X (H((txn_id, name) \<mapsto> (ts, st'))) (tr @ [(EvCall c name cl, Answered txn_id ts x)])"
proof (unfold holds_answers_def, intro conjI)
  show "\<forall>x ts2 st2. (H((txn_id, name) \<mapsto> (ts, st'))) x = Some (ts2, st2) \<longrightarrow> as_of_start X ts2 st2"
    using assms(1,3) unfolding holds_answers_def by (simp add: fun_upd_def)
  have "\<exists>st2. (H((txn_id, name) \<mapsto> (ts, st'))) (i, n) = Some (ts', st2) \<and> stays_right X ts' st2 cl' x'"
    if "(EvCall c' n cl', Answered i ts' x') \<in> set tr" for c' n cl' i ts' x'
    using holds_answersD(2) [OF assms(1) that] assms(2,4) stays_right_later by fastforce
  then show "\<forall>c' n cl' i ts' x'.
      (EvCall c' n cl', Answered i ts' x') \<in> set (tr @ [(EvCall c name cl, Answered txn_id ts x)]) \<longrightarrow>
      (\<exists>st2. (H((txn_id, name) \<mapsto> (ts, st'))) (i, n) = Some (ts', st2) \<and> stays_right X ts' st2 cl' x')"
    using assms(5) by auto
qed

section \<open>Every event keeps a history\<close>

lemma in_transactionD:
  "in_transaction s c name = Some (txn_id, ts, st) \<Longrightarrow> cn_transaction (in_connections s c) = Some (txn_id, ts)"
  by (auto simp: in_transaction_def split: option.splits)

definition has_history where
  "has_history X tr s \<longleftrightarrow>
     instance_ok s \<and> (\<exists>H. holds_current H s \<and> holds_started H s \<and> holds_answers X H tr)"

text \<open>An event that leaves the transactions in progress as they are keeps the history.\<close>

lemma has_history_same:
  assumes "has_history X tr s" and "instance_ok s'" and "\<And>c name. in_transaction s' c name = in_transaction s c name"
    and "set (in_used s) \<subseteq> set (in_used s')"
    and "\<And>c t. cn_transaction (in_connections s' c) = Some t \<Longrightarrow> fst t \<in> set (in_used s) \<Longrightarrow>
      in_connections s' c = in_connections s c"
    and "case a of Answered _ _ _ \<Rightarrow> False | _ \<Rightarrow> True"
  shows "has_history X (tr @ [(e, a)]) s'"
proof -
  obtain H where H: "holds_current H s" "holds_started H s" "holds_answers X H tr"
    using assms(1) by (auto simp: has_history_def)
  have "holds_current H s'" using H(1) by (simp add: holds_current_def assms(3))
  moreover have "holds_started H s'"
    unfolding holds_started_def
  proof clarify
    fix txn_id name y assume dom: "H (txn_id, name) = Some y"
    then have used: "txn_id \<in> set (in_used s)" using H(2) by (auto simp: holds_started_def)
    moreover have "cn_ending (in_connections s' c) \<or> name \<in> fst ` set (cn_open (in_connections s' c))"
      if "cn_transaction (in_connections s' c) = Some (txn_id, ts)" for c ts
      using assms(5) [OF that] used H(2) dom that by (fastforce simp: holds_started_def)
    ultimately show "txn_id \<in> set (in_used s') \<and>
        (\<forall>c ts. cn_transaction (in_connections s' c) = Some (txn_id, ts) \<longrightarrow>
           cn_ending (in_connections s' c) \<or> name \<in> fst ` set (cn_open (in_connections s' c)))"
      using assms(4) by blast
  qed
  moreover have "holds_answers X H (tr @ [(e, a)])" by (rule holds_answers_other [OF H(3) assms(6)])
  ultimately show ?thesis using assms(2) by (auto simp: has_history_def)
qed

lemma has_history_use:
  assumes "has_history X tr s" and step: "instance_step X (EvUse c name address) s = (a, s')"
    and use: "a = Done" "cn_transaction (in_connections s c) = Some (txn_id, ts)" "in_databases s name = Some db"
      "\<not> cn_ending (in_connections s c)" "map_of (cn_open (in_connections s c)) name = None"
      "at_transactions db address = None"
      "s' = s\<lparr>in_databases := (in_databases s)(name \<mapsto> db\<lparr>at_transactions :=
           (at_transactions db)(address \<mapsto> ProtoIcebergTransaction ts)\<rparr>),
         in_connections := (in_connections s)(c := (in_connections s c)
           \<lparr>cn_open := (name, address) # cn_open (in_connections s c)\<rparr>)\<rparr>"
  shows "has_history X (tr @ [(EvUse c name address, a)]) s'"
proof -
  obtain H where ok: "instance_ok s" and H: "holds_current H s" "holds_started H s" "holds_answers X H tr"
    using assms(1) by (auto simp: has_history_def)
  let ?st = "schema_state (ProtoIcebergTransaction ts)"
  let ?H = "H((txn_id, name) \<mapsto> (ts, ?st))"
  have none: "H (txn_id, name) = None"
  proof (rule ccontr)
    assume "H (txn_id, name) \<noteq> None"
    then have "cn_ending (in_connections s c) \<or> name \<in> fst ` set (cn_open (in_connections s c))"
      using H(2) use(2) by (fastforce simp: holds_started_def)
    with use(4,5) show False by (simp add: map_of_eq_None_iff)
  qed
  have "holds_current ?H s'"
    unfolding holds_current_def in_transaction_use [OF ok use(2,3,6,7)]
    using H(1) none by (auto simp: holds_current_def)
  moreover have "holds_started ?H s'"
    using H(2) instance_okD(4) [OF ok use(2)] instance_okD(5) [OF ok use(2)] use(2,7)
    by (fastforce simp: holds_started_def)
  moreover have "holds_answers X ?H (tr @ [(EvUse c name address, a)])"
    by (rule holds_answers_new [OF H(3) none]) (simp_all add: use(1))
  ultimately show ?thesis using instance_step_ok [OF step ok] by (auto simp: has_history_def)
qed

lemma has_history_call:
  assumes "has_history X tr s" and step: "instance_step X (EvCall c name cl) s = (a, s')"
    and call: "a = Answered txn_id ts answer" "cn_transaction (in_connections s c) = Some (txn_id, ts)"
      "in_databases s name = Some db" "map_of (cn_open (in_connections s c)) name = Some address"
      "at_transactions db address = Some txn"
      "do_call (setting_of X name db txn_id ts) cl (call_session (in_connections s c) txn s) = (answer, sn)"
      "s' = end_call c name db address txn sn s"
  shows "has_history X (tr @ [(EvCall c name cl, a)]) s'"
proof -
  obtain H where ok: "instance_ok s" and H: "holds_current H s" "holds_started H s" "holds_answers X H tr"
    using assms(1) by (auto simp: has_history_def)
  let ?H = "H((txn_id, name) \<mapsto> (ts, sn_schemas sn))"
  have "in_transaction s c name = Some (txn_id, ts, schema_state txn)"
    using call(2-5) by (simp add: in_transaction_def)
  then have before: "H (txn_id, name) = Some (ts, schema_state txn)"
    using H(1) unfolding holds_current_def by blast
  then have "as_of_start X ts (schema_state txn)" using holds_answersD(1) [OF H(3)] by blast
  from do_call_stays_right [OF call(6)] this
  have right: "as_of_start X ts (sn_schemas sn)" "schemas_later (schema_state txn) (sn_schemas sn)"
    "stays_right X ts (sn_schemas sn) cl answer" by (simp_all add: call_session_def)
  have "c' = c" if "in_transaction s c' name' = Some (txn_id, ts', st')" for c' name' ts' st'
    using instance_okD(5) [OF ok in_transactionD [OF that] call(2)] by simp
  then have "holds_current ?H s'"
    unfolding holds_current_def call(7) in_transaction_call [OF ok call(2-5)]
    using H(1) by (auto simp: holds_current_def)
  moreover have "holds_started ?H s'"
    using H(2) before unfolding call(7) by (auto simp: holds_started_def split: if_splits) blast+
  moreover have "holds_answers X ?H (tr @ [(EvCall c name cl, a)])"
    unfolding call(1) by (rule holds_answers_call [OF H(3) before right])
  ultimately show ?thesis using instance_step_ok [OF step ok] by (auto simp: has_history_def)
qed

lemma has_history_end_in:
  assumes "has_history X tr s" and step: "instance_step X (EvEndIn c name committed) s = (a, s')"
    and end_in: "in_databases s name = Some db" "map_of (cn_open (in_connections s c)) name = Some address"
      "a = EndedIn err"
      "s' = s\<lparr>in_databases := (in_databases s)(name \<mapsto> db\<lparr>at_transactions :=
           (at_transactions db)(address := None)\<rparr>),
         in_connections := (in_connections s)(c := (in_connections s c)\<lparr>cn_ending := True,
           cn_open := filter (\<lambda>(n, _). n \<noteq> name) (cn_open (in_connections s c))\<rparr>)\<rparr>"
  shows "has_history X (tr @ [(EvEndIn c name committed, a)]) s'"
proof -
  obtain H where ok: "instance_ok s" and H: "holds_current H s" "holds_started H s" "holds_answers X H tr"
    using assms(1) by (auto simp: has_history_def)
  have "holds_current H s'"
    unfolding holds_current_def in_transaction_end_in [OF ok end_in(1,2,4)]
    using H(1) by (auto simp: holds_current_def)
  moreover have "holds_started H s'"
    using H(2) unfolding end_in(4) holds_started_def by (fastforce split: if_splits)
  moreover have "holds_answers X H (tr @ [(EvEndIn c name committed, a)])"
    by (rule holds_answers_other [OF H(3)]) (simp add: end_in(3))
  ultimately show ?thesis using instance_step_ok [OF step ok] by (auto simp: has_history_def)
qed

lemma has_history_step:
  assumes "has_history X tr s" and step: "instance_step X e s = (a, s')"
  shows "has_history X (tr @ [(e, a)]) s'"
proof -
  have ok: "instance_ok s" using assms(1) by (simp add: has_history_def)
  note ok' = instance_step_ok [OF step ok]
  from step show ?thesis
  proof (cases rule: instance_step_cases)
    case (attached name path options cat rest env)
    then show ?thesis
      by (intro has_history_same [OF assms(1) ok']) (auto simp: in_transaction_def split: option.split)
  next
    case (beg c txn_id ts)
    then show ?thesis
      using instance_okD(6) [OF ok beg(3)]
      by (intro has_history_same [OF assms(1) ok'])
        (auto simp: in_transaction_def split: option.split if_splits)
  next
    case (use c name address txn_id ts db)
    with step show ?thesis by (auto intro: has_history_use [OF assms(1)])
  next
    case (call c name cl txn_id ts db address txn answer sn)
    with step show ?thesis by (auto intro: has_history_call [OF assms(1)])
  next
    case (end_in c name committed err db address)
    with step show ?thesis by (auto intro: has_history_end_in [OF assms(1)])
  next
    case (fin c committed registered m env)
    then show ?thesis
      by (intro has_history_same [OF assms(1) ok'])
        (auto simp: in_transaction_def split: option.split if_splits)
  next
    case refused
    then show ?thesis by (intro has_history_same [OF assms(1) ok']) simp_all
  next
    case (attach_failed name path options err env)
    then show ?thesis by (intro has_history_same [OF assms(1) ok']) (simp_all add: in_transaction_def)
  next
    case (elsewhere w)
    then show ?thesis by (intro has_history_same [OF assms(1) ok']) (simp_all add: in_transaction_def)
  qed
qed

lemma in_transaction_new [simp]: "in_transaction (new_instance env m) c name = None"
  by (simp add: in_transaction_def new_instance_def idle_connection_def)

lemma has_history_new: "has_history X [] (new_instance env m)"
  by (auto simp: has_history_def holds_current_def holds_started_def holds_answers_def
      intro!: exI [of _ Map.empty])

lemma run_has_history:
  "run_all (instance_step X) es (new_instance env m) = (replies, s) \<Longrightarrow> has_history X (zip es replies) s"
  using run_all_trace [where P = "has_history X" and tr = "[]", OF _ has_history_new has_history_step] by simp

section \<open>The database of a transaction in a catalog\<close>

lemma history_answers:
  assumes "holds_answers X H tr" and "appends_column (d_add_column X)"
    and "(EvCall c name cl, Answered txn_id ts x) \<in> set tr"
    and "db = database_of (snd (the (H (txn_id, name))))"
    and "table_of = table_of_reference (snd (the (H (txn_id, name))))"
  shows "answer_from db table_of cl x"
    and "db (n, t) = Some (columns, info) \<Longrightarrow>
      reads_as_of (d_tables X) (start_timestamp_ms_of ts) (si_table info) info \<and>
      columns_mirror columns (si_schema info)"
proof -
  obtain st where st: "H (txn_id, name) = Some (ts, st)" and right: "stays_right X ts st cl x"
    using holds_answersD(2) [OF assms(1,3)] by blast
  then have start: "as_of_start X ts st" using holds_answersD(1) [OF assms(1)] by blast
  then have "schemas_later st st" by (intro schemas_later_refl) (simp add: as_of_start_def)
  with right start show "answer_from db table_of cl x" using st assms(4,5) by (simp add: stays_right_def)
  assume "db (n, t) = Some (columns, info)"
  then show "reads_as_of (d_tables X) (start_timestamp_ms_of ts) (si_table info) info \<and>
      columns_mirror columns (si_schema info)"
    using database_as_of_start [of "setting_of X name undefined txn_id ts" st n t columns info] start st assms(2,4)
    by (simp add: transaction_ok_setting) (simp add: setting_of_def x_start_def)
qed

text \<open>A scan function that was answered reads the table that its entry was looked up for.\<close>

lemma answered_scan:
  assumes "appends_column (d_add_column X)"
    and "run_all (instance_step X) events (new_instance env m) = (replies, s)"
    and "(EvCall c name (CallLookupEntry n TABLE_ENTRY t), Answered txn_id ts (FoundEntry (Inr (Some (i, entry)))))
      \<in> set (zip events replies)"
    and "(EvCall c' name (CallGetScanFunction n i), Answered txn_id ts' (FoundScan (Inr (scan, b))))
      \<in> set (zip events replies)"
  obtains info where "te_scan_info entry = Some info" "function_info scan = Some info"
    "reads_as_of (d_tables X) (start_timestamp_ms_of ts) (si_table info) info"
    "columns_mirror (te_columns entry) (si_schema info)"
proof -
  from run_has_history [OF assms(2)] obtain H where H: "holds_answers X H (zip events replies)"
    by (auto simp: has_history_def)
  note lookup = history_answers [OF H assms(1,3) refl refl]
  note scan = history_answers(1) [OF H assms(1,4) refl refl]
  from lookup(1) scan that lookup(2) show thesis by fastforce
qed

section \<open>Property\<close>

text \<open>
  C1. Every transaction reads one database: connections attach catalogs and run any number of
  transactions over them, their events interleaved in any way, while the service's answers change; for
  each transaction and each catalog it uses there is one database with which every lookup of a table,
  every scan function and every loaded entry that a scan of a schema shows agree. Each of its tables is
  as of the transaction's start, with the columns of that version's schema; a table without snapshots
  is as it was loaded (\<open>reads_as_of\<close>). It does not cover which schemas and placeholders the catalog
  shows, which may change until they are looked up (\<open>answer_from\<close>).
\<close>

theorem every_transaction_reads_one_database:
  assumes "appends_column (d_add_column X)"
    and "run_all (instance_step X) events (new_instance env m) = (replies, s)"
  shows "\<exists>db table_of. \<forall>c name cl txn_id ts x.
    (EvCall c name cl, Answered txn_id ts x) \<in> set (zip events replies) \<longrightarrow>
      answer_from (db txn_id name) (table_of txn_id name) cl x \<and>
      (\<forall>n t columns info. db txn_id name (n, t) = Some (columns, info) \<longrightarrow>
         reads_as_of (d_tables X) (start_timestamp_ms_of ts) (si_table info) info \<and>
         columns_mirror columns (si_schema info))"
proof -
  from run_has_history [OF assms(2)] obtain H where H: "holds_answers X H (zip events replies)"
    by (auto simp: has_history_def)
  show ?thesis
    using history_answers [OF H assms(1) _ refl refl]
    by (intro exI [of _ "\<lambda>txn_id name. database_of (snd (the (H (txn_id, name))))"]
        exI [of _ "\<lambda>txn_id name. table_of_reference (snd (the (H (txn_id, name))))"]) blast
qed

theorem every_transaction_reads_one_database_witness:
  "\<exists>db. db (42 :: nat) ''lake'' (''sales'', ''orders'') = Some (example_pinned_columns, example_pinned) \<and>
    reads_as_of example_table 200 7 example_pinned"
proof -
  let ?calls = "set (zip example_instance_events (fst example_trace))"
  from every_transaction_reads_one_database [OF example_duckdb_parts(2) example_trace_run] obtain db table_of where
    db: "\<And>c name cl txn_id ts x. (EvCall c name cl, Answered txn_id ts x) \<in> ?calls \<Longrightarrow>
      answer_from (db txn_id name) (table_of txn_id name) cl x \<and>
      (\<forall>n t columns info. db txn_id name (n, t) = Some (columns, info) \<longrightarrow>
         reads_as_of (d_tables example_duckdb) (start_timestamp_ms_of ts) (si_table info) info \<and>
         columns_mirror columns (si_schema info))" by blast
  from db [OF example_trace_lookup] have found: "db 42 ''lake'' (''sales'', ''orders'') =
      Some (example_pinned_columns, example_pinned)" by simp
  moreover have "reads_as_of (d_tables example_duckdb) (start_timestamp_ms_of 200000) (si_table example_pinned)
      example_pinned" using db [OF example_trace_lookup] found by blast
  moreover have "start_timestamp_ms_of 200000 = 200" by code_simp
  ultimately show ?thesis by (auto simp: example_duckdb_parts)
qed

end
