(* ===== verification/InstanceSecrets.thy ===== *)
theory InstanceSecrets
  imports InstanceReads
begin

text \<open>
  The secrets of an instance: the secret manager is shared by all connections, whose scans create
  secrets in it and whose transactions drop them when they end. The lemmas show that connections do not
  disturb each other's secrets or the user's, and that a scan has its credentials as long as its
  transaction runs.
\<close>

section \<open>What the secret manager stores\<close>

text \<open>
  What is relied on of DuckDB's secret manager, with \<open>stored m\<close> the secrets by name and \<open>dropping m\<close> those
  a drop's transaction has removed so far: a creation that returns a secret has stored it, replacing
  one of that name; drops take effect at commit; an operation that throws stores and removes nothing.
\<close>

definition secret_store_laws ::
  "'m secret_manager \<Rightarrow> ('m \<Rightarrow> string \<rightharpoonup> create_secret_input) \<Rightarrow> ('m \<Rightarrow> string set) \<Rightarrow> bool" where
  "secret_store_laws M stored dropping \<longleftrightarrow>
     (\<forall>input m. stored (snd (CreateSecret M input m)) =
        (if fst (CreateSecret M input m) = Inr True then (stored m)(cs_name input \<mapsto> input) else stored m)) \<and>
     (\<forall>m. stored (snd (OpenAndBegin M m)) = stored m \<and>
        (fst (OpenAndBegin M m) = Inr () \<longrightarrow> dropping (snd (OpenAndBegin M m)) = {})) \<and>
     (\<forall>name m. stored (snd (DropSecretByName M name m)) = stored m \<and>
        (fst (DropSecretByName M name m) = Inr () \<longrightarrow>
           dropping (snd (DropSecretByName M name m)) = insert name (dropping m))) \<and>
     (\<forall>m. stored (snd (Commit M m)) =
        (if fst (Commit M m) = Inr () then stored m |` (- dropping m) else stored m))"

lemma secret_store_manager_laws:
  "secret_store_laws M stored dropping \<Longrightarrow> secret_manager_laws M (\<lambda>m. dom (stored m)) dropping"
  unfolding secret_store_laws_def secret_manager_laws_def by auto

lemma DropSecrets_stored:
  assumes "secret_store_laws M stored dropping" and "DropSecrets M names m = (r, m')"
  shows "stored m' = stored m"
  using assms(2)
proof (induction names arbitrary: m)
  case (Cons name names)
  obtain r1 m1 where drop: "DropSecretByName M name m = (r1, m1)" by fastforce
  then have "stored m1 = stored m"
    using assms(1) unfolding secret_store_laws_def by (metis snd_conv)
  then show ?case using Cons drop by (cases r1) auto
qed simp

definition secret_warnings :: "'w env \<Rightarrow> string set" where
  "secret_warnings env = {w. LogSecretsNotDropped w \<in> set (log env)}"

text \<open>Dropping a transaction's secrets removes just these, or logs why it did not.\<close>

lemma DropAll_stored:
  assumes laws: "secret_store_laws M stored dropping" and "DropAll M what names m env = (names', m', env')"
  shows "(stored m' = stored m |` (- set names) \<and> secret_warnings env' = secret_warnings env) \<or>
    (stored m' = stored m \<and> (\<exists>e. secret_warnings env' = insert (what e) (secret_warnings env)))"
proof -
  obtain rb mb where beg: "OpenAndBegin M m = (rb, mb)" by fastforce
  obtain rd md where drop: "DropSecrets M names mb = (rd, md)" by fastforce
  obtain rc mc where com: "Commit M md = (rc, mc)" by fastforce
  have "stored mb = stored m" and begun: "rb = Inr () \<Longrightarrow> dropping mb = {}"
    using laws beg unfolding secret_store_laws_def by (metis fst_conv snd_conv)+
  moreover have "stored md = stored mb" using DropSecrets_stored [OF laws drop] .
  moreover have "rd = Inr () \<Longrightarrow> dropping md = dropping mb \<union> set names"
    using DropSecrets_laws [OF secret_store_manager_laws [OF laws] drop] by simp
  moreover have "stored mc = (if rc = Inr () then stored md |` (- dropping md) else stored md)"
    using laws com unfolding secret_store_laws_def by (metis fst_conv snd_conv)
  ultimately show ?thesis
    using assms(2) beg drop com
    by (cases rb; cases rd; cases rc)
      (auto simp: DropAll_def secret_warnings_def env_simps restrict_map_def split: if_splits)
qed

lemma GetScanFunction_stored:
  assumes laws: "secret_store_laws M stored dropping"
    and "GetScanFunction F M T P txn_id c i reg names m = (r, reg', names', m')"
  shows "(reg' = reg \<and> names' = names \<and> stored m' = stored m) \<or>
    (\<exists>info input. te_scan_info (deref reg i) = Some info \<and> BuildScopedS3Secret T P (si_table info) = Inr input \<and>
       reg' = SetHasSecret i reg \<and> names' = names @ [scoped_secret_name c txn_id (length names)] \<and>
       stored m' = (stored m)(scoped_secret_name c txn_id (length names) \<mapsto>
         input\<lparr>cs_name := scoped_secret_name c txn_id (length names)\<rparr>))"
proof (cases "te_scan_info (deref reg i)")
  case None
  with assms show ?thesis by (simp add: GetScanFunction_def Let_def)
next
  case (Some info)
  obtain r1 names1 m1 where create:
    "ScopedSecretsCreate M T P txn_id c (si_table info) names m = (r1, names1, m1)"
    using prod_cases3 by blast
  have law: "stored (snd (CreateSecret M input m)) =
      (if fst (CreateSecret M input m) = Inr True then (stored m)(cs_name input \<mapsto> input) else stored m)" for input
    using laws by (simp add: secret_store_laws_def)
  have unchanged: "reg' = reg \<and> names' = names \<and> m' = m \<or>
      \<not> te_has_secret (deref reg i) \<and> names' = names1 \<and> m' = m1 \<and>
        reg' = (if r1 = Inr () then SetHasSecret i reg else reg)"
    using assms(2) Some create
    by (cases r1) (auto simp: GetScanFunction_def Let_def split: sum.splits if_splits)
  from create show ?thesis
  proof (cases rule: ScopedSecretsCreate_cases)
    case (failed e)
    then have "stored m1 = stored m" using law by auto
    with failed unchanged show ?thesis by auto
  next
    case (created input)
    let ?k = "scoped_secret_name c txn_id (length names)"
    have "stored m1 = (stored m)(?k \<mapsto> input\<lparr>cs_name := ?k\<rparr>)"
      using law [of "input\<lparr>cs_name := ?k\<rparr>"] created(4) by simp
    with created unchanged Some show ?thesis by auto
  qed
qed

text \<open>Nothing else that a transaction calls touches the secrets or warns of them.\<close>

lemma do_call_warnings:
  assumes "do_call X cl s = (a, s')"
  shows "secret_warnings (sn_env s') = secret_warnings (sn_env s)"
  using assms
proof (cases rule: do_call_cases)
  case (scan_schemas r st env)
  obtain skipped where "log env = log (sn_env s) @ (if schemas_listed (sn_schemas s) then []
      else LogListNamespaces # map LogSkippedNamespace skipped)"
    using ScanSchemas_log [OF scan_schemas(3)] by blast
  then show ?thesis using scan_schemas(4) by (auto simp: secret_warnings_def)
next
  case (lookup n ty t se r se' env)
  have "secret_warnings env = secret_warnings (sn_env s)"
    using lookup(3) by (auto simp: LookupEntry_def secret_warnings_def split: if_splits lookup_result.splits
        dest!: LoadTableEntry_env)
  then show ?thesis by (simp add: lookup(5))
next
  case (scan n ty se r se' env)
  obtain l se1 env1 where list: "ListOnce (x_service X) (x_add_column X) se (sn_env s) = (l, se1, env1)"
    using prod_cases3 by blast
  then have "secret_warnings env1 = secret_warnings (sn_env s)"
    by (cases rule: ListOnce_cases) (auto simp: secret_warnings_def)
  moreover have "env = env1 \<or> env = sn_env s"
    using scan(3) Scan_state [of "x_service X" "x_add_column X" ty "\<lambda>i is. Inr (is @ [i])" "[]" se "sn_env s"]
    by (auto simp: list split: if_splits)
  ultimately show ?thesis using scan(5) by auto
qed simp_all

section \<open>An entry that has its secret\<close>

text \<open>\<open>R\<close> holds of the scan information of every entry that is noted to have a secret.\<close>

definition backed :: "('tbl scan_info option \<Rightarrow> bool) \<Rightarrow> 'tbl registry \<Rightarrow> bool" where
  "backed R reg \<longleftrightarrow>
     (\<forall>i < length (reg_entries reg). te_has_secret (deref reg i) \<longrightarrow> R (te_scan_info (deref reg i)))"

lemma backed_simps [simp]:
  "backed R empty_registry"
  "backed R (MarkMissing t reg) = backed R reg"
  "backed R (MarkListed reg) = backed R reg"
  by (simp_all add: backed_def deref_def empty_registry_def)

lemma backed_mono: "backed R reg \<Longrightarrow> (\<And>info. R info \<Longrightarrow> R' info) \<Longrightarrow> backed R' reg"
  by (auto simp: backed_def)

lemma backed_Store: "backed R reg \<Longrightarrow> \<not> te_has_secret entry \<Longrightarrow> backed R (snd (RegistryStore entry reg))"
  by (auto simp: backed_def less_Suc_eq deref_Store_other)

lemma backed_SetHasSecret:
  "backed R reg \<Longrightarrow> R (te_scan_info (deref reg i)) \<Longrightarrow> backed R (SetHasSecret i reg)"
  by (auto simp: backed_def deref_SetHasSecret)

lemma StorePlaceholders_backed:
  "StorePlaceholders A children reg = (r, reg') \<Longrightarrow> backed R reg \<Longrightarrow> backed R reg'"
proof (induction A children reg arbitrary: r reg' rule: StorePlaceholders.induct)
  case (2 A child children reg)
  then show ?case
    by (auto simp: backed_Store ProtoIcebergTableEntry_def split: if_splits sum.splits)
qed simp

lemma LookupEntry_backed:
  assumes "LookupEntry C T A start ty t se env = (r, se', env')" and "backed R (tables se)"
  shows "backed R (tables se')"
proof -
  have "backed R (tables se')" if "LoadTableEntry C T A start t se env = (r, se', env')"
    using that
    by (cases rule: LoadTableEntry_cases) (simp_all add: assms(2) backed_Store ProtoIcebergTableEntry_def)
  with assms show ?thesis by (auto simp: LookupEntry_def split: if_splits lookup_result.splits)
qed

lemma Scan_backed:
  assumes "Scan C A ty callback s se env = (r, se', env')" and "backed R (tables se)"
  shows "backed R (tables se')"
proof -
  have state: "(se', env') = snd (Scan C A ty callback s se env)" using assms(1) by simp
  obtain l se1 env1 where list: "ListOnce C A se env = (l, se1, env1)" using prod_cases3 by blast
  then have "backed R (tables se1)"
    using assms(2)
    by (cases rule: ListOnce_cases) (auto simp: MarkNamespaceMissing_def dest: StorePlaceholders_backed)
  with state assms(2) show ?thesis by (auto simp: Scan_state list split: if_splits)
qed

section \<open>A scan's credentials\<close>

text \<open>There is a secret with the table's scopes and vended credentials, among those of the connection.\<close>

definition has_credentials ::
  "'tbl iceberg_table \<Rightarrow> s3_properties \<Rightarrow> string list \<Rightarrow> (string \<rightharpoonup> create_secret_input) \<Rightarrow>
   'tbl scan_info option \<Rightarrow> bool" where
  "has_credentials T P names store info \<longleftrightarrow>
     (\<exists>si input k. info = Some si \<and> BuildScopedS3Secret T P (si_table si) = Inr input \<and> k \<in> set names \<and>
        store k = Some (input\<lparr>cs_name := k\<rparr>))"

definition credentials_ok where
  "credentials_ok T P names store st \<longleftrightarrow>
     (\<forall>n se. SchemasLookup st n = Some se \<longrightarrow> backed (has_credentials T P names store) (tables se))"

lemma has_credentials_mono:
  "has_credentials T P names store info \<Longrightarrow> set names \<subseteq> set names' \<Longrightarrow>
   (\<forall>k \<in> set names. store' k = store k) \<Longrightarrow> has_credentials T P names' store' info"
  unfolding has_credentials_def by fastforce

lemma credentials_ok_mono:
  assumes "credentials_ok T P names store st" and "set names \<subseteq> set names'" and "\<forall>k \<in> set names. store' k = store k"
  shows "credentials_ok T P names' store' st"
  unfolding credentials_ok_def
proof (intro allI impI)
  fix n se assume "SchemasLookup st n = Some se"
  with assms(1) have "backed (has_credentials T P names store) (tables se)" by (simp add: credentials_ok_def)
  then show "backed (has_credentials T P names' store') (tables se)"
    by (rule backed_mono) (rule has_credentials_mono [OF _ assms(2,3)])
qed

lemma credentials_ok_Store:
  "credentials_ok T P names store st \<Longrightarrow> backed (has_credentials T P names store) (tables se) \<Longrightarrow>
   credentials_ok T P names store (SchemasStore n se st)"
  by (auto simp: credentials_ok_def split: if_splits)

lemma LookupSchema_credentials:
  "LookupSchema D cat name if_not_found st = (r, st') \<Longrightarrow> credentials_ok T P names store st \<Longrightarrow>
   credentials_ok T P names store st'"
  by (auto simp: LookupSchema_resolved Let_def MakeSchemaEntry_def ProtoIcebergSchemaEntry_def
      credentials_ok_Store split: if_splits)

lemma ScanSchemas_credentials:
  assumes "ScanSchemas C callback s st env = (r, st', env')" and "schemas_ok st"
    and "credentials_ok T P names store st"
  shows "credentials_ok T P names store st'"
proof -
  obtain l st1 env1 where list: "ListSchemasOnce C st env = (l, st1, env1)" using prod_cases3 by blast
  have st': "st' = st1" using assms(1) ScanSchemas_state [of C callback s st env] by (simp add: list)
  from list assms(2) show ?thesis
  proof (cases rule: ListSchemasOnce_cases)
    case (listed namespaces)
    then show ?thesis
      using assms(3) st'
      by (auto simp: credentials_ok_def MakeSchemaEntry_def ProtoIcebergSchemaEntry_def MarkNamespaceMissing_def
          split: if_splits option.splits)
  qed (use assms(3) st' in auto)
qed

section \<open>What a call does to the secrets\<close>

text \<open>A call adds at most one secret, under the next name of its transaction.\<close>

definition adds_secret where
  "adds_secret catalog_name txn_id names store names' store' \<longleftrightarrow>
     (names' = names \<and> store' = store) \<or>
     (\<exists>input. names' = names @ [scoped_secret_name catalog_name txn_id (length names)] \<and>
        store' = store(scoped_secret_name catalog_name txn_id (length names) \<mapsto> input))"

lemma do_call_adds_secret:
  assumes laws: "secret_store_laws (x_secrets X) stored dropping" and call: "do_call X cl s = (a, s')"
  shows "adds_secret (x_catalog_name X) (x_txn_id X) (sn_names s) (stored (sn_manager s)) (sn_names s')
    (stored (sn_manager s'))"
  using call
proof (cases rule: do_call_cases)
  case (get_scan n i se r reg names m)
  show ?thesis
    using GetScanFunction_stored [OF laws get_scan(4)] by (auto simp: adds_secret_def get_scan(6))
qed (simp_all add: adds_secret_def)

text \<open>The next name is new in its transaction and in every other one.\<close>

lemma next_name_new:
  assumes "names_ok txn_id names"
  shows "scoped_secret_name c txn_id (length names) \<notin> set names"
proof
  assume "scoped_secret_name c txn_id (length names) \<in> set names"
  then obtain i where "i < length names" "names ! i = scoped_secret_name c txn_id (length names)"
    by (auto simp: in_set_conv_nth)
  with assms show False unfolding names_ok_def by (metis scoped_secret_name_eq nat_neq_iff)
qed

lemma names_ok_other:
  "names_ok txn_id names \<Longrightarrow> k \<in> set names \<Longrightarrow> k = scoped_secret_name c txn_id' i \<Longrightarrow> txn_id' = txn_id"
  unfolding names_ok_def by (metis in_set_conv_nth scoped_secret_name_eq)

lemma adds_secret_names:
  assumes "adds_secret c txn_id names store names' store'" and "names_ok txn_id names"
  shows "names_ok txn_id names'" and "set names \<subseteq> set names'" and "\<forall>k \<in> set names. store' k = store k"
proof -
  show "names_ok txn_id names'"
    using assms unfolding adds_secret_def names_ok_def by (auto simp: nth_append less_Suc_eq) blast
  show "set names \<subseteq> set names'" using assms(1) by (auto simp: adds_secret_def)
  show "\<forall>k \<in> set names. store' k = store k"
    using assms(1) next_name_new [OF assms(2), of c] by (auto simp: adds_secret_def)
qed

lemma do_call_credentials:
  assumes laws: "secret_store_laws (x_secrets X) stored dropping" and call: "do_call X cl s = (a, s')"
    and "schemas_ok (sn_schemas s)" and names: "names_ok (x_txn_id X) (sn_names s)"
    and creds: "credentials_ok (x_tables X) (x_properties X) (sn_names s) (stored (sn_manager s)) (sn_schemas s)"
  shows "credentials_ok (x_tables X) (x_properties X) (sn_names s') (stored (sn_manager s')) (sn_schemas s')"
    and "a = FoundScan (Inr (scan, b)) \<Longrightarrow>
      has_credentials (x_tables X) (x_properties X) (sn_names s') (stored (sn_manager s')) (function_info scan)"
proof -
  let ?has = "has_credentials (x_tables X) (x_properties X)"
  note adds = adds_secret_names [OF do_call_adds_secret [OF laws call] names]
  have old: "credentials_ok (x_tables X) (x_properties X) (sn_names s') (stored (sn_manager s')) (sn_schemas s)"
    by (rule credentials_ok_mono [OF creds adds(2,3)])
  show "credentials_ok (x_tables X) (x_properties X) (sn_names s') (stored (sn_manager s')) (sn_schemas s')"
    using call
  proof (cases rule: do_call_cases)
    case (get_scan n i se r reg names m)
    have se: "backed (?has names (stored m)) (tables se)"
      using old get_scan(2,6) by (auto simp: credentials_ok_def)
    from GetScanFunction_stored [OF laws get_scan(4)] have "backed (?has names (stored m)) reg"
    proof (elim disjE exE conjE)
      fix info input
      let ?k = "scoped_secret_name (x_catalog_name X) (x_txn_id X) (length (sn_names s))"
      assume "te_scan_info (deref (tables se) i) = Some info" "names = sn_names s @ [?k]"
        "BuildScopedS3Secret (x_tables X) (x_properties X) (si_table info) = Inr input"
        "stored m = (stored (sn_manager s))(?k \<mapsto> input\<lparr>cs_name := ?k\<rparr>)" and reg: "reg = SetHasSecret i (tables se)"
      then have "?has names (stored m) (te_scan_info (deref (tables se) i))"
        unfolding has_credentials_def by auto
      from backed_SetHasSecret [OF se this] show ?thesis unfolding reg .
    qed (use se in simp)
    then show ?thesis using old get_scan(6) by (simp add: credentials_ok_Store)
  next
    case (lookup n ty t se r se' env)
    then have "backed (?has (sn_names s) (stored (sn_manager s))) (tables se)"
      using creds by (auto simp: credentials_ok_def)
    from LookupEntry_backed [OF lookup(3) this] show ?thesis
      using creds by (simp add: lookup(5) credentials_ok_Store)
  next
    case (scan n ty se r se' env)
    then have "backed (?has (sn_names s) (stored (sn_manager s))) (tables se)"
      using creds by (auto simp: credentials_ok_def)
    from Scan_backed [OF scan(3) this] show ?thesis
      using creds by (simp add: scan(5) credentials_ok_Store)
  next
    case (lookup_schema name if_not_found r st)
    then show ?thesis using LookupSchema_credentials [OF lookup_schema(3) creds] by simp
  next
    case (scan_schemas r st env)
    then show ?thesis using ScanSchemas_credentials [OF scan_schemas(3) assms(3) creds] by simp
  qed (simp add: creds)
  assume a: "a = FoundScan (Inr (scan, b))"
  from call this obtain n i se reg names m where get_scan: "SchemasLookup (sn_schemas s) n = Some se"
    "i < length (reg_entries (tables se))"
    "GetScanFunction (x_functions X) (x_secrets X) (x_tables X) (x_properties X) (x_txn_id X)
       (x_catalog_name X) i (tables se) (sn_names s) (sn_manager s) = (Inr (scan, b), reg, names, m)"
    "s' = s\<lparr>sn_schemas := SchemasStore n (se\<lparr>tables := reg\<rparr>) (sn_schemas s), sn_names := names, sn_manager := m\<rparr>"
    by (cases rule: do_call_cases) auto
  from GetScanFunction_returned [OF get_scan(3,2)] have info: "function_info scan = te_scan_info (deref (tables se) i)"
    and "te_has_secret (deref reg i)" "retained (tables se) reg" by auto
  with \<open>credentials_ok (x_tables X) (x_properties X) (sn_names s') (stored (sn_manager s')) (sn_schemas s')\<close>
  have "?has (sn_names s') (stored (sn_manager s')) (te_scan_info (deref reg i))"
    using get_scan(2,4) by (auto simp: credentials_ok_def backed_def retained_def split: if_splits)
  then show "?has (sn_names s') (stored (sn_manager s')) (function_info scan)"
    using info same_entry_simps [OF deref_retained [OF \<open>retained (tables se) reg\<close> get_scan(2)]] by simp
qed

section \<open>The secrets of an instance\<close>

definition scoped :: "string \<Rightarrow> bool" where
  "scoped k \<longleftrightarrow> (\<exists>c txn_id i. k = scoped_secret_name c txn_id i)"

definition all_names :: "('w, 'rest, 'tbl, 'm) db_instance \<Rightarrow> string set" where
  "all_names s = (\<Union>c. set (cn_names (in_connections s c)))"

text \<open>
  Each connection's names are those of its transaction, and stored; the user's secrets, those in
  \<open>store0\<close>, are as they were; and if no warning was ever logged there are no others.
\<close>

definition secrets_ok where
  "secrets_ok stored store0 s \<longleftrightarrow>
     (\<forall>c t. cn_transaction (in_connections s c) = Some t \<longrightarrow>
        names_ok (fst t) (cn_names (in_connections s c))) \<and>
     all_names s \<subseteq> dom (stored (in_manager s)) \<and>
     (\<forall>k. \<not> scoped k \<longrightarrow> stored (in_manager s) k = store0 k) \<and>
     (secret_warnings (in_env s) = {} \<longrightarrow> dom (stored (in_manager s)) \<subseteq> dom store0 \<union> all_names s)"

lemma secrets_okD:
  assumes "secrets_ok stored store0 s"
  shows "cn_transaction (in_connections s c) = Some t \<Longrightarrow> names_ok (fst t) (cn_names (in_connections s c))"
    and "k \<in> all_names s \<Longrightarrow> k \<in> dom (stored (in_manager s))"
    and "\<not> scoped k \<Longrightarrow> stored (in_manager s) k = store0 k"
    and "secret_warnings (in_env s) = {} \<Longrightarrow> dom (stored (in_manager s)) \<subseteq> dom store0 \<union> all_names s"
  using assms unfolding secrets_ok_def by blast+

lemma all_names_split:
  "all_names s = set (cn_names (in_connections s c)) \<union> (\<Union>c' \<in> - {c}. set (cn_names (in_connections s c')))"
  by (auto simp: all_names_def)

lemma names_ok_scoped: "names_ok txn_id names \<Longrightarrow> k \<in> set names \<Longrightarrow> scoped k"
  unfolding names_ok_def scoped_def by (metis in_set_conv_nth)

lemma secrets_ok_names:
  assumes "instance_ok s" and "secrets_ok stored store0 s" and "k \<in> set (cn_names (in_connections s c))"
  obtains txn_id ts where "cn_transaction (in_connections s c) = Some (txn_id, ts)"
    "names_ok txn_id (cn_names (in_connections s c))"
proof (cases "cn_transaction (in_connections s c)")
  case None
  with instance_okD(6) [OF assms(1)] assms(3) show ?thesis by fastforce
next
  case (Some t)
  then have "names_ok (fst t) (cn_names (in_connections s c))" using assms(2) unfolding secrets_ok_def by blast
  with Some that [of "fst t" "snd t"] show ?thesis by simp
qed

text \<open>No two connections share a name.\<close>

lemma secrets_ok_disjoint:
  assumes ok: "instance_ok s" and sec: "secrets_ok stored store0 s"
    and c: "k \<in> set (cn_names (in_connections s c))" and c': "k \<in> set (cn_names (in_connections s c'))"
  shows "c' = c"
proof -
  obtain txn_id ts where t: "cn_transaction (in_connections s c) = Some (txn_id, ts)"
    "names_ok txn_id (cn_names (in_connections s c))" by (rule secrets_ok_names [OF ok sec c])
  obtain txn_id' ts' where t': "cn_transaction (in_connections s c') = Some (txn_id', ts')"
    "names_ok txn_id' (cn_names (in_connections s c'))" by (rule secrets_ok_names [OF ok sec c'])
  have "txn_id' = txn_id"
    using t'(2) c' names_ok_other [OF t(2) c] unfolding names_ok_def by (metis in_set_conv_nth)
  with instance_okD(5) [OF ok t'(1) t(1)] show ?thesis by simp
qed

text \<open>What an event leaves of a transaction that goes on.\<close>

definition keeps_secrets where
  "keeps_secrets stored s s' \<longleftrightarrow>
     (\<forall>c t. cn_transaction (in_connections s c) = Some t \<longrightarrow> cn_transaction (in_connections s' c) = Some t \<longrightarrow>
        set (cn_names (in_connections s c)) \<subseteq> set (cn_names (in_connections s' c)) \<and>
        (\<forall>k \<in> set (cn_names (in_connections s c)). stored (in_manager s') k = stored (in_manager s) k))"

lemma secrets_ok_call:
  assumes laws: "secret_store_laws (d_manager X) stored dropping" and ok: "instance_ok s"
    and sec: "secrets_ok stored store0 s" and user: "\<forall>k \<in> dom store0. \<not> scoped k"
    and t: "cn_transaction (in_connections s c) = Some (txn_id, ts)"
    and call: "do_call (setting_of X name db txn_id ts) cl (call_session (in_connections s c) txn s) = (answer, sn)"
  shows "secrets_ok stored store0 (end_call c name db address txn sn s) \<and>
    keeps_secrets stored s (end_call c name db address txn sn s)"
proof -
  let ?s = "end_call c name db address txn sn s" and ?cn = "in_connections s c"
  have adds: "adds_secret name txn_id (cn_names ?cn) (stored (in_manager s)) (sn_names sn) (stored (sn_manager sn))"
    using do_call_adds_secret [OF _ call] laws by (simp add: setting_of_def call_session_def)
  have names: "names_ok txn_id (cn_names ?cn)" using sec t by (simp add: secrets_ok_def)
  note added = adds_secret_names [OF adds names]
  have other: "stored (sn_manager sn) k = stored (in_manager s) k"
    if k: "k \<in> set (cn_names (in_connections s c'))" and ne: "c' \<noteq> c" for c' k
  proof -
    obtain txn_id' ts' where t': "cn_transaction (in_connections s c') = Some (txn_id', ts')"
      "names_ok txn_id' (cn_names (in_connections s c'))" by (rule secrets_ok_names [OF ok sec k])
    have "txn_id' \<noteq> txn_id" using instance_okD(5) [OF ok t'(1) t] ne by auto
    then have "k \<noteq> scoped_secret_name name txn_id (length (cn_names ?cn))"
      using names_ok_other [OF t'(2) k] by blast
    then show ?thesis using adds by (auto simp: adds_secret_def)
  qed
  have "all_names ?s = all_names s \<union> set (sn_names sn)"
    using added(2) by (auto simp: all_names_split [of _ c])
  moreover have "secret_warnings (sn_env sn) = secret_warnings (in_env s)"
    using do_call_warnings [OF call] by (simp add: call_session_def)
  moreover have "set (cn_names ?cn) \<subseteq> dom (stored (in_manager s))"
    using sec all_names_split [of s c] unfolding secrets_ok_def by blast
  then have "dom (stored (sn_manager sn)) = dom (stored (in_manager s)) \<union> set (sn_names sn)"
    using adds by (auto simp: adds_secret_def)
  moreover have "stored (sn_manager sn) k = stored (in_manager s) k" if "\<not> scoped k" for k
    using adds that by (auto simp: adds_secret_def scoped_def)
  ultimately have "secrets_ok stored store0 ?s"
    using sec added(1) t by (auto simp: secrets_ok_def all_names_def)
  moreover have "keeps_secrets stored s ?s"
    using added(2,3) other by (auto simp: keeps_secrets_def)
  ultimately show ?thesis ..
qed

lemma secrets_ok_end:
  assumes laws: "secret_store_laws (d_manager X) stored dropping" and ok: "instance_ok s"
    and sec: "secrets_ok stored store0 s" and user: "\<forall>k \<in> dom store0. \<not> scoped k"
    and drop: "(m, env) = snd (DropAll (d_manager X) (d_what X) (cn_names (in_connections s c)) (in_manager s)
      (in_env s))"
    and registered: "fst (ScopedSecretsGet registered) = []"
    and s': "s' = s\<lparr>in_manager := m, in_env := env, in_connections := (in_connections s)
         (c := \<lparr>cn_transaction = None, cn_open = [], cn_ending = False, cn_registered = registered\<rparr>)\<rparr>"
  shows "secrets_ok stored store0 s' \<and> keeps_secrets stored s s'"
proof -
  let ?names = "cn_names (in_connections s c)"
  have none: "cn_names (in_connections s' c) = []" using registered by (simp add: s' cn_names_def)
  have same: "cn_names (in_connections s' c') = cn_names (in_connections s c')" if "c' \<noteq> c" for c'
    using that by (simp add: s')
  have names: "all_names s = set ?names \<union> all_names s'"
    using none same by (auto simp: all_names_split [of _ c])
  have "k \<notin> all_names s'" if k: "k \<in> set ?names" for k
  proof
    assume "k \<in> all_names s'"
    then obtain c' where "k \<in> set (cn_names (in_connections s' c'))" by (auto simp: all_names_def)
    with none same have "c' \<noteq> c" "k \<in> set (cn_names (in_connections s c'))" by (cases "c' = c"; simp)+
    with secrets_ok_disjoint [OF ok sec k] show False by blast
  qed
  then have disjoint: "set ?names \<inter> all_names s' = {}" by blast
  have unscoped: "k \<notin> set ?names" if "\<not> scoped k" for k
    using that names_ok_scoped secrets_ok_names [OF ok sec] by metis
  obtain names' where "DropAll (d_manager X) (d_what X) ?names (in_manager s) (in_env s) = (names', m, env)"
    using drop by (metis prod.collapse)
  from DropAll_stored [OF laws this]
  consider "stored m = stored (in_manager s) |` (- set ?names)" "secret_warnings env = secret_warnings (in_env s)"
    | "stored m = stored (in_manager s)" "secret_warnings env \<noteq> {}" by blast
  then have gone: "\<forall>k. k \<notin> set ?names \<longrightarrow> stored m k = stored (in_manager s) k"
    and left: "secret_warnings env = {} \<longrightarrow>
      dom (stored m) = dom (stored (in_manager s)) - set ?names \<and> secret_warnings (in_env s) = {}"
    by (cases; auto)+
  have transactions: "\<forall>c' t. cn_transaction (in_connections s' c') = Some t \<longrightarrow>
      c' \<noteq> c \<and> cn_transaction (in_connections s c') = Some t"
    by (simp add: s')
  have "k \<in> dom (stored m)" if "k \<in> all_names s'" for k
    using secrets_okD(2) [OF sec, of k] gone disjoint names that by fastforce
  then have "all_names s' \<subseteq> dom (stored m)" by blast
  moreover have "\<forall>k. \<not> scoped k \<longrightarrow> stored m k = store0 k"
    using gone unscoped sec unfolding secrets_ok_def by simp
  moreover have "dom (stored m) \<subseteq> dom store0 \<union> all_names s'" if "secret_warnings env = {}"
    using left names sec that unfolding secrets_ok_def by blast
  moreover have "\<forall>c' t. cn_transaction (in_connections s' c') = Some t \<longrightarrow>
      names_ok (fst t) (cn_names (in_connections s' c'))"
    using sec same transactions unfolding secrets_ok_def by simp
  moreover have "in_manager s' = m" "in_env s' = env" by (simp_all add: s')
  ultimately have "secrets_ok stored store0 s'" unfolding secrets_ok_def by simp
  moreover have "keeps_secrets stored s s'"
    unfolding keeps_secrets_def
  proof (intro allI impI)
    fix c' t assume "cn_transaction (in_connections s' c') = Some t"
    with transactions have c': "c' \<noteq> c" by blast
    have "k \<notin> set ?names" if "k \<in> set (cn_names (in_connections s c'))" for k
      using secrets_ok_disjoint [OF ok sec that, of c] c' by blast
    then show "set (cn_names (in_connections s c')) \<subseteq> set (cn_names (in_connections s' c')) \<and>
        (\<forall>k \<in> set (cn_names (in_connections s c')). stored (in_manager s') k = stored (in_manager s) k)"
      using gone same [OF c'] by (simp add: s')
  qed
  ultimately show ?thesis ..
qed

text \<open>An event that leaves the secrets alone.\<close>

lemma secrets_ok_same:
  assumes sec: "secrets_ok stored store0 s"
    and names: "\<And>c. cn_names (in_connections s' c) = cn_names (in_connections s c)"
    and "\<And>c t. cn_transaction (in_connections s' c) = Some t \<Longrightarrow>
      cn_transaction (in_connections s c) = Some t \<or> cn_names (in_connections s c) = []"
    and "in_manager s' = in_manager s" and "secret_warnings (in_env s') = secret_warnings (in_env s)"
  shows "secrets_ok stored store0 s' \<and> keeps_secrets stored s s'"
proof -
  have "all_names s' = all_names s" by (simp add: all_names_def names)
  moreover have "names_ok (fst t) (cn_names (in_connections s' c))"
    if "cn_transaction (in_connections s' c) = Some t" for c t
    using assms(3) [OF that] secrets_okD(1) [OF sec, of c t] by (auto simp: names names_ok_def [of _ "[]"])
  ultimately show ?thesis
    using sec assms(4,5) by (simp add: secrets_ok_def keeps_secrets_def names)
qed

lemma secrets_ok_step:
  assumes laws: "secret_store_laws (d_manager X) stored dropping" and ok: "instance_ok s"
    and sec: "secrets_ok stored store0 s" and user: "\<forall>k \<in> dom store0. \<not> scoped k"
    and step: "instance_step X e s = (a, s')"
  shows "secrets_ok stored store0 s' \<and> keeps_secrets stored s s'"
  using step
proof (cases rule: instance_step_cases)
  case (beg c txn_id ts)
  then show ?thesis
    using instance_okD(6) [OF ok beg(3)] by (intro secrets_ok_same [OF sec]) (auto split: if_splits)
next
  case (call c name cl txn_id ts db address txn answer sn)
  show ?thesis unfolding call(9) by (rule secrets_ok_call [OF laws ok sec user call(3,8)])
next
  case (fin c committed registered m env)
  show ?thesis by (rule secrets_ok_end [OF laws ok sec user fin(6,5,7)])
qed (intro secrets_ok_same [OF sec]; auto simp: secret_warnings_def split: if_splits)+

section \<open>Credentials in every transaction\<close>

lemma instance_step_transactions:
  assumes "instance_step X e s = (a, s')"
  shows "set (in_used s) \<subseteq> set (in_used s')"
    and "cn_transaction (in_connections s' c) = Some t \<Longrightarrow>
      cn_transaction (in_connections s c) = Some t \<or> fst t \<notin> set (in_used s)"
    and "a = Answered txn_id ts x \<Longrightarrow> \<exists>c name cl. e = EvCall c name cl \<and>
      cn_transaction (in_connections s c) = Some (txn_id, ts)"
  using assms by (cases rule: instance_step_cases; auto split: if_splits)+

text \<open>Transactions in progress that an event does not call are as before, or new.\<close>

lemma in_transaction_step:
  assumes "instance_step X e s = (a, s')" and "instance_ok s" and "\<not> (\<exists>cl. e = EvCall c name cl \<and> a \<noteq> Refused)"
    and "in_transaction s' c name = Some (txn_id, ts, st)"
  shows "in_transaction s c name = Some (txn_id, ts, st) \<or> st = schema_state (ProtoIcebergTransaction ts)"
  using assms(1)
proof (cases rule: instance_step_cases)
  case (attached name' path options cat rest env)
  with assms(4) show ?thesis by (auto simp: in_transaction_def split: option.splits if_splits)
next
  case (beg c' txn_id' ts')
  then have "cn_open (in_connections s c') = []" using instance_okD(6) [OF assms(2)] by blast
  with beg assms(4) show ?thesis by (auto simp: in_transaction_def split: option.splits if_splits)
next
  case (use c' name' address txn_id' ts' db)
  then show ?thesis
    using assms(4) in_transaction_use [OF assms(2) use(3,4,7,8)] by (auto split: if_splits)
next
  case (call c' name' cl txn_id' ts' db address txn answer sn)
  then show ?thesis
    using assms(3,4) in_transaction_call [OF assms(2) call(3-6), of sn c name] by (auto split: if_splits)
next
  case (end_in c' name' committed err db address)
  then show ?thesis
    using assms(4) in_transaction_end_in [OF assms(2) end_in(2,3,5)] by (auto split: if_splits)
next
  case (fin c' committed registered m env)
  with assms(4) show ?thesis by (auto simp: in_transaction_def split: option.splits if_splits)
qed (use assms(4) in \<open>auto simp: in_transaction_def\<close>)

definition instance_credentials where
  "instance_credentials X stored s \<longleftrightarrow>
     (\<forall>c name txn_id ts st. in_transaction s c name = Some (txn_id, ts, st) \<longrightarrow>
        credentials_ok (d_tables X) (d_properties X) (cn_names (in_connections s c)) (stored (in_manager s)) st)"

definition trace_credentials where
  "trace_credentials X stored tr s \<longleftrightarrow>
     (\<forall>c name cl txn_id ts scan b.
        (EvCall c name cl, Answered txn_id ts (FoundScan (Inr (scan, b)))) \<in> set tr \<longrightarrow>
        txn_id \<in> set (in_used s) \<and>
        (\<forall>ts'. cn_transaction (in_connections s c) = Some (txn_id, ts') \<longrightarrow>
           has_credentials (d_tables X) (d_properties X) (cn_names (in_connections s c)) (stored (in_manager s))
             (function_info scan)))"

lemma credentials_ok_new [simp]: "credentials_ok T P names store (schema_state (ProtoIcebergTransaction ts))"
  by (simp add: credentials_ok_def ProtoIcebergTransaction_def SchemasLookup_def)

lemma instance_credentials_step:
  assumes laws: "secret_store_laws (d_manager X) stored dropping" and hist: "has_history X tr s"
    and sec: "secrets_ok stored store0 s" and user: "\<forall>k \<in> dom store0. \<not> scoped k"
    and creds: "instance_credentials X stored s" and step: "instance_step X e s = (a, s')"
  shows "instance_credentials X stored s'"
    and "e = EvCall c name cl \<Longrightarrow> a = Answered txn_id ts (FoundScan (Inr (scan, b))) \<Longrightarrow>
      has_credentials (d_tables X) (d_properties X) (cn_names (in_connections s' c)) (stored (in_manager s'))
        (function_info scan)"
proof -
  have ok: "instance_ok s" using hist by (simp add: has_history_def)
  have keeps: "keeps_secrets stored s s'" using secrets_ok_step [OF laws ok sec user step] by simp
  have called: "credentials_ok (d_tables X) (d_properties X) (cn_names (in_connections s' c)) (stored (in_manager s')) st \<and>
      (a = Answered txn_id ts (FoundScan (Inr (scan, b))) \<longrightarrow>
       has_credentials (d_tables X) (d_properties X) (cn_names (in_connections s' c)) (stored (in_manager s'))
        (function_info scan))"
    if "e = EvCall c name cl" "a \<noteq> Refused" "in_transaction s' c name = Some (txn_id', ts', st)"
    for c name cl txn_id' ts' st txn_id ts scan b
    using step
  proof (cases rule: instance_step_cases)
    case (call c' name' cl' i start db address txn answer sn)
    have now: "in_transaction s c name = Some (i, start, schema_state txn)"
      using that(1) call(1,3-6) by (simp add: in_transaction_def)
    obtain H where "holds_current H s" "holds_answers X H tr" using hist by (auto simp: has_history_def)
    then have "as_of_start X start (schema_state txn)"
      using now holds_answersD(1) unfolding holds_current_def by blast
    then have st: "schemas_ok (schema_state txn)" by (simp add: as_of_start_def)
    have names: "names_ok i (cn_names (in_connections s c))"
      using secrets_okD(1) [OF sec call(3)] that(1) call(1) by simp
    have "credentials_ok (d_tables X) (d_properties X) (cn_names (in_connections s c)) (stored (in_manager s)) (schema_state txn)"
      using creds now unfolding instance_credentials_def by blast
    from do_call_credentials [OF _ call(8), of stored dropping] laws st names this
    have "credentials_ok (d_tables X) (d_properties X) (sn_names sn) (stored (sn_manager sn)) (sn_schemas sn)"
      "answer = FoundScan (Inr (scan, b)) \<Longrightarrow>
         has_credentials (d_tables X) (d_properties X) (sn_names sn) (stored (sn_manager sn)) (function_info scan)"
      using that(1) call(1) by (simp_all add: setting_of_def call_session_def)
    moreover have "st = sn_schemas sn"
      using that(1,3) call(1) in_transaction_call [OF ok call(3-6), of sn c name] unfolding call(9) by simp
    ultimately show ?thesis using that(1) call(1,2) unfolding call(9) by simp
  qed (use that in auto)
  show "instance_credentials X stored s'"
    unfolding instance_credentials_def
  proof (intro allI impI)
    fix c name txn_id ts st assume now: "in_transaction s' c name = Some (txn_id, ts, st)"
    show "credentials_ok (d_tables X) (d_properties X) (cn_names (in_connections s' c)) (stored (in_manager s')) st"
    proof (cases "\<exists>cl. e = EvCall c name cl \<and> a \<noteq> Refused")
      case True
      then show ?thesis using called now by blast
    next
      case False
      then have "in_transaction s c name = Some (txn_id, ts, st) \<or> st = schema_state (ProtoIcebergTransaction ts)"
        using in_transaction_step [OF step ok _ now] by blast
      then show ?thesis
      proof
        assume before: "in_transaction s c name = Some (txn_id, ts, st)"
        with creds have "credentials_ok (d_tables X) (d_properties X) (cn_names (in_connections s c))
            (stored (in_manager s)) st" unfolding instance_credentials_def by blast
        with keeps in_transactionD [OF before] in_transactionD [OF now] show ?thesis
          unfolding keeps_secrets_def by (blast intro: credentials_ok_mono)
      qed simp
    qed
  qed
  assume e: "e = EvCall c name cl" and a: "a = Answered txn_id ts (FoundScan (Inr (scan, b)))"
  obtain i start st where "in_transaction s' c name = Some (i, start, st)"
    using step e a in_transaction_call [OF ok] by (cases rule: instance_step_cases) (auto simp: in_transaction_def)
  with called e a show "has_credentials (d_tables X) (d_properties X) (cn_names (in_connections s' c))
      (stored (in_manager s')) (function_info scan)" by blast
qed

definition instance_secrets where
  "instance_secrets X stored store0 tr s \<longleftrightarrow>
     has_history X tr s \<and> secrets_ok stored store0 s \<and> instance_credentials X stored s \<and>
     trace_credentials X stored tr s"

lemma trace_credentials_step:
  assumes laws: "secret_store_laws (d_manager X) stored dropping" and user: "\<forall>k \<in> dom store0. \<not> scoped k"
    and inv: "instance_secrets X stored store0 tr s" and step: "instance_step X e s = (a, s')"
  shows "trace_credentials X stored (tr @ [(e, a)]) s'"
  unfolding trace_credentials_def
proof (intro allI impI)
  fix c name cl txn_id ts scan b
  note parts = inv [unfolded instance_secrets_def]
  have ok: "instance_ok s" using parts by (simp add: has_history_def)
  have keeps: "keeps_secrets stored s s'"
    using secrets_ok_step [OF laws ok _ user step] parts by blast
  assume mem: "(EvCall c name cl, Answered txn_id ts (FoundScan (Inr (scan, b)))) \<in> set (tr @ [(e, a)])"
  let ?has = "\<lambda>s. has_credentials (d_tables X) (d_properties X) (cn_names (in_connections s c)) (stored (in_manager s))
    (function_info scan)"
  from mem consider "(EvCall c name cl, Answered txn_id ts (FoundScan (Inr (scan, b)))) \<in> set tr"
    | "e = EvCall c name cl" "a = Answered txn_id ts (FoundScan (Inr (scan, b)))" by auto
  then show "txn_id \<in> set (in_used s') \<and>
      (\<forall>ts'. cn_transaction (in_connections s' c) = Some (txn_id, ts') \<longrightarrow> ?has s')"
  proof cases
    case 1
    then have used: "txn_id \<in> set (in_used s)"
      and has: "\<And>ts'. cn_transaction (in_connections s c) = Some (txn_id, ts') \<Longrightarrow> ?has s"
      using parts unfolding trace_credentials_def by blast+
    have "?has s'" if now: "cn_transaction (in_connections s' c) = Some (txn_id, ts')" for ts'
    proof -
      have before: "cn_transaction (in_connections s c) = Some (txn_id, ts')"
        using instance_step_transactions(2) [OF step now] used by simp
      with keeps now show ?thesis
        using has [OF before] unfolding keeps_secrets_def by (blast intro: has_credentials_mono)
    qed
    then show ?thesis using used instance_step_transactions(1) [OF step] by blast
  next
    case 2
    from instance_step_transactions(3) [OF step 2(2)] have "txn_id \<in> set (in_used s)"
      using instance_okD(4) [OF ok] by fastforce
    moreover have "?has s'"
      using instance_credentials_step(2) [OF laws _ _ user _ step 2] parts by blast
    ultimately show ?thesis using instance_step_transactions(1) [OF step] by blast
  qed
qed

lemma instance_secrets_step:
  assumes laws: "secret_store_laws (d_manager X) stored dropping" and user: "\<forall>k \<in> dom store0. \<not> scoped k"
    and inv: "instance_secrets X stored store0 tr s" and step: "instance_step X e s = (a, s')"
  shows "instance_secrets X stored store0 (tr @ [(e, a)]) s'"
proof -
  note parts = inv [unfolded instance_secrets_def]
  have ok: "instance_ok s" using parts by (simp add: has_history_def)
  show ?thesis
    unfolding instance_secrets_def
    using has_history_step [OF _ step] secrets_ok_step [OF laws ok _ user step]
      instance_credentials_step(1) [OF laws _ _ user _ step] trace_credentials_step [OF laws user inv step] parts
    by blast
qed

lemma instance_secrets_new: "instance_secrets X stored (stored m) [] (new_instance env m)"
  using has_history_new [of X env m]
  by (simp add: instance_secrets_def secrets_ok_def all_names_def instance_credentials_def trace_credentials_def)
    (simp add: new_instance_def idle_connection_def cn_names_def ScopedSecretsGet_def)

lemma run_instance_secrets:
  assumes laws: "secret_store_laws (d_manager X) stored dropping"
    and user: "\<forall>k \<in> dom (stored m). \<not> scoped k"
    and run: "run_all (instance_step X) events (new_instance env m) = (replies, s)"
  shows "instance_secrets X stored (stored m) (zip events replies) s"
  using run_all_trace [where P = "instance_secrets X stored (stored m)" and tr = "[]", OF run instance_secrets_new]
    instance_secrets_step [OF laws user] by simp

section \<open>Properties\<close>

text \<open>
  C5. A scan has its credentials as long as its transaction runs: whatever other connections create and
  drop meanwhile, for every scan function that a transaction still in progress was given, the secret
  manager holds a secret with the scopes and the vended credentials of exactly the table it scans.
\<close>

theorem scan_keeps_its_credentials:
  assumes "secret_store_laws (d_manager X) stored dropping" and "\<forall>k \<in> dom (stored m). \<not> scoped k"
    and "run_all (instance_step X) events (new_instance env m) = (replies, s)"
    and "(EvCall c name cl, Answered txn_id ts (FoundScan (Inr (scan, b)))) \<in> set (zip events replies)"
    and "cn_transaction (in_connections s c) = Some (txn_id, ts')"
  shows "\<exists>info input k. function_info scan = Some info \<and>
    BuildScopedS3Secret (d_tables X) (d_properties X) (si_table info) = Inr input \<and>
    k \<in> set (cn_names (in_connections s c)) \<and> stored (in_manager s) k = Some (input\<lparr>cs_name := k\<rparr>)"
  using run_instance_secrets [OF assms(1-3)] assms(4,5)
  unfolding instance_secrets_def trace_credentials_def has_credentials_def by blast

text \<open>
  C6. Connections leave each other's and the user's secrets alone: after any interleaving of their
  events, the secrets each has created in its transaction are all stored, none of them is another
  connection's, every secret that was there before is as it was, a connection outside a transaction
  has none, and, unless a failed drop was logged, there are no others.
\<close>

theorem secrets_of_running_transactions:
  assumes "secret_store_laws (d_manager X) stored dropping" and "\<forall>k \<in> dom (stored m). \<not> scoped k"
    and "run_all (instance_step X) events (new_instance env m) = (replies, s)"
  shows "(\<forall>c. set (cn_names (in_connections s c)) \<subseteq> dom (stored (in_manager s)) - dom (stored m) \<and>
      distinct (cn_names (in_connections s c)) \<and>
      (cn_transaction (in_connections s c) = None \<longrightarrow> cn_names (in_connections s c) = []) \<and>
      (\<forall>c' \<noteq> c. set (cn_names (in_connections s c)) \<inter> set (cn_names (in_connections s c')) = {})) \<and>
    (\<forall>k \<in> dom (stored m). stored (in_manager s) k = stored m k) \<and>
    ((\<forall>w. LogSecretsNotDropped w \<notin> set (log (in_env s))) \<longrightarrow>
       dom (stored (in_manager s)) = dom (stored m) \<union> (\<Union>c. set (cn_names (in_connections s c))))"
proof -
  have ok: "instance_ok s" and sec: "secrets_ok stored (stored m) s"
    using run_instance_secrets [OF assms] by (simp_all add: instance_secrets_def has_history_def)
  have names: "distinct (cn_names (in_connections s c)) \<and> (\<forall>k \<in> set (cn_names (in_connections s c)). scoped k)" for c
    using instance_okD(6) [OF ok, of c] secrets_okD(1) [OF sec, of c]
    by (cases "cn_transaction (in_connections s c)") (auto intro: names_ok_distinct names_ok_scoped)
  have user: "\<forall>k \<in> dom (stored m). stored (in_manager s) k = stored m k"
    using secrets_okD(3) [OF sec] assms(2) by blast
  have own: "set (cn_names (in_connections s c)) \<subseteq> dom (stored (in_manager s)) - dom (stored m)" for c
    using secrets_okD(2) [OF sec] names [of c] assms(2) by (auto simp: all_names_def)
  have before: "dom (stored m) \<subseteq> dom (stored (in_manager s))"
  proof
    fix k assume "k \<in> dom (stored m)"
    with user show "k \<in> dom (stored (in_manager s))" by (metis domIff)
  qed
  have all: "dom (stored (in_manager s)) = dom (stored m) \<union> all_names s"
    if "\<forall>w. LogSecretsNotDropped w \<notin> set (log (in_env s))"
  proof
    have "secret_warnings (in_env s) = {}" using that by (simp add: secret_warnings_def)
    then show "dom (stored (in_manager s)) \<subseteq> dom (stored m) \<union> all_names s" by (rule secrets_okD(4) [OF sec])
    show "dom (stored m) \<union> all_names s \<subseteq> dom (stored (in_manager s))"
      using before secrets_okD(2) [OF sec] by blast
  qed
  have idle: "cn_names (in_connections s c) = []" if "cn_transaction (in_connections s c) = None" for c
    using instance_okD(6) [OF ok that] by simp
  have disjoint: "set (cn_names (in_connections s c)) \<inter> set (cn_names (in_connections s c')) = {}"
    if "c' \<noteq> c" for c c'
    using secrets_ok_disjoint [OF ok sec] that by blast
  show ?thesis
    unfolding all_names_def [symmetric]
    using own names idle disjoint user all by (intro conjI allI ballI impI) simp_all
qed

lemma example_store_laws: "secret_store_laws example_store fst snd"
  unfolding secret_store_laws_def by (auto simp: example_store_def split: prod.split)

lemma example_duckdb_store:
  "secret_store_laws (d_manager example_duckdb) fst snd"
  "\<forall>k \<in> dom (fst ((Map.empty, {}) :: (string \<rightharpoonup> create_secret_input) \<times> string set)). \<not> scoped k"
  using example_store_laws by (simp_all add: example_duckdb_parts)

theorem scan_keeps_its_credentials_witness:
  "\<exists>input. BuildScopedS3Secret example_table example_s3_properties 7 = Inr input \<and>
    fst (in_manager (snd example_trace)) ''__proto_ic_lake_42_0'' =
      Some (input\<lparr>cs_name := ''__proto_ic_lake_42_0''\<rparr>)"
  using scan_keeps_its_credentials [OF example_duckdb_store example_trace_run example_trace_scan
      example_trace_connection(1)]
  by (auto simp: example_trace_connection example_duckdb_parts)

theorem secrets_of_running_transactions_witness:
  "cn_names (in_connections (snd example_trace) 3) = [''__proto_ic_lake_42_0''] \<and>
    ''__proto_ic_lake_42_0'' \<in> dom (fst (in_manager (snd example_trace))) \<and>
    ''__proto_ic_lake_42_0'' \<notin> set (cn_names (in_connections (snd example_trace) 2))"
proof -
  note secrets = secrets_of_running_transactions [OF example_duckdb_store example_trace_run]
  from secrets [THEN conjunct1, rule_format, of 3] show ?thesis
    by (auto simp: example_trace_connection)
qed

end
