(* ===== verification/Spec2Isabelle.thy ===== *)
theory Spec2Isabelle
  imports MultiFileReader Extension LockOrder ServiceRequests S3Finalizer Pushdown
    InstanceSecrets
begin

text \<open>
  Verification of duckdb-proto-iceberg, a DuckDB extension that reads Apache Iceberg tables through
  iceberg-cpp (the C++ files under src/src).

  \<^bold>\<open>The program.\<close> ATTACH makes a catalog (CatalogAttach) whose schemas and tables DuckDB looks up in a
  transaction (Transaction, Catalog, SchemaEntry). A lookup loads a table from the Iceberg service,
  resolves its state as of the transaction's start and stores an entry in the schema's registry
  (TableRegistry, over SignedStore), where it stays until the transaction ends. Scanning an entry makes
  a secret for the table's vended credentials and configures DuckDB's \<open>parquet_scan\<close> (TableEntry) with
  this extension's reader (MultiFileReader), whose file list plans the data files and pushes filters
  down (MultiFileList). Types, literals, filters and S3 settings are converted on the way (TypeMapping,
  LiteralConversion, FilterTranslation, S3Conversion).

  \<^bold>\<open>Theories\<close>, each with the source it models:
  \<^item> Prelude: traversals that may throw, \<open>std::map\<close> as a sorted association list, and three locales:
    \<open>repeatable\<close>, the contract of a component that caches answers for a transaction, interpreted on the
    tables of a schema (\<open>table_reads\<close>) and of a catalog (\<open>catalog_reads\<close>); \<open>call_system\<close>, an invariant kept
    by every call of a sequence; and \<open>asks_once\<close>, which extends it with a request that is made until its
    answer is known. Errors: the
    exceptions and \<open>UnwrapOrThrow\<close> (include/unwrap.hpp). Environment: constants.hpp, namespaces and
    identifiers (include/conversion.hpp), iceberg-cpp's catalog and tables, the log.
  \<^item> TypeMapping, LiteralConversion, ScalarOrder, FilterTranslation: conversion.cpp. The mapping is total up to
    unsupported types, columns mirror fields at every level, literals denote the same scalars (integers,
    decimals and floating point at their widths), and translation loses no row and widens only where it
    has to. ScalarOrder defines the orders in which DuckDB and iceberg-cpp compare values, which differ on
    zeros and NaN, and shows that the constants that are pushed down are those on which they agree.
  \<^item> S3Conversion: s3_conversion.cpp. Round trip and normal form of secrets, endpoint and SSL rules.
  \<^item> SignedStore (include/signed_store.hpp) has the locale \<open>signed_map\<close>, the contract of a cache with
    negative answers; it is interpreted on the store (\<open>ss\<close>) and, in TableRegistry, on a schema's registry
    (\<open>reg\<close>). References to entries are positions in a list that only grows.
  \<^item> SchemaEntry: proto_iceberg_schema_entry.cpp. \<open>schema_step\<close> is the step relation of a schema in a
    transaction, \<open>later\<close> and \<open>settled\<close> its invariants; entries are finished, settled answers stay,
    listings are complete, done once and in order.
  \<^item> Transaction: proto_iceberg_transaction.cpp. Start time at 64 bits, the schemas of a transaction, and
    the manager as a function of the call sequence. Catalog: proto_iceberg_catalog.cpp, with
    \<open>catalog_step\<close> over all schemas.
  \<^item> TableEntry: proto_iceberg_table_entry.cpp. Names, scopes and the life of secrets; the scan function.
  \<^item> MultiFileList, MultiFileReader: proto_iceberg_multi_file_list.cpp and _reader.cpp. What planning
    returns and refuses, that all accesses agree, that pushdown is conjunction, that no row is lost, and
    what is bound.
  \<^item> Pushdown: sequences of pushdowns by the optimizer and by joins, and the files of the resulting list.
  \<^item> TransactionRun: the calls of a transaction and their answers, \<open>do_call\<close>, and the invariant of its
    session (\<open>session\<close>, an interpretation of \<open>call_system\<close>). TransactionReads: every sequence of calls
    refines a database that does not change. ServiceRequests: what the service is asked, with
    \<open>asks_once\<close> interpreted on tables, listings of tables and the listing of namespaces. S3Finalizer: when
    \<open>RegisterS3Finalizer\<close> has run, with \<open>call_system\<close> interpreted as \<open>finalizer\<close> and \<open>registered\<close>.
  \<^item> DatabaseInstance: a DuckDB instance with any attached catalogs and connections, whose events
    interleave in any order; \<open>instance_step\<close> runs the operations of the other theories on its state, with
    \<open>call_system\<close> interpreted as \<open>instances\<close>. The managers hold exactly the open transactions, and every
    transaction can be ended. InstanceReads: each transaction reads one database in each catalog, by a
    history that is extended at every event. InstanceSecrets: connections leave each other's and the
    user's secrets alone, and scans keep their credentials.
  \<^item> CatalogAttach, Extension: proto_iceberg_catalog_attach.cpp and proto_iceberg_extension.cpp. Options,
    secrets, precedence, and what a load registers.
  \<^item> Mutex (include/mutex.hpp): guards, exclusion, and that critical sections are serial. LockOrder: the
    locks each operation nests, and that any threads running them finish.
  \<^item> This theory: properties of several components together.

  \<^bold>\<open>State.\<close> A C++ class is a record of its members and a method a function from the state to the result
  or the exception thrown (\<open>Inl\<close>) and the new state, which is returned on throwing branches too.
  \<open>env\<close> holds the state of the remote service, which may answer every call differently, and the
  process-wide effects. A pointer or reference is a key or a position, so that aliasing and its validity
  are explicit. Callbacks act on a state of the caller and may throw. Operations that hold a lock for
  their duration are one step; Mutex and \<open>concurrent_lookups_agree\<close> justify that. In an instance, the
  events' guards are what DuckDB does: a transaction has an ID never used before and a catalog is used
  through one transaction of the connection, at an address at which there is none; it ends in every
  catalog before it ends as a whole, and only then are the connection's registered states told. An
  event that does not follow this is refused and changes nothing.

  \<^bold>\<open>Parameters.\<close> DuckDB and iceberg-cpp are git submodules and not part of the repository. What the code
  calls of them is a record of functions (\<open>iceberg_catalog\<close>, \<open>iceberg_table\<close>, \<open>expressions\<close>, \<open>scan_api\<close>,
  \<open>lazy_api\<close>, \<open>secret_manager\<close>, \<open>secret_lookups\<close>, \<open>scan_functions\<close>, \<open>pushdown_api\<close>, \<open>registries\<close>, \<open>rest_api\<close>,
  \<open>value_ops\<close>, \<open>string_util\<close>); what is relied on is a predicate \<open>..._laws\<close> on it, a hypothesis of the
  properties that need it, and every such predicate is shown to hold of a concrete instance.

  \<^bold>\<open>Bounds.\<close> Integers have the widths of the source: 64-bit record counts and timestamps wrap or truncate
  as written, field IDs have 32 bits, decimals 128. No fuel is used; the loops are structural, or
  terminate by a measure (\<open>strip_slashes\<close>, \<open>LookupSchema\<close>, \<open>BuildColumnDefinition\<close>).

  \<^bold>\<open>Not modelled.\<close> Functions with empty bodies or that return a default-constructed DuckDB value
  (\<open>Initialize\<close>, \<open>Checkpoint\<close>, \<open>GetDatabaseSize\<close>, \<open>GetStorageInfo\<close>, destructors), accessors that only
  take a lock or cast (\<open>LockCatalog\<close>, \<open>LockSchemas\<close>, the \<open>Get\<close> functions of transactions and
  catalogs), whose effect is part of the operations that call them, and the assertions that are compiled into debug builds only, except
  where a definition says so. Declarations in headers are modelled with their definitions.
  \<open>ClientContext\<close>, casts between DuckDB's base classes and memory ordering of the one atomic flag have
  no counterpart: a schema's flag is set and read in single steps, and the lock that guards the
  function-local static of \<open>RegisterS3Finalizer\<close>, under which no other is taken, is left out.
\<close>

section \<open>Concurrent operations on a schema\<close>

text \<open>
  A schema entry's registry is behind a mutex; what a critical section does to the entry and the
  environment is any number of operations.
\<close>

definition schema_operation where
  "schema_operation C T A start f \<longleftrightarrow> (\<forall>x. schema_step C T A start x (f x))"

lemma run_events_schema_steps:
  assumes "run_events es m = Some m'" and "\<forall>g f. EvModify g f \<in> set es \<longrightarrow> schema_operation C T A start f"
  shows "schema_steps C T A start (mutex_data m) (mutex_data m')"
  using assms
proof (induction es arbitrary: m' rule: rev_induct)
  case Nil
  then show ?case by auto
next
  case (snoc e es)
  then obtain m1 where m1: "run_events es m = Some m1" "do_event e m1 = Some m'"
    by (auto simp: run_events_snoc)
  have "mutex_data m' = mutex_data m1 \<or> schema_step C T A start (mutex_data m1) (mutex_data m')"
  proof (cases e)
    case (EvModify g f)
    then have "schema_operation C T A start f" using snoc.prems(2) by auto
    with EvModify m1(2) show ?thesis
      unfolding schema_operation_def by (auto simp: Modify_def Deref_def split: option.splits if_splits)
  qed (use m1(2) in \<open>auto simp: LockMutex_def MoveGuard_def DestroyGuard_def split: if_splits option.splits\<close>)
  then show ?case
    using snoc.IH [OF m1(1)] snoc.prems(2) by (auto intro: steps_step)
qed

lemma lookup_is_operation:
  "schema_operation C T A start (\<lambda>(se, env). snd (LookupEntry C T A start ty t se env))"
  unfolding schema_operation_def
proof
  fix x :: "'b schema_entry \<times> 'a env"
  obtain se env where x: "x = (se, env)" by fastforce
  obtain r se' env' where call: "LookupEntry C T A start ty t se env = (r, se', env')"
    using prod_cases3 by blast
  from step_lookup [OF call] show "schema_step C T A start x ((\<lambda>(se, env). snd (LookupEntry C T A start ty t se env)) x)"
    by (simp add: x call)
qed

text \<open>
  C4. Reads are repeatable under concurrency: threads lock a schema's registry, run lookups, scans and
  the other operations on it and go, in any interleaving; once one of them has looked a table up, every
  later lookup by any of them, however far in between, returns the same answer, does not ask the
  service and changes nothing.
\<close>

theorem concurrent_lookups_agree:
  assumes "registry_ok (tables se)"
    and "run_events es (MakeMutex (se, env)) = Some m"
    and "run_events (EvModify g (\<lambda>(se, env). snd (LookupEntry C T A start TABLE_ENTRY t se env)) # es') m = Some m'"
    and "\<forall>g f. EvModify g f \<in> set (es @ es') \<longrightarrow> schema_operation C T A start f"
    and "fst (LookupEntry C T A start TABLE_ENTRY t (fst (mutex_data m)) (snd (mutex_data m))) = Inr r"
  shows "LookupEntry C T A start TABLE_ENTRY t (fst (mutex_data m')) (snd (mutex_data m')) =
    (Inr r, fst (mutex_data m'), snd (mutex_data m'))"
proof -
  obtain se1 env1 where m: "mutex_data m = (se1, env1)" by fastforce
  obtain r' se2 env2 where call: "LookupEntry C T A start TABLE_ENTRY t se1 env1 = (r', se2, env2)"
    using prod_cases3 by blast
  then have r': "r' = Inr r" using assms(5) by (simp add: m)
  have "schema_steps C T A start (se, env) (se1, env1)"
    using run_events_schema_steps [OF assms(2)] assms(4) by (fastforce simp: MakeMutex_def m)
  then have ok: "registry_ok (tables se1)"
    using schema_steps_later [of C T A start "(se, env)"] assms(1) by (fastforce simp: later_def)
  have "run_events es' (m\<lparr>mutex_data := (se2, env2)\<rparr>) = Some m'"
    using assms(3) by (auto simp: Modify_def Deref_def m call split: if_splits)
  then obtain m1 where m1: "mutex_data m1 = (se2, env2)" "run_events es' m1 = Some m'"
    using mutex.select_convs(2) mutex.update_convs(2) by (metis mutex.surjective)
  have "schema_steps C T A start (se2, env2) (mutex_data m')"
    using run_events_schema_steps [OF m1(2)] assms(4) by (fastforce simp: m1(1))
  then show ?thesis
    using LookupEntry_again [OF ok call [unfolded r'], of "fst (mutex_data m')" "snd (mutex_data m')"] by simp
qed

theorem concurrent_lookups_agree_witness:
  "LookupEntry example_catalog example_table example_add_column 200 TABLE_ENTRY ''orders'' example_loaded
     example_loaded_env = (Inr (Some 0), example_loaded, example_loaded_env)"
proof -
  let ?look = "\<lambda>(se, env). snd (LookupEntry example_catalog example_table example_add_column 200 TABLE_ENTRY
    ''orders'' se env)"
  let ?m = "\<lparr>mutex_locked = True, mutex_data = (example_schema, example_env), guards = [0 \<mapsto> True]\<rparr>"
  let ?m' = "\<lparr>mutex_locked = True, mutex_data = (example_loaded, example_loaded_env), guards = [1 \<mapsto> True]\<rparr>"
  have before: "run_events [EvLock 0] (MakeMutex (example_schema, example_env)) = Some ?m"
    by (simp add: MakeMutex_def LockMutex_def)
  have after: "run_events (EvModify 0 ?look # [EvDestroy 0, EvLock 1]) ?m = Some ?m'"
    by (simp add: Modify_def Deref_def DestroyGuard_def LockMutex_def example_lookup)
  show ?thesis
    using concurrent_lookups_agree [OF example_registry_ok before after] by (simp add: example_lookup)
qed

section \<open>From a lookup to a scan\<close>

text \<open>The entry a lookup returned is loaded, and its scan function carries its scan information.\<close>

lemma looked_up_scan:
  assumes "appends_column A"
    and "schema_steps C T A start (ProtoIcebergSchemaEntry name, env0) (se, env)"
    and "LookupEntry C T A start TABLE_ENTRY t se env = (Inr (Some i), se1, env1)"
    and "GetScanFunction F M T P txn_id c i (tables se1) names m = (Inr (scan, b), reg', names', m')"
  obtains info where "te_scan_info (deref (tables se1) i) = Some info"
    "reads_as_of T start (si_table info) info"
    "columns_mirror (te_columns (deref (tables se1) i)) (si_schema info)" "function_info scan = Some info"
proof -
  have ok: "registry_ok (tables se)"
    using schema_steps_later [OF assms(2)] by (simp add: ProtoIcebergSchemaEntry_def later_def)
  then have "settled se1 t (Some i)" and "registry_ok (tables se1)"
    using LookupEntry_later [OF assms(3)] by (simp_all add: later_def)
  then have i: "i < length (reg_entries (tables se1))"
    using registry_okD [of "tables se1" t i] by (simp add: settled_def)
  obtain info where info: "te_scan_info (deref (tables se1) i) = Some info"
    "reads_as_of T start (si_table info) info"
    "columns_mirror (te_columns (deref (tables se1) i)) (si_schema info)"
    using LookupEntry_finished [OF assms(1-3)] by blast
  with GetScanFunction_returned [OF assms(4) i] that show ?thesis by auto
qed

text \<open>
  C7. A scan reads what the lookup promised: for an entry that a lookup in a transaction returned and the
  scan function DuckDB got for it, the reader's file list reads that table as of the transaction's
  start and is not filtered yet, and binding it yields exactly the names and types of the entry's
  columns, without an error.
\<close>

theorem scan_of_lookup:
  assumes "appends_column A"
    and "schema_steps C T A start (ProtoIcebergSchemaEntry name, env0) (se, env)"
    and "LookupEntry C T A start TABLE_ENTRY t se env = (Inr (Some i), se1, env1)"
    and "GetScanFunction F M T P txn_id c i (tables se1) names m = (Inr (scan, b), reg', names', m')"
  shows "\<exists>fl bind_data'. CreateFileList L (CreateInstance scan) = Some fl \<and>
    reads_as_of T start (si_table (fl_scan_info fl)) (fl_scan_info fl) \<and> fl_filters fl = [] \<and>
    fl_plan fl = LazyNew L \<and>
    Bind fl [] [] bind_data =
      Inr (True, map col_type (te_columns (deref (tables se1) i)),
           map col_name (te_columns (deref (tables se1) i)), bind_data')"
proof -
  from looked_up_scan [OF assms] obtain info where info: "te_scan_info (deref (tables se1) i) = Some info"
    "reads_as_of T start (si_table info) info"
    "columns_mirror (te_columns (deref (tables se1) i)) (si_schema info)"
    and scan: "function_info scan = Some info" by blast
  let ?fl = "ProtoIcebergMultiFileList L info []"
  have "CreateFileList L (CreateInstance scan) = Some ?fl"
    by (simp add: CreateFileList_def CreateInstance_def MakeReader_def scan)
  moreover from info(3) have "columns_mirror (te_columns (deref (tables se1) i)) (GetScanSchema ?fl)"
    by (simp add: GetScanSchema_def ProtoIcebergMultiFileList_def)
  from mirrored_schema_binds [OF this, of "[]" "[]" bind_data] obtain bind_data' where
    "Bind ?fl [] [] bind_data = Inr (True, map col_type (te_columns (deref (tables se1) i)),
       map col_name (te_columns (deref (tables se1) i)), bind_data')" by auto
  ultimately show ?thesis
    using info(2) by (intro exI [of _ ?fl] exI [of _ bind_data']) (simp add: ProtoIcebergMultiFileList_def)
qed

theorem scan_of_lookup_witness:
  "\<exists>fl bind_data'. fl_scan_info fl = \<lparr>si_table = 7, si_mode = PinnedRead 1,
      si_schema = [SchemaField 1 ''id'' kLong []]\<rparr> \<and>
    Bind (fl :: (nat, scan_plan option) file_list) [] [] \<lparr>bd_schema = [], bd_mapping = BY_NAME, bd_rest = ()\<rparr> =
      Inr (True, [BIGINT], [''id''], bind_data')"
proof -
  obtain x where x: "fst example_scan_call = Inr x" using example_scan_returned by blast
  obtain scan b reg' names' m' where call: "example_scan_call = (Inr (scan, b), reg', names', m')"
    using x by (metis prod.collapse)
  have info: "function_info scan = te_scan_info (deref (tables example_loaded) 0)"
    using GetScanFunction_returned [OF call [unfolded example_scan_call_def] example_loaded_valid] by auto
  obtain fl bind_data' where fl: "CreateFileList example_lazy (CreateInstance scan) = Some fl"
    and bind: "Bind fl [] [] \<lparr>bd_schema = [], bd_mapping = BY_NAME, bd_rest = ()\<rparr> =
      Inr (True, map col_type (te_columns (deref (tables example_loaded) 0)),
           map col_name (te_columns (deref (tables example_loaded) 0)), bind_data')"
    using scan_of_lookup [OF example_appends steps_refl [of example_catalog example_table
        example_add_column 200 "(example_schema, example_env)", unfolded example_schema_def]
        example_lookup [unfolded example_schema_def] call [unfolded example_scan_call_def],
        of example_lazy "\<lparr>bd_schema = [], bd_mapping = BY_NAME, bd_rest = ()\<rparr>"] by blast
  from fl have "fl_scan_info fl = the (te_scan_info (deref (tables example_loaded) 0))"
    by (auto simp: CreateFileList_def CreateInstance_def MakeReader_def info ProtoIcebergMultiFileList_def
        split: option.splits)
  with bind show ?thesis
    by (intro exI [of _ fl] exI [of _ bind_data']) (simp add: example_loaded_def deref_def)
qed

section \<open>From a lookup to the rows\<close>

text \<open>The files of a scan function, after any pushdowns, are all those with rows to be kept.\<close>

lemma scan_files_keep_rows:
  assumes "expression_laws E holds" and "predicate_laws E holds" and "planning_laws S holds files_of rows"
    and "pushdown_laws K (duckdb_semantics other_compare other)" and "lazy_laws L cached"
    and "function_info scan = Some info" and "CreateFileList L (CreateInstance scan) = Some fl"
    and "pushes L K E ps (fl, env2) = (fl1, env3)"
    and "GetAllFiles S L E T fl1 env4 = (Inr files, fl2, env5)"
    and "NewScan S (si_table info) = Inr builder" and "d \<in> files_of (scan_builder S (si_mode info) builder)"
    and "r \<in> rows d" and "nan_safe (fl_filters fl1) (si_schema info) r" and keeps: "\<forall>p \<in> set ps. pushdown_keeps K (duckdb_semantics other_compare other) (si_schema info) r p"
  shows "MakeOpenFileInfo d \<in> set files"
proof -
  have fl: "fl = ProtoIcebergMultiFileList L info []"
    using assms(6,7) by (simp add: CreateFileList_def CreateInstance_def MakeReader_def)
  note pushed = pushes_keep [OF assms(4,8)]
  have same: "fl_scan_info fl1 = info" "fl_plan fl1 = LazyNew L"
    using pushed by (simp_all add: fl ProtoIcebergMultiFileList_def)
  obtain plan env6 where plan: "PlanFilesImpl S E T info (fl_filters fl1) env4 = (Inr plan, env6)"
    and files: "files = map MakeOpenFileInfo (data_files plan)"
    using GetAllFiles_new [OF assms(5) same(2) assms(9)] same(1) by metis
  have "filters_keep (duckdb_semantics other_compare other) (fl_filters fl1) (si_schema info) r"
    using pushed [of "si_schema info" r] keeps by (simp add: fl ProtoIcebergMultiFileList_def)
  from planning_loses_no_row [OF assms(1-3) plan assms(10-12) this assms(13)] show ?thesis by (simp add: files)
qed

text \<open>In a single schema and transaction, from the operations themselves.\<close>

lemma query_loses_no_row:
  assumes "expression_laws E holds" and "predicate_laws E holds" and "planning_laws S holds files_of rows"
    and "pushdown_laws K (duckdb_semantics other_compare other)" and "lazy_laws L cached" and "appends_column A"
    and "schema_steps C T A start (ProtoIcebergSchemaEntry name, env0) (se, env)"
    and "LookupEntry C T A start TABLE_ENTRY t se env = (Inr (Some i), se1, env1)"
    and "GetScanFunction F M T P txn_id c i (tables se1) names m = (Inr (scan, b), reg', names', m')"
    and "CreateFileList L (CreateInstance scan) = Some fl"
    and "pushes L K E ps (fl, env2) = (fl1, env3)"
    and "GetAllFiles S L E T fl1 env4 = (Inr files, fl2, env5)"
  shows "\<exists>info. te_scan_info (deref (tables se1) i) = Some info \<and>
    reads_as_of T start (si_table info) info \<and>
    (\<forall>builder d r. NewScan S (si_table info) = Inr builder \<longrightarrow>
       d \<in> files_of (scan_builder S (si_mode info) builder) \<longrightarrow> r \<in> rows d \<longrightarrow>
       nan_safe (fl_filters fl1) (si_schema info) r \<longrightarrow>
       (\<forall>p \<in> set ps. pushdown_keeps K (duckdb_semantics other_compare other) (si_schema info) r p) \<longrightarrow> MakeOpenFileInfo d \<in> set files)"
  using looked_up_scan [OF assms(6-9)] scan_files_keep_rows [OF assms(1-5) _ assms(10-12)] by metis

text \<open>
  C2. A query loses no row: whatever the connections of an instance do, in any interleaving and while the
  service changes, from a table that a connection's transaction looked up through the scan function it
  got for it, the reader's file list, any sequence of pushdowns by the optimizer and by joins, to the
  files DuckDB is given: the files are those of one version of the table, the one the lookup promised,
  as of the transaction's start, and among them is every data file of that version with a row that all
  the pushed filters keep in DuckDB's semantics; but a NaN that Iceberg's bounds leave out may be missed
  in a column with a filter that keeps it (\<open>nan_safe\<close>). A version is as of the start in the sense of
  \<open>reads_as_of\<close>: a table without snapshots has no state to pin and is read as it was loaded.
\<close>

theorem instance_query_loses_no_row:
  assumes "expression_laws E holds" and "predicate_laws E holds" and "planning_laws S holds files_of rows"
    and "pushdown_laws K (duckdb_semantics other_compare other)" and "lazy_laws L cached" and "appends_column (d_add_column X)"
    and "run_all (instance_step X) events (new_instance env m) = (replies, s)"
    and "(EvCall c name (CallLookupEntry n TABLE_ENTRY t), Answered txn_id ts (FoundEntry (Inr (Some (i, entry)))))
      \<in> set (zip events replies)"
    and "(EvCall c name (CallGetScanFunction n i), Answered txn_id ts (FoundScan (Inr (scan, b))))
      \<in> set (zip events replies)"
    and "CreateFileList L (CreateInstance scan) = Some fl"
    and "pushes L K E ps (fl, env2) = (fl1, env3)"
    and "GetAllFiles S L E (d_tables X) fl1 env4 = (Inr files, fl2, env5)"
  shows "\<exists>info. te_scan_info entry = Some info \<and>
    reads_as_of (d_tables X) (start_timestamp_ms_of ts) (si_table info) info \<and>
    (\<forall>builder d r. NewScan S (si_table info) = Inr builder \<longrightarrow>
       d \<in> files_of (scan_builder S (si_mode info) builder) \<longrightarrow> r \<in> rows d \<longrightarrow>
       nan_safe (fl_filters fl1) (si_schema info) r \<longrightarrow>
       (\<forall>p \<in> set ps. pushdown_keeps K (duckdb_semantics other_compare other) (si_schema info) r p) \<longrightarrow> MakeOpenFileInfo d \<in> set files)"
  using answered_scan [OF assms(6-9)] scan_files_keep_rows [OF assms(1-5) _ assms(10-12)] by metis

text \<open>The query \<open>id >= 5\<close> on the table looked up, of whose two files the second has such a row.\<close>

definition example_pushdowns :: "(nat \<times> table_filter) pushdown list" where
  "example_pushdowns =
     [OptimizerFilters [(0, ConstantFilter COMPARE_GREATERTHANOREQUALTO (BigIntValue 5))],
      DynamicFilters [0] [(0, IsNotNullFilter)]]"

lemma example_any_plan:
  "\<exists>plan. fst (PlanFilesImpl example_scan_api tree_expressions example_table info filters env) = Inr plan"
  by (auto simp: PlanFilesImpl_planned planned_tasks_def example_scan_api_def CollectTasks_accepts readable_def
      example_files_def example_file_def split: scan_mode.split)

definition example_query_files :: "open_file_info list throws" where
  "example_query_files = fst (GetAllFiles example_scan_api example_lazy tree_expressions example_table
     (fst (pushes example_lazy example_pushdown tree_expressions example_pushdowns
        (ProtoIcebergMultiFileList example_lazy \<lparr>si_table = 7, si_mode = PinnedRead 1,
           si_schema = [SchemaField 1 ''id'' kLong []]\<rparr> [], example_env))) example_env)"

theorem instance_query_loses_no_row_witness:
  "\<exists>files. example_query_files = Inr files \<and> MakeOpenFileInfo (example_file ''b.parquet'' 4) \<in> set files"
proof -
  let ?fl = "ProtoIcebergMultiFileList example_lazy example_pinned []"
  obtain fl1 env3 where pushed: "pushes example_lazy example_pushdown tree_expressions example_pushdowns
      (?fl, example_env) = (fl1, env3)" by fastforce
  have "fl_plan fl1 = LazyNew example_lazy"
    using pushes_keep [OF example_pushdown_laws [of example_semantics] pushed, of "[]" "\<lambda>_. BigIntValue 0"]
    by (simp add: ProtoIcebergMultiFileList_def)
  then obtain files where "fst (GetAllFiles example_scan_api example_lazy tree_expressions example_table
      fl1 example_env) = Inr files"
    using GetAllFiles_planned [OF example_lazy_laws _ example_any_plan] by blast
  then obtain fl2 env5 where files: "GetAllFiles example_scan_api example_lazy tree_expressions
      (d_tables example_duckdb) fl1 example_env = (Inr files, fl2, env5)"
    by (metis prod.collapse example_duckdb_parts(1))
  have row: "\<forall>p \<in> set example_pushdowns. pushdown_keeps example_pushdown example_semantics (si_schema example_pinned)
      (example_row (example_file ''b.parquet'' 4)) p"
    by (simp add: example_pushdowns_def example_pushdown_def dynamic_keep_def filters_keep_def
        duckdb_semantics_def scalar_compare_def example_row_def example_file_def)
  have safe: "nan_safe fs schema (example_row d)" for fs schema d
    by (auto simp: nan_safe_def nan_value_def example_row_def)
  have new: "CreateFileList example_lazy (CreateInstance
      \<lparr>tf_name = ''proto_iceberg_table_scan'', get_multi_file_reader = ProtoIcebergMultiFileReader,
        function_info = Some example_pinned, projection_pushdown = True, tf_rest = ()\<rparr>) = Some ?fl"
    by (simp add: CreateFileList_def CreateInstance_def MakeReader_def)
  from instance_query_loses_no_row [OF tree_expression_laws tree_predicate_laws example_planning_laws
      example_pushdown_laws [of example_semantics] example_lazy_laws example_duckdb_parts(2) example_trace_run example_trace_lookup
      example_trace_scan new pushed files]
  have "MakeOpenFileInfo (example_file ''b.parquet'' 4) \<in> set files"
    using row safe by (auto simp: example_scan_api_def example_files_def)
  moreover have "example_query_files = Inr files"
    using files by (simp add: example_query_files_def pushed example_duckdb_parts(1))
  ultimately show ?thesis by blast
qed

end
